(* ===== verification/OJ_Prelude.thy ===== *)
theory OJ_Prelude
  imports Complex_Main "HOL-Library.Word" "HOL-Library.Multiset"
begin

text \<open>
  Vocabulary shared by every component of the online-judge services.

  \<^item> Rust integers keep their width: \<open>u8\<close>, \<open>u32\<close>, \<open>u64\<close> and \<open>i32\<close> are words, and the
    arithmetic of the release build wraps.  Lengths and counts of collections
    (\<open>usize\<close> values that are bounded by memory) are \<open>nat\<close>.
  \<^item> A Rust \<open>String\<close> or \<open>&str\<close> is its UTF-8 bytes: the type \<open>string\<close>, whose characters
    are bytes, so that \<open>length\<close> is Rust's \<open>len()\<close>.
  \<^item> A \<open>Result<T, E>\<close> is \<open>'e + 't\<close> with \<open>Inl\<close> for \<open>Err\<close>.
  \<^item> Concurrent components are transition systems; \<open>reach\<close> collects the states a system can
    reach, and the locale \<open>inductive_invariant\<close> is the contract between an invariant and the
    system that keeps it.
\<close>

type_synonym u8 = "8 word"
type_synonym u32 = "32 word"
type_synonym u64 = "64 word"
type_synonym i32 = "32 word"

subsection \<open>Collections of facts the components share\<close>

named_theorems count_simps \<open>counting elements of lists and multisets\<close>
named_theorems word_bounds \<open>reading words as natural numbers\<close>

subsection \<open>Words\<close>

lemma unat_suc_less [word_bounds]:
  fixes x y :: "'a::len word"
  assumes "x < y"
  shows "unat (x + 1) = unat x + 1"
proof -
  have "unat x < unat y" using assms by (simp add: word_less_nat_alt)
  moreover have "unat y < 2 ^ LENGTH('a)" by (rule unsigned_less)
  ultimately have "unat x + 1 < 2 ^ LENGTH('a)" by linarith
  then show ?thesis by (simp add: unat_word_ariths)
qed

lemma unat_pred [word_bounds]:
  fixes x :: "'a::len word"
  assumes "unat x = Suc n"
  shows "unat (x - 1) = n"
proof -
  have "x \<noteq> 0" using assms by auto
  then show ?thesis using assms by (simp add: unat_minus_one)
qed

lemma unat_add_exact [word_bounds]:
  fixes x y :: "'a::len word"
  assumes "unat x + unat y < 2 ^ LENGTH('a)"
  shows "unat (x + y) = unat x + unat y"
  using assms by (simp add: unat_word_ariths)

lemma unat_mult_exact [word_bounds]:
  fixes x y :: "'a::len word"
  assumes "unat x * unat y < 2 ^ LENGTH('a)"
  shows "unat (x * y) = unat x * unat y"
  using assms by (simp add: unat_word_ariths)

lemma unat_max [word_bounds]:
  fixes x y :: "'a::len word"
  shows "unat (max x y) = max (unat x) (unat y)"
  by (simp add: max_def word_le_nat_alt)

lemma sint_small [word_bounds]:
  fixes w :: u64
  assumes "unat w < 2 ^ 63"
  shows "sint w = int (unat w)"
proof -
  have u: "uint w = int (unat w)" by simp
  have "int (unat w) < int (2 ^ 63)" using assms by (simp only: of_nat_less_iff)
  then have "int (unat w) < 2 ^ 63" by (simp only: of_nat_power of_nat_numeral)
  then have "signed_take_bit 63 (uint w) = uint w" unfolding u by (intro signed_take_bit_int_eq_self) linarith+
  then have "sint w = uint w" by (simp add: sint_uint)
  from this u show ?thesis by (rule trans)
qed

subsection \<open>Lists\<close>

lemma distinct_map_eq_D:
  "distinct (map f xs) \<Longrightarrow> x \<in> set xs \<Longrightarrow> y \<in> set xs \<Longrightarrow> f x = f y \<Longrightarrow> x = y"
  by (meson distinct_map inj_onD)

lemma nth_update_if: "j < length xs \<Longrightarrow> xs[i := x] ! j = (if i = j then x else xs ! j)"
  by (cases "i = j") auto

lemma find_Some_split:
  "List.find P xs = Some x \<Longrightarrow> x \<in> set xs \<and> P x"
  by (induction xs) (auto split: if_splits)

text \<open>\<open>Iterator::min_by_key\<close>: the first of the elements with the least key.\<close>

fun min_by_key :: "('a \<Rightarrow> 'k::linorder) \<Rightarrow> 'a list \<Rightarrow> 'a option" where
  "min_by_key f [] = None"
| "min_by_key f (x # xs) =
     (case min_by_key f xs of
        None \<Rightarrow> Some x
      | Some y \<Rightarrow> if f y < f x then Some y else Some x)"

lemma min_by_key_None [simp]: "min_by_key f xs = None \<longleftrightarrow> xs = []"
  by (cases xs) (auto split: option.splits)

lemma min_by_key_least:
  "min_by_key f xs = Some x \<Longrightarrow> x \<in> set xs \<and> (\<forall>y \<in> set xs. f x \<le> f y)"
proof (induction xs arbitrary: x)
  case Nil
  then show ?case by simp
next
  case (Cons a xs)
  show ?case
  proof (cases "min_by_key f xs")
    case None
    with Cons.prems show ?thesis by simp
  next
    case (Some y)
    with Cons.IH [OF Some] Cons.prems show ?thesis by (auto split: if_splits intro: order_trans)
  qed
qed

lemma min_by_key_in: "min_by_key f xs = Some x \<Longrightarrow> x \<in> set xs"
  by (simp add: min_by_key_least)

subsection \<open>Results\<close>

fun result_ok :: "'e + 'a \<Rightarrow> bool" where
  "result_ok (Inl _) = False"
| "result_ok (Inr _) = True"

text \<open>The \<open>?\<close> operator: an error leaves the function.\<close>

definition sum_bind :: "'e + 'a \<Rightarrow> ('a \<Rightarrow> 'e + 'b) \<Rightarrow> 'e + 'b" where
  "sum_bind r f = (case r of Inl e \<Rightarrow> Inl e | Inr x \<Rightarrow> f x)"

lemma sum_bind_simps [simp]: "sum_bind (Inl e) f = Inl e" "sum_bind (Inr x) f = f x"
  by (simp_all add: sum_bind_def)

lemma sum_bind_Inr [simp]: "sum_bind r f = Inr y \<longleftrightarrow> (\<exists>x. r = Inr x \<and> f x = Inr y)"
  by (cases r) simp_all

subsection \<open>Durations\<close>

text \<open>A \<open>Duration\<close> is its number of nanoseconds.\<close>

type_synonym duration = nat

definition from_secs :: "u64 \<Rightarrow> duration" where
  "from_secs n = unat n * 10 ^ 9"

definition as_secs :: "duration \<Rightarrow> u64" where
  "as_secs d = word_of_nat (d div 10 ^ 9)"

lemma as_secs_from_secs [simp]: "as_secs (from_secs n) = n"
  by (simp add: as_secs_def from_secs_def)

subsection \<open>Decimal numbers\<close>

definition digit_char :: "nat \<Rightarrow> char" where
  "digit_char d = char_of (48 + d)"

fun show_nat :: "nat \<Rightarrow> string" where
  "show_nat n = (if n < 10 then [digit_char n] else show_nat (n div 10) @ [digit_char (n mod 10)])"

declare show_nat.simps [simp del]

definition is_digit :: "char \<Rightarrow> bool" where
  "is_digit c \<longleftrightarrow> 48 \<le> (of_char c :: nat) \<and> (of_char c :: nat) \<le> 57"

definition digit_value :: "char \<Rightarrow> nat" where
  "digit_value c = of_char c - 48"

definition read_nat :: "string \<Rightarrow> nat" where
  "read_nat s = foldl (\<lambda>n c. n * 10 + digit_value c) 0 s"

lemma digit_char_facts [simp]:
  assumes "d < 10"
  shows "is_digit (digit_char d)" and "digit_value (digit_char d) = d"
  using assms by (simp_all add: is_digit_def digit_value_def digit_char_def)

lemma show_nat_digits: "show_nat n \<noteq> [] \<and> (\<forall>c \<in> set (show_nat n). is_digit c)"
proof (induction n rule: show_nat.induct)
  case (1 n)
  show ?case
  proof (cases "n < 10")
    case False
    with 1 show ?thesis by (subst (1 2) show_nat.simps) auto
  qed (simp add: show_nat.simps)
qed

lemma read_nat_show_nat [simp]: "read_nat (show_nat n) = n"
proof (induction n rule: show_nat.induct)
  case (1 n)
  show ?case
  proof (cases "n < 10")
    case False
    with 1 show ?thesis by (subst show_nat.simps) (simp add: read_nat_def)
  qed (simp add: show_nat.simps read_nat_def)
qed

lemma show_nat_inject [simp]: "show_nat m = show_nat n \<longleftrightarrow> m = n"
  by (metis read_nat_show_nat)

subsection \<open>Transition systems\<close>

inductive reach :: "'s \<Rightarrow> ('s \<Rightarrow> 's \<Rightarrow> bool) \<Rightarrow> 's \<Rightarrow> bool" for init step where
  reach_init: "reach init step init"
| reach_step: "reach init step s \<Longrightarrow> step s t \<Longrightarrow> reach init step t"

lemma reach_trans_steps:
  "reach init step s \<Longrightarrow> step\<^sup>*\<^sup>* s t \<Longrightarrow> reach init step t"
  by (rotate_tac 1, induction rule: rtranclp_induct) (auto intro: reach_step)

text \<open>
  A predicate that holds initially and is kept by every step holds in every reachable state.
  \<open>aux\<close> is an invariant already established, which the step may rely on.
\<close>

locale inductive_invariant =
  fixes init :: "'s"
    and step :: "'s \<Rightarrow> 's \<Rightarrow> bool"
    and aux :: "'s \<Rightarrow> bool"
    and inv :: "'s \<Rightarrow> bool"
  assumes aux_reach: "reach init step s \<Longrightarrow> aux s"
    and inv_init: "inv init"
    and inv_step: "aux s \<Longrightarrow> inv s \<Longrightarrow> step s t \<Longrightarrow> inv t"
begin

lemma inv_reach: "reach init step s \<Longrightarrow> inv s"
  by (induction rule: reach.induct) (auto intro: inv_init inv_step aux_reach)

lemma both_reach: "reach init step s \<Longrightarrow> aux s \<and> inv s"
  by (simp add: aux_reach inv_reach)

end

text \<open>
  A step relation implements another one through \<open>view\<close>: what one step does to the view is a run of the
  specification.
\<close>

locale simulation = inductive_invariant init step aux inv
  for init :: "'s" and step :: "'s \<Rightarrow> 's \<Rightarrow> bool" and aux :: "'s \<Rightarrow> bool" and inv :: "'s \<Rightarrow> bool" +
  fixes spec_init :: "'a"
    and spec_step :: "'a \<Rightarrow> 'a \<Rightarrow> bool"
    and view :: "'s \<Rightarrow> 'a"
  assumes view_init: "view init = spec_init"
    and view_step: "aux s \<Longrightarrow> inv s \<Longrightarrow> step s t \<Longrightarrow> spec_step\<^sup>*\<^sup>* (view s) (view t)"
begin

lemma simulated: "reach init step s \<Longrightarrow> reach spec_init spec_step (view s)"
proof (induction rule: reach.induct)
  case reach_init
  show ?case by (simp add: view_init reach.reach_init)
next
  case (reach_step s t)
  with both_reach [OF reach_step.hyps(1)] view_step [of s t] show ?case by (blast intro: reach_trans_steps)
qed

lemma spec_invariant:
  assumes "reach init step s" and "P spec_init" and "\<And>a b. P a \<Longrightarrow> spec_step a b \<Longrightarrow> P b"
  shows "P (view s)"
  using simulated [OF assms(1)] by (induction rule: reach.induct) (auto intro: assms(2,3))

end

end
