(* ===== verification/Ranking.thy ===== *)
theory Ranking
  imports OJ_Prelude
begin

text \<open>
  The scoreboard (\<open>services/crates/algorithm/src/ranking.rs\<close>): ICPC entries, their penalty, the
  order of the scoreboard and the ranks with ties.  \<open>sort_unstable_by\<close> may return the entries that
  compare equal in any order; \<open>sort_entries\<close> picks one, and the ranking loop \<open>rank_loop\<close> is
  separate from it so that its lemmas hold for every result the sort may return.
\<close>

record icpc_entry =
  entry_id :: string
  solved_problems :: u64
  penalty_count :: u64
  time_using :: u64

record ranked_entry =
  entry :: icpc_entry
  rank :: u64

text \<open>The ranker's only field and option is \<open>penalty_seconds\<close>.\<close>

record icpc_ranker =
  penalty_seconds :: u64

definition ranker_new :: "u64 \<Rightarrow> icpc_ranker" where
  "ranker_new options_penalty_seconds = \<lparr>penalty_seconds = options_penalty_seconds\<rparr>"

text \<open>Arithmetic on \<open>u64\<close>: it wraps in the release build.\<close>

definition penalty :: "icpc_ranker \<Rightarrow> icpc_entry \<Rightarrow> u64" where
  "penalty r e = time_using e + penalty_count e * penalty_seconds r"

subsection \<open>The comparator and the order it stands for\<close>

datatype ordering = Less | Equal | Greater

definition cmp_u64 :: "u64 \<Rightarrow> u64 \<Rightarrow> ordering" where
  "cmp_u64 a b = (if a < b then Less else if a = b then Equal else Greater)"

definition entry_cmp :: "icpc_ranker \<Rightarrow> icpc_entry \<Rightarrow> icpc_entry \<Rightarrow> ordering" where
  "entry_cmp r a b =
     (case cmp_u64 (solved_problems b) (solved_problems a) of
        Equal \<Rightarrow> cmp_u64 (penalty r a) (penalty r b)
      | other \<Rightarrow> other)"

text \<open>The key the comparator compares: more problems first, then less penalty.\<close>

datatype score = Score (score_solved: u64) (score_penalty: u64)

instantiation score :: linorder
begin

definition less_eq_score :: "score \<Rightarrow> score \<Rightarrow> bool" where
  "less_eq_score x y \<longleftrightarrow> score_solved y < score_solved x \<or>
     (score_solved x = score_solved y \<and> score_penalty x \<le> score_penalty y)"

definition less_score :: "score \<Rightarrow> score \<Rightarrow> bool" where
  "less_score x y \<longleftrightarrow> score_solved y < score_solved x \<or>
     (score_solved x = score_solved y \<and> score_penalty x < score_penalty y)"

instance
  by standard (auto simp: less_eq_score_def less_score_def score.expand)

end

definition score_of :: "icpc_ranker \<Rightarrow> icpc_entry \<Rightarrow> score" where
  "score_of r e = Score (solved_problems e) (penalty r e)"

lemma entry_cmp_Less: "entry_cmp r a b = Less \<longleftrightarrow> score_of r a < score_of r b"
  by (auto simp: entry_cmp_def cmp_u64_def score_of_def less_score_def)

lemma entry_cmp_Equal: "entry_cmp r a b = Equal \<longleftrightarrow> score_of r a = score_of r b"
  by (auto simp: entry_cmp_def cmp_u64_def score_of_def)

lemma entry_cmp_Greater: "entry_cmp r a b = Greater \<longleftrightarrow> score_of r b < score_of r a"
  by (auto simp: entry_cmp_def cmp_u64_def score_of_def less_score_def)

lemmas entry_cmp_score = entry_cmp_Less entry_cmp_Equal entry_cmp_Greater

text \<open>Insertion by the comparator: a permutation in which no entry compares greater than a later one.\<close>

fun insert_by :: "icpc_ranker \<Rightarrow> icpc_entry \<Rightarrow> icpc_entry list \<Rightarrow> icpc_entry list" where
  "insert_by r x [] = [x]"
| "insert_by r x (y # ys) = (if entry_cmp r x y = Greater then y # insert_by r x ys else x # y # ys)"

definition sort_entries :: "icpc_ranker \<Rightarrow> icpc_entry list \<Rightarrow> icpc_entry list" where
  "sort_entries r entries = foldr (insert_by r) entries []"

abbreviation score_sorted :: "icpc_ranker \<Rightarrow> icpc_entry list \<Rightarrow> bool" where
  "score_sorted r es \<equiv> sorted (map (score_of r) es)"

lemma mset_insert_by [simp]: "mset (insert_by r x es) = add_mset x (mset es)"
  by (induction es) auto

lemma set_insert_by [simp]: "set (insert_by r x es) = insert x (set es)"
  by (induction es) auto

lemma sorted_insert_by: "score_sorted r es \<Longrightarrow> score_sorted r (insert_by r x es)"
  by (induction es) (auto simp: entry_cmp_Greater not_less)

lemma mset_sort_entries [simp]: "mset (sort_entries r es) = mset es"
  by (induction es) (auto simp: sort_entries_def)

lemma set_sort_entries [simp]: "set (sort_entries r es) = set es"
  by (metis mset_sort_entries set_mset_mset)

lemma sorted_sort_entries: "score_sorted r (sort_entries r es)"
  by (induction es) (auto simp: sort_entries_def sorted_insert_by)

subsection \<open>Ranks\<close>

text \<open>
  The loop of \<open>rank\<close> after its first iteration: \<open>i\<close> is the index, \<open>prev\<close> the entry pushed
  last, \<open>rk\<close> the variable \<open>rank\<close>.
\<close>

fun rank_loop :: "icpc_ranker \<Rightarrow> nat \<Rightarrow> icpc_entry \<Rightarrow> u64 \<Rightarrow> icpc_entry list \<Rightarrow> ranked_entry list" where
  "rank_loop r i prev rk [] = []"
| "rank_loop r i prev rk (current # rest) =
     (if solved_problems current = solved_problems prev \<and> penalty r current = penalty r prev
      then \<lparr>entry = current, rank = rk\<rparr> # rank_loop r (i + 1) current rk rest
      else \<lparr>entry = current, rank = of_nat (i + 1)\<rparr> # rank_loop r (i + 1) current (of_nat (i + 1)) rest)"

fun rank_sorted :: "icpc_ranker \<Rightarrow> icpc_entry list \<Rightarrow> ranked_entry list" where
  "rank_sorted r [] = []"
| "rank_sorted r (first # rest) = \<lparr>entry = first, rank = 1\<rparr> # rank_loop r 1 first 1 rest"

definition rank_entries :: "icpc_ranker \<Rightarrow> icpc_entry list \<Rightarrow> ranked_entry list" where
  "rank_entries r entries = rank_sorted r (sort_entries r entries)"

lemma map_entry_rank_loop [simp]: "map entry (rank_loop r i prev rk es) = es"
  by (induction r i prev rk es rule: rank_loop.induct) auto

lemma map_entry_rank_sorted [simp]: "map entry (rank_sorted r es) = es"
  by (cases es) auto

text \<open>The number of entries of a field that are strictly better than \<open>e\<close>.\<close>

definition better_count :: "icpc_ranker \<Rightarrow> icpc_entry list \<Rightarrow> icpc_entry \<Rightarrow> nat" where
  "better_count r es e = length (filter (\<lambda>x. score_of r x < score_of r e) es)"

lemma better_count_mset:
  "mset xs = mset ys \<Longrightarrow> better_count r xs e = better_count r ys e"
  by (metis better_count_def mset_filter size_mset)

lemma better_count_less_length: "e \<in> set es \<Longrightarrow> better_count r es e < length es"
  unfolding better_count_def by (rule length_filter_less) auto

text \<open>
  The loop's invariant: \<open>done\<close> is the part already ranked, ending in \<open>prev\<close>, and \<open>rk\<close> is one
  more than the number of entries better than \<open>prev\<close>.
\<close>

lemma filter_better_prefix:
  assumes "score_sorted r (pre @ e # rest)"
  shows "better_count r (pre @ e # rest) e = length (filter (\<lambda>x. score_of r x < score_of r e) pre)"
  using assms by (auto simp: better_count_def sorted_append filter_empty_conv not_less)

lemma rank_loop_ranks:
  assumes "score_sorted r (pre @ prev # es)"
    and "rk = of_nat (1 + better_count r (pre @ prev # es) prev)"
  shows "\<forall>x \<in> set (rank_loop r (Suc (length pre)) prev rk es).
           rank x = of_nat (1 + better_count r (pre @ prev # es) (entry x))"
  using assms
proof (induction es arbitrary: pre prev rk)
  case Nil
  then show ?case by simp
next
  case (Cons c es)
  let ?all = "pre @ prev # c # es"
  have srt: "score_sorted r ((pre @ [prev]) @ c # es)" using Cons.prems(1) by simp
  show ?case
  proof (cases "score_of r c = score_of r prev")
    case True
    then have tie: "solved_problems c = solved_problems prev \<and> penalty r c = penalty r prev"
      by (simp add: score_of_def)
    have same: "better_count r ?all c = better_count r ?all prev"
      using True by (simp add: better_count_def)
    have "rk = of_nat (1 + better_count r ((pre @ [prev]) @ c # es) c)"
      using Cons.prems(2) same by simp
    from Cons.IH [OF srt this] tie same Cons.prems(2) show ?thesis by simp
  next
    case False
    then have ntie: "\<not> (solved_problems c = solved_problems prev \<and> penalty r c = penalty r prev)"
      by (simp add: score_of_def)
    have below: "\<forall>x \<in> set (pre @ [prev]). score_of r x < score_of r c"
      using srt False by (fastforce simp: sorted_append less_le intro: order_trans)
    have cnt: "better_count r ?all c = Suc (length pre)"
      using filter_better_prefix [OF srt] below by (simp add: filter_id_conv [THEN iffD2])
    have "of_nat (Suc (length pre) + 1) = (of_nat (1 + better_count r ((pre @ [prev]) @ c # es) c) :: u64)"
      using cnt by simp
    from Cons.IH [OF srt this] ntie cnt show ?thesis by auto
  qed
qed

lemma rank_sorted_ranks:
  assumes "score_sorted r es" and "x \<in> set (rank_sorted r es)"
  shows "rank x = of_nat (1 + better_count r es (entry x))"
proof (cases es)
  case Nil
  with assms(2) show ?thesis by simp
next
  case (Cons e rest)
  have "better_count r (e # rest) e = 0"
    using filter_better_prefix [of r "[]" e rest] assms(1) Cons by simp
  with rank_loop_ranks [of r "[]" e rest 1] assms Cons show ?thesis by auto
qed


subsection \<open>Properties\<close>

text \<open>C36. Whatever order \<open>sort_unstable_by\<close> leaves the entries in that compare equal, the scoreboard ranks a
  permutation of the entries, best score first, and gives every entry the rank one more than the number
  of entries strictly better than it: ties share a rank and the ranks after a tie are skipped.\<close>
theorem ranks_count_better_entries:
  assumes "length entries < 2 ^ 64" and "mset es = mset entries" and "score_sorted r es"
  shows "map entry (rank_sorted r es) = es \<and>
    (\<forall>x \<in> set (rank_sorted r es). unat (rank x) = 1 + better_count r entries (entry x))"
proof (intro conjI ballI)
  fix x
  assume x: "x \<in> set (rank_sorted r es)"
  then have "entry x \<in> set entries"
    using assms(2) by (metis image_eqI list.set_map map_entry_rank_sorted set_mset_mset)
  from better_count_less_length [OF this, of r] assms(1)
  have small: "1 + better_count r entries (entry x) < 2 ^ 64" by linarith
  have "rank x = of_nat (1 + better_count r entries (entry x))"
    using rank_sorted_ranks [OF assms(3) x] better_count_mset [OF assms(2)] by simp
  with small show "unat (rank x) = 1 + better_count r entries (entry x)"
    by (simp add: unat_of_nat del: of_nat_Suc of_nat_add)
qed simp

definition demo_entries :: "icpc_entry list" where
  "demo_entries =
     [\<lparr>entry_id = ''a'', solved_problems = 2, penalty_count = 1, time_using = 100\<rparr>,
      \<lparr>entry_id = ''b'', solved_problems = 3, penalty_count = 0, time_using = 500\<rparr>,
      \<lparr>entry_id = ''c'', solved_problems = 2, penalty_count = 0, time_using = 1300\<rparr>,
      \<lparr>entry_id = ''d'', solved_problems = 0, penalty_count = 0, time_using = 0\<rparr>]"

lemma demo_entries_length: "size (mset demo_entries) = 4"
  by (simp add: demo_entries_def)

theorem ranks_count_better_entries_witness:
  "map entry (rank_sorted (ranker_new 1200) (sort_entries (ranker_new 1200) demo_entries)) =
     sort_entries (ranker_new 1200) demo_entries \<and>
   unat (rank (rank_sorted (ranker_new 1200) (sort_entries (ranker_new 1200) demo_entries) ! 2)) =
     1 + better_count (ranker_new 1200) demo_entries
           (entry (rank_sorted (ranker_new 1200) (sort_entries (ranker_new 1200) demo_entries) ! 2))"
proof -
  let ?es = "sort_entries (ranker_new 1200) demo_entries"
  have "map entry (rank_sorted (ranker_new 1200) ?es) = ?es \<and>
      (\<forall>x \<in> set (rank_sorted (ranker_new 1200) ?es).
         unat (rank x) = 1 + better_count (ranker_new 1200) demo_entries (entry x))"
    by (rule ranks_count_better_entries) (simp_all add: demo_entries_def sorted_sort_entries)
  moreover have "length ?es = 4" by (metis mset_sort_entries size_mset demo_entries_length)
  moreover have "length (rank_sorted (ranker_new 1200) ?es) = length ?es" by (metis length_map map_entry_rank_sorted)
  ultimately show ?thesis by simp
qed

text \<open>\<open>sort\<close> returns a permutation of the entries in the order of the comparator, and that order is the
  lexicographic one: more solved problems first, then the smaller penalty.\<close>
theorem sort_by_score:
  "mset (sort_entries r entries) = mset entries \<and> score_sorted r (sort_entries r entries) \<and>
   (entry_cmp r a b = Less \<longleftrightarrow>
      solved_problems b < solved_problems a \<or> (solved_problems a = solved_problems b \<and> penalty r a < penalty r b))"
  by (auto simp: sorted_sort_entries entry_cmp_Less score_of_def less_score_def)

end
