(* ===== verification/Provisioner.thy ===== *)
theory Provisioner
  imports OJ_Prelude "HOL-Library.Sublist"
begin

text \<open>
  Agent containers (\<open>judge_core_manager/src/provisioner.rs\<close>).  containerd, the file system and the
  OCI libraries are the parameter \<open>containerd\<close>: what every call answers.  The state of a provisioner
  is the log of the calls it made, in order, and its cached chain id, so the properties say which
  calls are made in which order and what their failures lead to.
\<close>

datatype provision_error =
    Rpc
  | ProvisionIo
  | SocketTimeout u64
  | ProvisionSerialization
  | OciSpec

definition AGENT_LABEL_KEY :: string where "AGENT_LABEL_KEY = ''judge-core.agent''"
definition AGENT_LABEL_VALUE :: string where "AGENT_LABEL_VALUE = ''true''"
definition SOCKET_WAIT_TIMEOUT_SECS :: u64 where "SOCKET_WAIT_TIMEOUT_SECS = 30"
definition SOCKET_WAIT_INTERVAL_MS :: u64 where "SOCKET_WAIT_INTERVAL_MS = 100"

subsection \<open>The container's specification\<close>

record oci_mount =
  mount_destination :: string
  mount_source :: string
  mount_typ :: string
  mount_options :: "string list"

record linux_device =
  device_path :: string
  device_major :: nat
  device_minor :: nat
  device_mode :: nat

text \<open>A rule of the device cgroup; \<open>None\<close> is any device of any type (\<open>LinuxDeviceType::A\<close>).\<close>

record device_rule =
  rule_allow :: bool
  rule_device :: "(nat \<times> nat) option"
  rule_access :: string

datatype linux_namespace = PidNs | IpcNs | UtsNs | MountNs | NetworkNs | UserNs | CgroupNs

record id_mapping =
  container_id :: nat
  host_id :: nat
  mapping_size :: nat

record agent_spec =
  spec_root :: string
  spec_args :: "string list"
  spec_cwd :: string
  spec_mounts :: "oci_mount list"
  spec_uid_mappings :: "id_mapping list"
  spec_gid_mappings :: "id_mapping list"
  spec_namespaces :: "linux_namespace list"
  spec_devices :: "linux_device list"
  spec_device_rules :: "device_rule list"

definition char_device :: "string \<Rightarrow> nat \<Rightarrow> nat \<Rightarrow> linux_device" where
  "char_device p major minor =
     \<lparr>device_path = p, device_major = major, device_minor = minor, device_mode = 6 * 64 + 6 * 8 + 6\<rparr>"

definition allow_char :: "nat \<Rightarrow> nat \<Rightarrow> device_rule" where
  "allow_char major minor = \<lparr>rule_allow = True, rule_device = Some (major, minor), rule_access = ''rwm''\<rparr>"

definition tmpfs_mount :: "string \<Rightarrow> string list \<Rightarrow> oci_mount" where
  "tmpfs_mount dest opts =
     \<lparr>mount_destination = dest, mount_source = ''tmpfs'', mount_typ = ''tmpfs'', mount_options = opts\<rparr>"

definition root_mapping :: id_mapping where
  "root_mapping = \<lparr>container_id = 0, host_id = 0, mapping_size = 65536\<rparr>"

definition agent_spec_for :: "string \<Rightarrow> agent_spec" where
  "agent_spec_for socket_dir =
     \<lparr>spec_root = ''rootfs'',
      spec_args = [''/usr/local/bin/agent''],
      spec_cwd = ''/'',
      spec_mounts =
        [\<lparr>mount_destination = ''/proc'', mount_source = ''proc'', mount_typ = ''proc'', mount_options = []\<rparr>,
         tmpfs_mount ''/dev'' [''nosuid'', ''strictatime'', ''mode=755'', ''size=65536k''],
         \<lparr>mount_destination = ''/dev/pts'', mount_source = ''devpts'', mount_typ = ''devpts'',
          mount_options = [''nosuid'', ''noexec'', ''newinstance'', ''ptmxmode=0666'', ''mode=0620'']\<rparr>,
         \<lparr>mount_destination = ''/run/judge-core'', mount_source = socket_dir, mount_typ = ''bind'',
          mount_options = [''rbind'', ''rw'']\<rparr>,
         tmpfs_mount ''/work'' [''nosuid'', ''nodev'', ''mode=755'', ''size=256m''],
         tmpfs_mount ''/tmp'' [''nosuid'', ''nodev'', ''mode=1777'', ''size=64m''],
         \<lparr>mount_destination = ''/sys/fs/cgroup'', mount_source = ''cgroup2'', mount_typ = ''cgroup2'',
          mount_options = [''nosuid'', ''noexec'', ''nodev'', ''rw'']\<rparr>],
      spec_uid_mappings = [root_mapping],
      spec_gid_mappings = [root_mapping],
      spec_namespaces = [PidNs, IpcNs, UtsNs, MountNs, NetworkNs, UserNs, CgroupNs],
      spec_devices =
        [char_device ''/dev/null'' 1 3, char_device ''/dev/zero'' 1 5, char_device ''/dev/random'' 1 8,
         char_device ''/dev/urandom'' 1 9, char_device ''/dev/tty'' 5 0],
      spec_device_rules =
        [\<lparr>rule_allow = False, rule_device = None, rule_access = ''rwm''\<rparr>,
         allow_char 1 3, allow_char 1 5, allow_char 1 8, allow_char 1 9, allow_char 5 0]\<rparr>"

text \<open>The runtime applies the rules in order; the last one that matches a device decides.\<close>

fun device_verdict :: "device_rule list \<Rightarrow> nat \<times> nat \<Rightarrow> bool \<Rightarrow> bool" where
  "device_verdict [] d allowed = allowed"
| "device_verdict (r # rs) d allowed =
     device_verdict rs d (case rule_device r of
                            None \<Rightarrow> rule_allow r
                          | Some d' \<Rightarrow> if d' = d then rule_allow r else allowed)"

subsection \<open>What containerd answers\<close>

record agent_container =
  container_name :: string
  container_image :: string
  container_runtime :: string
  container_spec :: string
  container_snapshotter :: string
  container_snapshot_key :: string
  container_labels :: "(string \<times> string) list"

datatype cri_call =
    CreateDir string
  | PrepareSnapshot string string string
  | SnapshotMounts string string
  | CreateContainer agent_container
  | CreateTask string "string list"
  | StartTask string
  | KillTask string nat
  | WaitTask string
  | DeleteTask string
  | DeleteContainer string
  | RemoveSnapshot string string
  | RemoveDir string

record image_target =
  media_type :: string
  target_digest :: string
  target_size :: int

record manifest_desc =
  manifest_digest :: string
  manifest_size :: u64
  manifest_platform :: "(string \<times> string) option"

record containerd =
  performs :: "cri_call \<Rightarrow> provision_error + unit"
  mounts_of :: "string \<Rightarrow> string list"
  containers_with :: "string \<Rightarrow> provision_error + string list"
  image_named :: "string \<Rightarrow> provision_error + image_target option option"
  content_stream :: "string \<Rightarrow> int \<Rightarrow> provision_error + (provision_error + string) list"
  parse_index :: "string \<Rightarrow> provision_error + manifest_desc list"
  parse_manifest :: "string \<Rightarrow> provision_error + (string \<times> u64)"
  parse_config :: "string \<Rightarrow> provision_error + string list"
  spec_to_json :: "agent_spec \<Rightarrow> provision_error + string"
  sha256 :: "string \<Rightarrow> u8 list"
  socket_exists :: "nat \<Rightarrow> provision_error + bool"
  elapsed_ms :: "nat \<Rightarrow> nat"

record provisioner =
  agent_image :: string
  agent_namespace :: string
  agent_runtime :: string
  socket_base :: string
  chain_id_cache :: "string option"
  cri_log :: "cri_call list"

definition provisioner_new :: "string \<Rightarrow> string \<Rightarrow> string \<Rightarrow> provisioner" where
  "provisioner_new img namespace runtime =
     \<lparr>agent_image = img, agent_namespace = namespace, agent_runtime = runtime,
      socket_base = ''/run/judge-core/agents'', chain_id_cache = None, cri_log = []\<rparr>"

type_synonym 'a prov = "provisioner \<Rightarrow> (provision_error + 'a) \<times> provisioner"

definition prov_bind :: "'a prov \<Rightarrow> ('a \<Rightarrow> 'b prov) \<Rightarrow> 'b prov" where
  "prov_bind m f p = (case m p of (Inl e, p') \<Rightarrow> (Inl e, p') | (Inr x, p') \<Rightarrow> f x p')"

definition prov_lift :: "provision_error + 'a \<Rightarrow> 'a prov" where
  "prov_lift r p = (r, p)"

definition perform :: "containerd \<Rightarrow> cri_call \<Rightarrow> unit prov" where
  "perform c call p = (performs c call, p\<lparr>cri_log := cri_log p @ [call]\<rparr>)"

text \<open>A call whose failure is only logged.\<close>

definition attempt :: "containerd \<Rightarrow> cri_call \<Rightarrow> unit prov" where
  "attempt c call p = (Inr (), p\<lparr>cri_log := cri_log p @ [call]\<rparr>)"

subsection \<open>The image's chain id\<close>

definition hex_digit :: "nat \<Rightarrow> char" where
  "hex_digit n = (if n < 10 then char_of (48 + n) else char_of (87 + n))"

definition hex_byte :: "u8 \<Rightarrow> string" where
  "hex_byte b = [hex_digit (unat b div 16), hex_digit (unat b mod 16)]"

definition chain_link :: "(string \<Rightarrow> u8 list) \<Rightarrow> string \<Rightarrow> string \<Rightarrow> string" where
  "chain_link sha chain diff_id = ''sha256:'' @ concat (map hex_byte (sha (chain @ '' '' @ diff_id)))"

fun compute_chain_id :: "(string \<Rightarrow> u8 list) \<Rightarrow> string list \<Rightarrow> string" where
  "compute_chain_id sha [] = []"
| "compute_chain_id sha (d # ds) = fold (\<lambda>diff_id chain. chain_link sha chain diff_id) ds d"

fun collect_chunks :: "(provision_error + string) list \<Rightarrow> provision_error + string" where
  "collect_chunks [] = Inr []"
| "collect_chunks (Inl e # _) = Inl e"
| "collect_chunks (Inr chunk # rest) =
     (case collect_chunks rest of Inl e \<Rightarrow> Inl e | Inr data \<Rightarrow> Inr (chunk @ data))"

definition read_content_blob :: "containerd \<Rightarrow> string \<Rightarrow> int \<Rightarrow> provision_error + string" where
  "read_content_blob c digest sz =
     (case content_stream c digest sz of Inl e \<Rightarrow> Inl e | Inr chunks \<Rightarrow> collect_chunks chunks)"

definition is_index_type :: "string \<Rightarrow> bool" where
  "is_index_type t \<longleftrightarrow> t = ''application/vnd.oci.image.index.v1+json'' \<or>
     t = ''application/vnd.docker.distribution.manifest.list.v2+json''"

definition is_manifest_type :: "string \<Rightarrow> bool" where
  "is_manifest_type t \<longleftrightarrow> t = ''application/vnd.oci.image.manifest.v1+json'' \<or>
     t = ''application/vnd.docker.distribution.manifest.v2+json''"

text \<open>\<open>size as i64\<close> reads the \<open>u64\<close> as a signed word.\<close>

definition chain_id_of_manifest :: "containerd \<Rightarrow> string \<Rightarrow> provision_error + string" where
  "chain_id_of_manifest c blob =
     (case parse_manifest c blob of
        Inl e \<Rightarrow> Inl e
      | Inr (digest, sz) \<Rightarrow>
          (case read_content_blob c digest (sint sz) of
             Inl e \<Rightarrow> Inl e
           | Inr config_blob \<Rightarrow>
               (case parse_config c config_blob of
                  Inl e \<Rightarrow> Inl e
                | Inr diff_ids \<Rightarrow> Inr (compute_chain_id (sha256 c) diff_ids))))"

definition compute_chain_id_from_image :: "containerd \<Rightarrow> string \<Rightarrow> provision_error + string" where
  "compute_chain_id_from_image c img =
     (case image_named c img of
        Inl e \<Rightarrow> Inl e
      | Inr None \<Rightarrow> Inl ProvisionIo
      | Inr (Some None) \<Rightarrow> Inl ProvisionIo
      | Inr (Some (Some target)) \<Rightarrow>
          (case read_content_blob c (target_digest target) (target_size target) of
             Inl e \<Rightarrow> Inl e
           | Inr blob \<Rightarrow>
               if is_index_type (media_type target) then
                 (case parse_index c blob of
                    Inl e \<Rightarrow> Inl e
                  | Inr manifests \<Rightarrow>
                      (case List.find (\<lambda>m. manifest_platform m = Some (''linux'', ''amd64'')) manifests of
                         None \<Rightarrow> Inl ProvisionIo
                       | Some m \<Rightarrow>
                           (case read_content_blob c (manifest_digest m) (sint (manifest_size m)) of
                              Inl e \<Rightarrow> Inl e
                            | Inr manifest_blob \<Rightarrow> chain_id_of_manifest c manifest_blob)))
               else if is_manifest_type (media_type target) then chain_id_of_manifest c blob
               else Inl ProvisionIo))"

text \<open>\<open>OnceCell::get_or_try_init\<close>: an error is not cached.\<close>

definition resolve_chain_id :: "containerd \<Rightarrow> string prov" where
  "resolve_chain_id c p =
     (case chain_id_cache p of
        Some chain \<Rightarrow> (Inr chain, p)
      | None \<Rightarrow>
          (case compute_chain_id_from_image c (agent_image p) of
             Inl e \<Rightarrow> (Inl e, p)
           | Inr chain \<Rightarrow> (Inr chain, p\<lparr>chain_id_cache := Some chain\<rparr>)))"

subsection \<open>Creating, destroying, listing\<close>

text \<open>
  \<open>wait_for_socket\<close>: the \<open>k\<close>-th round sees \<open>elapsed_ms c k\<close> milliseconds gone.  \<open>None\<close> is a loop
  that \<open>fuel\<close> rounds do not finish.
\<close>

fun wait_rounds :: "containerd \<Rightarrow> nat \<Rightarrow> nat \<Rightarrow> (provision_error + unit) option" where
  "wait_rounds c 0 k = None"
| "wait_rounds c (Suc fuel) k =
     (if elapsed_ms c k < unat SOCKET_WAIT_TIMEOUT_SECS * 1000 then
        (case socket_exists c k of
           Inl e \<Rightarrow> Some (Inl e)
         | Inr True \<Rightarrow> Some (Inr ())
         | Inr False \<Rightarrow> wait_rounds c fuel (Suc k))
      else Some (Inl (SocketTimeout SOCKET_WAIT_TIMEOUT_SECS)))"

definition wait_fuel :: nat where "wait_fuel = 301"

definition wait_for_socket :: "containerd \<Rightarrow> unit prov" where
  "wait_for_socket c =
     prov_lift (case wait_rounds c wait_fuel 0 of Some r \<Rightarrow> r | None \<Rightarrow> Inl (SocketTimeout SOCKET_WAIT_TIMEOUT_SECS))"

definition parent_dir :: "string \<Rightarrow> string" where
  "parent_dir path = rev (drop 1 (dropWhile (\<lambda>ch. ch \<noteq> CHR ''/'') (rev path)))"

definition build_agent_spec :: "containerd \<Rightarrow> string \<Rightarrow> provision_error + string" where
  "build_agent_spec c path = spec_to_json c (agent_spec_for (parent_dir path))"

definition new_container :: "provisioner \<Rightarrow> string \<Rightarrow> string \<Rightarrow> agent_container" where
  "new_container p i spec =
     \<lparr>container_name = i, container_image = agent_image p, container_runtime = agent_runtime p,
      container_spec = spec, container_snapshotter = ''overlayfs'', container_snapshot_key = i,
      container_labels = [(AGENT_LABEL_KEY, AGENT_LABEL_VALUE)]\<rparr>"

definition socket_dir_of :: "provisioner \<Rightarrow> string \<Rightarrow> string" where
  "socket_dir_of p i = socket_base p @ ''/'' @ i"

definition create :: "containerd \<Rightarrow> string \<Rightarrow> (string \<times> string) prov" where
  "create c i p =
     (let socket_dir = socket_dir_of p i; path = socket_dir @ ''/agent.sock'' in
      prov_bind (perform c (CreateDir socket_dir)) (\<lambda>_.
      prov_bind (resolve_chain_id c) (\<lambda>parent.
      prov_bind (perform c (PrepareSnapshot ''overlayfs'' i parent)) (\<lambda>_.
      prov_bind (perform c (SnapshotMounts ''overlayfs'' i)) (\<lambda>_.
      prov_bind (prov_lift (build_agent_spec c path)) (\<lambda>spec.
      prov_bind (perform c (CreateContainer (new_container p i spec))) (\<lambda>_.
      prov_bind (perform c (CreateTask i (mounts_of c i))) (\<lambda>_.
      prov_bind (perform c (StartTask i)) (\<lambda>_.
      prov_bind (wait_for_socket c) (\<lambda>_.
      prov_lift (Inr (i, path))))))))))) p)"

definition SIGINT :: nat where "SIGINT = 2"

definition destroy :: "containerd \<Rightarrow> string \<Rightarrow> unit prov" where
  "destroy c i p =
     prov_bind (attempt c (KillTask i SIGINT)) (\<lambda>_.
     prov_bind (attempt c (WaitTask i)) (\<lambda>_.
     prov_bind (perform c (DeleteTask i)) (\<lambda>_.
     prov_bind (perform c (DeleteContainer i)) (\<lambda>_.
     prov_bind (attempt c (RemoveSnapshot ''overlayfs'' i)) (\<lambda>_.
     attempt c (RemoveDir (socket_dir_of p i))))))) p"

definition list_agents :: "containerd \<Rightarrow> (provision_error + string list)" where
  "list_agents c = containers_with c (''labels.\"'' @ AGENT_LABEL_KEY @ ''\"=='' @ AGENT_LABEL_VALUE)"


subsection \<open>Properties\<close>

text \<open>The calls of \<open>create\<close> in order.\<close>

definition create_calls :: "containerd \<Rightarrow> string \<Rightarrow> provisioner \<Rightarrow> cri_call list" where
  "create_calls c i p =
     (let dir = socket_dir_of p i;
          parent = (case fst (resolve_chain_id c p) of Inr chain \<Rightarrow> chain | Inl _ \<Rightarrow> []);
          spec = (case build_agent_spec c (dir @ ''/agent.sock'') of Inr json \<Rightarrow> json | Inl _ \<Rightarrow> [])
      in [CreateDir dir, PrepareSnapshot ''overlayfs'' i parent, SnapshotMounts ''overlayfs'' i,
          CreateContainer (new_container p i spec), CreateTask i (mounts_of c i), StartTask i])"

text \<open>Rules for the log of a sequence of calls: \<open>calls_rel\<close> says what was called and that all but
  the last call were answered.\<close>

definition prov_calls :: "containerd \<Rightarrow> provisioner \<Rightarrow> (provision_error + 'a) \<times> provisioner \<Rightarrow> cri_call list \<Rightarrow> bool" where
  "prov_calls c p out all \<longleftrightarrow>
     (\<exists>made. cri_log (snd out) = cri_log p @ made \<and> prefix made all \<and>
        (\<forall>call \<in> set (butlast made). performs c call = Inr ()) \<and>
        (result_ok (fst out) \<longrightarrow> made = all \<and> (\<forall>call \<in> set all. performs c call = Inr ())))"

lemma prov_calls_perform:
  assumes "performs c call = Inr () \<Longrightarrow> prov_calls c (p\<lparr>cri_log := cri_log p @ [call]\<rparr>) (f () (p\<lparr>cri_log := cri_log p @ [call]\<rparr>)) all"
  shows "prov_calls c p (prov_bind (perform c call) f p) (call # all)"
proof (cases "performs c call")
  case (Inl e)
  then show ?thesis by (auto simp: prov_bind_def perform_def prov_calls_def intro!: exI [of _ "[call]"])
next
  case (Inr u)
  with assms obtain made where "cri_log (snd (f () (p\<lparr>cri_log := cri_log p @ [call]\<rparr>))) = (cri_log p @ [call]) @ made"
    and "prefix made all" and "\<forall>x \<in> set (butlast made). performs c x = Inr ()"
    and "result_ok (fst (f () (p\<lparr>cri_log := cri_log p @ [call]\<rparr>))) \<longrightarrow> made = all \<and> (\<forall>x \<in> set all. performs c x = Inr ())"
    by (auto simp: prov_calls_def)
  with Inr show ?thesis
    by (auto simp: prov_bind_def perform_def prov_calls_def intro!: exI [of _ "call # made"])
qed

lemma prov_calls_lift:
  assumes "\<And>x. r = Inr x \<Longrightarrow> prov_calls c p (f x p) all"
  shows "prov_calls c p (prov_bind (prov_lift r) f p) all"
  using assms by (cases r) (auto simp: prov_bind_def prov_lift_def prov_calls_def)

lemma prov_calls_resolve:
  assumes "\<And>chain q. resolve_chain_id c p = (Inr chain, q) \<Longrightarrow> cri_log q = cri_log p \<Longrightarrow> prov_calls c q (f chain q) all"
  shows "prov_calls c p (prov_bind (resolve_chain_id c) f p) all"
proof (cases "resolve_chain_id c p")
  case (Pair r q)
  then have "cri_log q = cri_log p" by (auto simp: resolve_chain_id_def split: option.splits sum.splits)
  with Pair assms show ?thesis by (cases r) (auto simp: prov_bind_def prov_calls_def)
qed

lemma prov_calls_done: "prov_calls c p (prov_lift r p) []"
  by (auto simp: prov_calls_def prov_lift_def)

lemma resolve_chain_id_log: "socket_base (p\<lparr>cri_log := l\<rparr>) = socket_base p"
  by simp

lemma wait_rounds_enough:
  assumes "\<And>k. 100 * k \<le> elapsed_ms c k" and "300 < k + fuel" and "k \<le> 300"
  shows "\<exists>r. wait_rounds c fuel k = Some r"
  using assms(2,3)
proof (induction fuel arbitrary: k)
  case 0
  then show ?case by simp
next
  case (Suc fuel)
  show ?case
  proof (cases "elapsed_ms c k < unat SOCKET_WAIT_TIMEOUT_SECS * 1000")
    case True
    then have "k < 300" using assms(1) [of k] by (simp add: SOCKET_WAIT_TIMEOUT_SECS_def)
    then show ?thesis using True Suc by (auto split: sum.splits bool.splits)
  qed simp
qed


lemma create_prov_calls: "prov_calls c p (create c i p) (create_calls c i p)"
proof (cases "resolve_chain_id c (p\<lparr>cri_log := cri_log p @ [CreateDir (socket_dir_of p i)]\<rparr>)")
  case (Pair r q)
  then have r: "fst (resolve_chain_id c p) = r"
    by (auto simp: resolve_chain_id_def split: option.splits sum.splits)
  show ?thesis
    unfolding create_def create_calls_def Let_def
    by (intro prov_calls_perform prov_calls_resolve)
       (auto simp: r Pair wait_for_socket_def intro!: prov_calls_perform prov_calls_lift prov_calls_done)
qed

text \<open>A containerd that performs every call, and whose socket is there in the second round.\<close>

definition demo_containerd :: containerd where
  "demo_containerd =
     \<lparr>performs = \<lambda>_. Inr (), mounts_of = \<lambda>_. [''m''], containers_with = \<lambda>_. Inr [],
      image_named = \<lambda>_. Inr (Some (Some
        \<lparr>media_type = ''application/vnd.oci.image.manifest.v1+json'', target_digest = ''d'', target_size = 1\<rparr>)),
      content_stream = \<lambda>_ _. Inr [Inr ''blob''], parse_index = \<lambda>_. Inl OciSpec,
      parse_manifest = \<lambda>_. Inr (''c'', 1), parse_config = \<lambda>_. Inr [''sha256:0''],
      spec_to_json = \<lambda>_. Inr ''{}'', sha256 = \<lambda>_. [], socket_exists = \<lambda>k. Inr (k = 1),
      elapsed_ms = \<lambda>k. 100 * k\<rparr>"

definition demo_provisioner :: provisioner where
  "demo_provisioner = provisioner_new ''img'' ''ns'' ''runc''"

lemma demo_wait: "wait_rounds demo_containerd wait_fuel 0 = Some (Inr ())"
proof -
  have "wait_fuel = Suc (Suc 299)" by (simp add: wait_fuel_def)
  show ?thesis unfolding \<open>wait_fuel = Suc (Suc 299)\<close> wait_rounds.simps
    by (simp add: demo_containerd_def SOCKET_WAIT_TIMEOUT_SECS_def)
qed

lemma demo_fields:
  "performs demo_containerd = (\<lambda>_. Inr ())" "mounts_of demo_containerd = (\<lambda>_. [''m''])"
  "image_named demo_containerd = (\<lambda>_. Inr (Some (Some
     \<lparr>media_type = ''application/vnd.oci.image.manifest.v1+json'', target_digest = ''d'', target_size = 1\<rparr>)))"
  "content_stream demo_containerd = (\<lambda>_ _. Inr [Inr ''blob''])" "parse_manifest demo_containerd = (\<lambda>_. Inr (''c'', 1))"
  "parse_config demo_containerd = (\<lambda>_. Inr [''sha256:0''])" "spec_to_json demo_containerd = (\<lambda>_. Inr ''{}'')"
  by (simp_all add: demo_containerd_def)

text \<open>C37. \<open>create\<close> makes its calls in the fixed order directory, snapshot, mounts, container, task, start,
  each only after the previous one succeeded; it reports an agent only if every one succeeded, and
  then the agent's id and socket are the ones the container was created with.  A failing \<open>create\<close>
  stops there and undoes nothing.\<close>
theorem create_in_order:
  "\<exists>made. cri_log (snd (create c i p)) = cri_log p @ made \<and> prefix made (create_calls c i p) \<and>
     (\<forall>n. Suc n < length made \<longrightarrow> performs c (made ! n) = Inr ()) \<and>
     (\<forall>x. fst (create c i p) = Inr x \<longrightarrow>
        made = create_calls c i p \<and> (\<forall>call \<in> set made. performs c call = Inr ()) \<and>
        x = (i, socket_dir_of p i @ ''/agent.sock''))"
proof -
  have x: "x = (i, socket_dir_of p i @ ''/agent.sock'')" if "fst (create c i p) = Inr x" for x
    using that by (auto simp: create_def prov_bind_def prov_lift_def Let_def split: prod.splits sum.splits)
  from create_prov_calls [of c p i] obtain made where made: "cri_log (snd (create c i p)) = cri_log p @ made"
    "prefix made (create_calls c i p)" "\<forall>call \<in> set (butlast made). performs c call = Inr ()"
    "result_ok (fst (create c i p)) \<longrightarrow> made = create_calls c i p \<and> (\<forall>call \<in> set (create_calls c i p). performs c call = Inr ())"
    unfolding prov_calls_def by blast
  have "performs c (made ! n) = Inr ()" if "Suc n < length made" for n
    using made(3) that by (metis Suc_lessE diff_Suc_1 length_butlast nth_butlast nth_mem)
  with made x show ?thesis by (intro exI [of _ made]) auto
qed

theorem create_in_order_witness:
  "fst (create demo_containerd ''i'' demo_provisioner) = Inr (''i'', ''/run/judge-core/agents/i/agent.sock'') \<and>
   cri_log (snd (create demo_containerd ''i'' demo_provisioner)) = create_calls demo_containerd ''i'' demo_provisioner"
proof -
  have ok: "fst (create demo_containerd ''i'' demo_provisioner) = Inr (''i'', ''/run/judge-core/agents/i/agent.sock'')"
    by (simp add: create_def prov_bind_def prov_lift_def perform_def resolve_chain_id_def wait_for_socket_def
          demo_wait build_agent_spec_def socket_dir_of_def
          compute_chain_id_from_image_def read_content_blob_def is_index_type_def is_manifest_type_def
          chain_id_of_manifest_def provisioner_new_def demo_provisioner_def demo_fields Let_def)
  from create_in_order [of demo_containerd "''i''" demo_provisioner]
  have "cri_log (snd (create demo_containerd ''i'' demo_provisioner)) = cri_log demo_provisioner @ create_calls demo_containerd ''i'' demo_provisioner"
    using ok by auto
  with ok show ?thesis by (simp add: demo_provisioner_def provisioner_new_def)
qed

text \<open>\<open>destroy\<close> deletes the container record only after its task was deleted, reports success exactly
  when both deletions succeeded, and removes the snapshot and the socket directory exactly then; a
  failing kill or wait stops nothing.\<close>
theorem destroy_outcome:
  "\<exists>made. cri_log (snd (destroy c i p)) = cri_log p @ made \<and>
     (result_ok (fst (destroy c i p)) \<longleftrightarrow> performs c (DeleteTask i) = Inr () \<and> performs c (DeleteContainer i) = Inr ()) \<and>
     (DeleteContainer i \<in> set made \<longleftrightarrow> performs c (DeleteTask i) = Inr ()) \<and>
     (RemoveSnapshot ''overlayfs'' i \<in> set made \<longleftrightarrow> result_ok (fst (destroy c i p))) \<and>
     (RemoveDir (socket_dir_of p i) \<in> set made \<longleftrightarrow> result_ok (fst (destroy c i p)))"
  by (cases "performs c (DeleteTask i)"; cases "performs c (DeleteContainer i)")
     (auto simp: destroy_def prov_bind_def attempt_def perform_def)

text \<open>The chain id of a list of layers is the OCI one: the first layer's diff id, and for every
  further layer the SHA-256 of the chain so far, a blank and the layer's diff id; it is computed at
  most once per provisioner, and a failure is not cached.\<close>
theorem chain_id_recursion:
  "compute_chain_id sha [d] = d \<and>
   compute_chain_id sha ((d # ds) @ [e]) =
     ''sha256:'' @ concat (map hex_byte (sha (compute_chain_id sha (d # ds) @ '' '' @ e))) \<and>
   (case resolve_chain_id c p of
      (Inr chain, q) \<Rightarrow> resolve_chain_id c' q = (Inr chain, q)
    | (Inl _, q) \<Rightarrow> q = p)"
  by (auto simp: chain_link_def resolve_chain_id_def split: option.splits sum.splits)

text \<open>The agent container can use exactly the device nodes its specification creates: the runtime's
  device rules, applied in order, deny every other device, whatever was allowed before.\<close>
theorem agent_devices:
  "device_verdict (spec_device_rules (agent_spec_for dir)) d allowed \<longleftrightarrow>
   d \<in> (\<lambda>v. (device_major v, device_minor v)) ` set (spec_devices (agent_spec_for dir))"
  by (cases d) (auto simp: agent_spec_for_def char_device_def allow_char_def)

text \<open>Waiting for the agent's socket ends: rounds are at least the 100 ms pause apart, so 301 rounds
  reach the 30 s limit, and success means the socket existed in some round before it.\<close>
theorem wait_for_socket_ends:
  assumes "\<And>k. 100 * k \<le> elapsed_ms c k"
  shows "\<exists>r. wait_rounds c wait_fuel 0 = Some r \<and> fst (wait_for_socket c p) = r \<and>
    (r = Inr () \<longrightarrow> (\<exists>k. elapsed_ms c k < 30000 \<and> socket_exists c k = Inr True))"
proof -
  obtain r where r: "wait_rounds c wait_fuel 0 = Some r"
    using wait_rounds_enough [of c 0 wait_fuel] assms by (auto simp: wait_fuel_def)
  have "\<exists>j. elapsed_ms c j < 30000 \<and> socket_exists c j = Inr True" if "wait_rounds c n k = Some (Inr ())" for n k
    using that
    by (induction n arbitrary: k) (auto simp: SOCKET_WAIT_TIMEOUT_SECS_def split: if_splits sum.splits bool.splits)
  with r show ?thesis by (auto simp: wait_for_socket_def prov_lift_def)
qed

end
