(* ===== verification/Judge_Models.thy ===== *)
theory Judge_Models
  imports OJ_Prelude
begin

text \<open>
  The data the judge services exchange (\<open>judge_core_shared/src/models\<close>): tasks, verdicts, their
  HTTP forms with the conversions in both directions, the pool metrics, and the error codes of the
  manager's HTTP interface.
\<close>

subsection \<open>Tasks and verdicts (\<open>models/mod.rs\<close>)\<close>

record resources_limit =
  limit_cpu_time_ms :: u64
  limit_wall_time_ms :: u64
  limit_memory_bytes :: u64
  limit_output_bytes :: u64

record resources_usage =
  used_cpu_time_ms :: u64
  used_wall_time_ms :: u64
  used_memory_bytes :: u64

record test_case =
  case_input :: string
  case_output :: string

datatype language = Cpp

record verdict_task =
  task_source :: string
  task_cases :: "test_case list"
  task_limits :: resources_limit
  task_language :: language
  stop_on_first_error :: bool

datatype killed_reason =
    MemoryLimitExceeded
  | WallTimeLimitExceeded
  | CpuTimeLimitExceeded
  | OutputLimitExceeded
  | Signaled i32

datatype case_verdict =
    Accepted resources_usage
  | WrongAnswer test_case string string
  | Killed killed_reason string string
  | RuntimeError string i32

datatype verdict_task_result =
    Stopped case_verdict
  | AllPassed resources_usage
  | Collected "case_verdict list"
  | Internal string
  | CompilationError string

text \<open>\<open>Language::from_str\<close>: the lower-cased name; no character outside ASCII lower-cases to a
  letter of \<open>cpp\<close>, so lower-casing the ASCII letters decides the match.\<close>

definition ascii_lower :: "char \<Rightarrow> char" where
  "ascii_lower c = (let n = of_char c :: nat in if 65 \<le> n \<and> n \<le> 90 then char_of (n + 32) else c)"

definition language_from_str :: "string \<Rightarrow> string + language" where
  "language_from_str s =
     (if map ascii_lower s = ''cpp'' then Inr Cpp else Inl (''unsupported language: '' @ s))"

subsection \<open>HTTP forms (\<open>models/http.rs\<close>)\<close>

datatype case_verdict_response =
    RAccepted resources_usage
  | RKilled killed_reason string string
  | RWrongAnswer test_case string string
  | RRuntimeError string i32

datatype verdict_response =
    RStopped case_verdict_response
  | RAllPassed resources_usage
  | RCollected "case_verdict_response list"
  | RInternal string
  | RCompilationError string

fun case_into_response :: "case_verdict \<Rightarrow> case_verdict_response" where
  "case_into_response (Accepted usage) = RAccepted usage"
| "case_into_response (WrongAnswer wrong_case received stderr) = RWrongAnswer wrong_case received stderr"
| "case_into_response (Killed reason stdout stderr) = RKilled reason stdout stderr"
| "case_into_response (RuntimeError stderr exit_code) = RRuntimeError stderr exit_code"

fun case_of_response :: "case_verdict_response \<Rightarrow> case_verdict" where
  "case_of_response (RAccepted usage) = Accepted usage"
| "case_of_response (RWrongAnswer wrong_case received stderr) = WrongAnswer wrong_case received stderr"
| "case_of_response (RKilled reason stdout stderr) = Killed reason stdout stderr"
| "case_of_response (RRuntimeError stderr exit_code) = RuntimeError stderr exit_code"

fun result_into_response :: "verdict_task_result \<Rightarrow> verdict_response" where
  "result_into_response (CompilationError message) = RCompilationError message"
| "result_into_response (Internal message) = RInternal message"
| "result_into_response (Stopped verdict) = RStopped (case_into_response verdict)"
| "result_into_response (AllPassed max_usage) = RAllPassed max_usage"
| "result_into_response (Collected cases) = RCollected (map case_into_response cases)"

fun result_of_response :: "verdict_response \<Rightarrow> verdict_task_result" where
  "result_of_response (RCompilationError message) = CompilationError message"
| "result_of_response (RInternal message) = Internal message"
| "result_of_response (RStopped verdict) = Stopped (case_of_response verdict)"
| "result_of_response (RAllPassed max_usage) = AllPassed max_usage"
| "result_of_response (RCollected cases) = Collected (map case_of_response cases)"

lemma case_of_response_inverse [simp]: "case_of_response (case_into_response v) = v"
  by (cases v) auto

lemma case_into_response_inverse [simp]: "case_into_response (case_of_response v) = v"
  by (cases v) auto

lemma result_of_response_inverse [simp]: "result_of_response (result_into_response v) = v"
  by (cases v) (auto simp: comp_def intro: map_idI)

lemma result_into_response_inverse [simp]: "result_into_response (result_of_response v) = v"
  by (cases v) (auto simp: comp_def intro: map_idI)

record pool_metrics =
  queue_size :: nat
  agent_count :: nat
  healthy_agent_count :: nat
  metrics_active_tasks :: u32
  draining_agent_count :: nat
  unhealthy_agent_count :: nat

record 'a success_response =
  response_data :: 'a
  response_message :: string

record error_response =
  error_code :: string
  error_message :: string

record acceptablez_response =
  acceptable :: bool
  acceptable_metrics :: pool_metrics

definition METRICS_URL :: string where "METRICS_URL = ''/metricsz''"
definition ACCEPTABLE_URL :: string where "ACCEPTABLE_URL = ''/acceptablez''"
definition TASK_URL :: string where "TASK_URL = ''/task''"

definition ERR_QUEUE_FULL :: string where "ERR_QUEUE_FULL = ''QUEUE_FULL''"
definition ERR_MAX_RETRIES_EXCEEDED :: string where "ERR_MAX_RETRIES_EXCEEDED = ''MAX_RETRIES_EXCEEDED''"
definition ERR_AGENT_UNAVAILABLE :: string where "ERR_AGENT_UNAVAILABLE = ''AGENT_UNAVAILABLE''"
definition ERR_SHUTTING_DOWN :: string where "ERR_SHUTTING_DOWN = ''SHUTTING_DOWN''"
definition ERR_TASK_TIMEOUT :: string where "ERR_TASK_TIMEOUT = ''TASK_TIMEOUT''"
definition ERR_CONNECTION_FAILED :: string where "ERR_CONNECTION_FAILED = ''CONNECTION_FAILED''"
definition ERR_PROTOCOL_ERROR :: string where "ERR_PROTOCOL_ERROR = ''PROTOCOL_ERROR''"
definition ERR_PROVISION_ERROR :: string where "ERR_PROVISION_ERROR = ''PROVISION_ERROR''"
definition ERR_AGENT_BUSY :: string where "ERR_AGENT_BUSY = ''AGENT_BUSY''"

lemmas error_code_defs =
  ERR_QUEUE_FULL_def ERR_MAX_RETRIES_EXCEEDED_def ERR_AGENT_UNAVAILABLE_def ERR_SHUTTING_DOWN_def
  ERR_TASK_TIMEOUT_def ERR_CONNECTION_FAILED_def ERR_PROTOCOL_ERROR_def ERR_PROVISION_ERROR_def
  ERR_AGENT_BUSY_def

end
