(* ===== verification/Protocol.thy ===== *)
theory Protocol
  imports Judge_Models
begin

text \<open>
  The framing between the manager and an agent (\<open>judge_core_shared/src/protocol.rs\<close>): a big-endian
  \<open>u32\<close> length, then that many bytes; length 0 is a heartbeat.  A stream is the bytes it will
  still deliver, the bytes written to it so far and whether writing works.  \<open>postcard\<close>, which
  serialises a frame, is the parameter pair \<open>ser\<close> and \<open>de\<close>.
\<close>

record stream =
  incoming :: "u8 list"
  outgoing :: "u8 list"
  writable :: bool

datatype protocol_error = Serialization | ProtocolIo | InvalidHeartbeatResponse | UnexpectedHeartbeat

type_synonym frame_id = u64
type_synonym 'a frame = "frame_id \<times> 'a"

definition HEARTBEAT_MAGIC :: u32 where "HEARTBEAT_MAGIC = 0"

subsection \<open>Big-endian \<open>u32\<close>\<close>

definition be_bytes :: "u32 \<Rightarrow> u8 list" where
  "be_bytes w = [of_nat (unat w div 2 ^ 24), of_nat (unat w div 2 ^ 16), of_nat (unat w div 2 ^ 8), of_nat (unat w)]"

definition be_word :: "u8 \<Rightarrow> u8 \<Rightarrow> u8 \<Rightarrow> u8 \<Rightarrow> u32" where
  "be_word a b c d = of_nat (unat a * 2 ^ 24 + unat b * 2 ^ 16 + unat c * 2 ^ 8 + unat d)"

lemma length_be_bytes [simp]: "length (be_bytes w) = 4"
  by (simp add: be_bytes_def)

lemma be_digits:
  fixes n :: nat
  assumes "n < 2 ^ 32"
  shows "(n div 2 ^ 24 mod 256) * 2 ^ 24 + (n div 2 ^ 16 mod 256) * 2 ^ 16 + (n div 2 ^ 8 mod 256) * 2 ^ 8 + n mod 256 = n"
proof -
  have split: "m div 256 * 256 + m mod 256 = m" for m :: nat by simp
  define a where "a = n div 16777216"
  define b where "b = n div 65536"
  define c where "c = n div 256"
  have "a * 256 + b mod 256 = b" and "b * 256 + c mod 256 = c" and "c * 256 + n mod 256 = n"
    using split [of b] split [of c] split [of n]
    by (simp_all add: a_def b_def c_def div_mult2_eq [symmetric])
  moreover have small: "a mod 256 = a" using assms by (simp add: a_def)
  ultimately have "a * 16777216 + (b mod 256) * 65536 + (c mod 256) * 256 + n mod 256 = n"
    by linarith
  then show ?thesis using small by (simp add: a_def b_def c_def)
qed

lemma unat_u8_of_nat: "unat (of_nat n :: u8) = n mod 256"
  by (simp add: unat_of_nat)

lemma be_word_be_bytes:
  "be_bytes w = [a, b, c, d] \<Longrightarrow> be_word a b c d = w"
proof -
  assume bs: "be_bytes w = [a, b, c, d]"
  have "unat w < 2 ^ 32" using unsigned_less [of w] by simp
  from be_digits [OF this] have "of_nat (unat a * 2 ^ 24 + unat b * 2 ^ 16 + unat c * 2 ^ 8 + unat d) = (of_nat (unat w) :: u32)"
    using bs by (simp only: be_bytes_def list.inject) (metis unat_u8_of_nat)
  then show ?thesis by (simp add: be_word_def)
qed

subsection \<open>Reading and writing a stream\<close>

definition write_bytes :: "stream \<Rightarrow> u8 list \<Rightarrow> protocol_error + stream" where
  "write_bytes s bs = (if writable s then Inr (s\<lparr>outgoing := outgoing s @ bs\<rparr>) else Inl ProtocolIo)"

definition read_exact :: "stream \<Rightarrow> nat \<Rightarrow> protocol_error + (u8 list \<times> stream)" where
  "read_exact s n =
     (if n \<le> length (incoming s) then Inr (take n (incoming s), s\<lparr>incoming := drop n (incoming s)\<rparr>)
      else Inl ProtocolIo)"

definition read_u32 :: "stream \<Rightarrow> protocol_error + (u32 \<times> stream)" where
  "read_u32 s =
     (case read_exact s 4 of
        Inl e \<Rightarrow> Inl e
      | Inr (bs, s') \<Rightarrow> Inr (be_word (bs ! 0) (bs ! 1) (bs ! 2) (bs ! 3), s'))"

lemma read_u32_be_bytes [simp]:
  "incoming s = be_bytes w @ rest \<Longrightarrow> read_u32 s = Inr (w, s\<lparr>incoming := rest\<rparr>)"
  using be_word_be_bytes [of w] by (simp add: read_u32_def read_exact_def be_bytes_def)

subsection \<open>Frames\<close>

text \<open>\<open>receive\<close>: a heartbeat is answered at once and gives \<open>None\<close>.\<close>

definition receive :: "(u8 list \<Rightarrow> 'a frame option) \<Rightarrow> stream \<Rightarrow> protocol_error + ('a frame option \<times> stream)" where
  "receive de s =
     (case read_u32 s of
        Inl e \<Rightarrow> Inl e
      | Inr (len, s1) \<Rightarrow>
          if len = HEARTBEAT_MAGIC then
            (case write_bytes s1 (be_bytes HEARTBEAT_MAGIC) of
               Inl e \<Rightarrow> Inl e
             | Inr s2 \<Rightarrow> Inr (None, s2))
          else
            (case read_exact s1 (unat len) of
               Inl e \<Rightarrow> Inl e
             | Inr (buf, s2) \<Rightarrow>
                 (case de buf of
                    None \<Rightarrow> Inl Serialization
                  | Some frame \<Rightarrow> Inr (Some frame, s2))))"

text \<open>\<open>send_heartbeat\<close> is split at the point where it waits for the peer.\<close>

definition heartbeat_request :: "stream \<Rightarrow> protocol_error + stream" where
  "heartbeat_request s = write_bytes s (be_bytes HEARTBEAT_MAGIC)"

definition heartbeat_response :: "stream \<Rightarrow> protocol_error + stream" where
  "heartbeat_response s =
     (case read_u32 s of
        Inl e \<Rightarrow> Inl e
      | Inr (resp, s') \<Rightarrow> if resp \<noteq> HEARTBEAT_MAGIC then Inl InvalidHeartbeatResponse else Inr s')"

text \<open>\<open>send\<close>: \<open>None\<close> is the panic of \<open>expect\<close> when the length does not fit a \<open>u32\<close>.\<close>

definition send :: "('a frame \<Rightarrow> u8 list option) \<Rightarrow> stream \<Rightarrow> frame_id \<Rightarrow> 'a \<Rightarrow> (protocol_error + stream) option" where
  "send ser s i inner =
     (case ser (i, inner) of
        None \<Rightarrow> Some (Inl Serialization)
      | Some bytes \<Rightarrow>
          if length bytes < 2 ^ 32 then
            (case write_bytes s (be_bytes (of_nat (length bytes))) of
               Inl e \<Rightarrow> Some (Inl e)
             | Inr s' \<Rightarrow> Some (write_bytes s' bytes))
          else None)"

text \<open>
  What the code relies on of \<open>postcard\<close> at one frame: it serialises, decodes to itself, and the
  bytes are not empty (a frame starts with the variable-length \<open>id\<close>, at least one byte) and
  fit a \<open>u32\<close> length.
\<close>

definition codec_ok :: "('a frame \<Rightarrow> u8 list option) \<Rightarrow> (u8 list \<Rightarrow> 'a frame option) \<Rightarrow> 'a frame \<Rightarrow> bool" where
  "codec_ok ser de f \<longleftrightarrow>
     (case ser f of None \<Rightarrow> False | Some bs \<Rightarrow> de bs = Some f \<and> bs \<noteq> [] \<and> length bs < 2 ^ 32)"

definition frame_bytes :: "u8 list \<Rightarrow> u8 list" where
  "frame_bytes bs = be_bytes (of_nat (length bs)) @ bs"

lemma send_codec_ok:
  assumes "codec_ok ser de (i, x)" and "writable s"
  shows "\<exists>bs. ser (i, x) = Some bs \<and> send ser s i x = Some (Inr (s\<lparr>outgoing := outgoing s @ frame_bytes bs\<rparr>))"
  using assms by (auto simp: codec_ok_def send_def write_bytes_def frame_bytes_def split: option.splits)

lemma receive_frame:
  assumes "de bs = Some f" and "bs \<noteq> []" and "length bs < 2 ^ 32"
    and "incoming s = frame_bytes bs @ rest"
  shows "receive de s = Inr (Some f, s\<lparr>incoming := rest\<rparr>)"
proof -
  let ?len = "of_nat (length bs) :: u32"
  have len: "unat ?len = length bs" using assms(3) by (simp add: unat_of_nat)
  then have "?len \<noteq> HEARTBEAT_MAGIC" using assms(2) by (auto simp: HEARTBEAT_MAGIC_def)
  then show ?thesis
    using assms(1,4) len read_u32_be_bytes [of s ?len "bs @ rest"]
    by (simp add: receive_def frame_bytes_def read_exact_def)
qed

lemma receive_heartbeat:
  assumes "incoming s = be_bytes HEARTBEAT_MAGIC @ rest" and "writable s"
  shows "receive de s = Inr (None, s\<lparr>incoming := rest, outgoing := outgoing s @ be_bytes HEARTBEAT_MAGIC\<rparr>)"
  using assms by (simp add: receive_def write_bytes_def)

end
