(* ===== verification/Pool.thy ===== *)
theory Pool
  imports Protocol Provisioner
begin

text \<open>
  The manager's agent pool (\<open>judge_core_manager/src/pool.rs\<close>) as a transition system.

  The shared memory is one record.  An \<open>AgentHandle\<close> is a bundle of \<open>Arc\<close>s that the agent list,
  the dispatcher, running tasks, probes and the drain loop all hold clones of: \<open>cells\<close> is the store of
  the bundles and a handle is an index into it, so that a handle kept by a running task stays valid when
  the agent has left the list.  Each asynchronous function contributes its local state: the \<open>submit\<close>
  calls between the shutdown check and the queue lock (\<open>entering\<close>), the dispatcher's program point, the
  spawned executions, the health probes, the drain loop and the shutdown sequence.  A step is one
  lock-protected section or one access to shared memory; any order of steps is possible.
\<close>

record pool_config =
  max_queue_size :: nat
  max_retries :: u32
  task_timeout :: duration
  health_check_interval :: duration
  health_check_failure_threshold :: u32
  max_concurrent_per_agent :: u32
  drain_check_interval_secs :: u64

datatype pool_error =
    QueueFull
  | MaxRetriesExceeded u32
  | AgentUnavailable
  | ConnectionFailed
  | TaskTimeout u64
  | ProtocolFailed protocol_error
  | ProvisionFailed provision_error
  | AgentBusy string
  | ShuttingDown

type_synonym task_reply = "pool_error + verdict_task_result"

record agent_handle =
  agent_id :: string
  socket_path :: string
  active_tasks :: u32
  healthy :: bool
  consecutive_failures :: u32
  created_at :: nat
  shutting_down :: bool

text \<open>\<open>result_tx\<close> is the number of the caller's oneshot channel.\<close>

record queued_task =
  queued_frame_id :: frame_id
  queued_task :: verdict_task
  retries :: u32
  result_tx :: nat

text \<open>
  Program points.  The dispatcher: at the head of its loop, waiting for a task signal, waiting for an
  agent or a signal, or between choosing and starting a task.  An execution: running on an agent;
  back with a result, the agent's counter decremented, a notification still due or not; about to
  settle the result.
\<close>

datatype dispatcher_point = AtLoopHead | AwaitingSignal | AwaitingAgent | Chosen nat queued_task

datatype execution =
    Executing nat queued_task
  | Returned bool task_reply queued_task
  | Settling task_reply queued_task

datatype drain_point = DrainIdle | DrainSnapshot "nat list" | DrainCandidates "nat list"

datatype shutdown_point =
    NotShutDown | Flagged | QueueDrained | AgentsMarked "string list" | AgentsCleared "string list" | ShutdownComplete

record pool_state =
  cells :: "agent_handle list"
  agents :: "nat list"
  task_queue :: "queued_task list"
  next_frame_id :: u64
  task_signals :: nat
  agent_available :: bool
  pool_shutting_down :: bool
  next_channel :: nat
  replies :: "nat \<rightharpoonup> task_reply"
  entering :: "queued_task multiset"
  dispatcher :: dispatcher_point
  executions :: "execution multiset"
  probing :: "nat multiset"
  probed :: "(nat \<times> bool) multiset"
  drain :: drain_point
  shutdown_at :: shutdown_point
  destroyed :: "string list"

named_theorems pool_ops \<open>definitions of the pool's operations\<close>

definition pool_new :: pool_state where
  "pool_new =
     \<lparr>cells = [], agents = [], task_queue = [], next_frame_id = 1, task_signals = 0, agent_available = False,
      pool_shutting_down = False, next_channel = 0, replies = Map.empty, entering = {#},
      dispatcher = AtLoopHead, executions = {#}, probing = {#}, probed = {#}, drain = DrainIdle,
      shutdown_at = NotShutDown, destroyed = []\<rparr>"

definition update_cell :: "nat \<Rightarrow> (agent_handle \<Rightarrow> agent_handle) \<Rightarrow> pool_state \<Rightarrow> pool_state" where
  [pool_ops]: "update_cell r f s = s\<lparr>cells := (cells s)[r := f (cells s ! r)]\<rparr>"

abbreviation agent_ids :: "pool_state \<Rightarrow> string list" where
  "agent_ids s \<equiv> map (\<lambda>r. agent_id (cells s ! r)) (agents s)"

subsection \<open>Submitting\<close>

text \<open>\<open>submit\<close> up to the queue lock: \<open>Inl\<close> is its early return.\<close>

definition submit_enter :: "verdict_task \<Rightarrow> pool_state \<Rightarrow> pool_error + pool_state" where
  "submit_enter task s =
     (if pool_shutting_down s then Inl ShuttingDown
      else Inr (s\<lparr>next_frame_id := next_frame_id s + 1, next_channel := next_channel s + 1,
                 entering := add_mset \<lparr>queued_frame_id = next_frame_id s, queued_task = task, retries = 0,
                                       result_tx = next_channel s\<rparr> (entering s)\<rparr>))"

text \<open>The section under the queue lock; \<open>M\<close> are the other calls in flight.\<close>

definition submit_enqueue :: "pool_config \<Rightarrow> queued_task \<Rightarrow> queued_task multiset \<Rightarrow> pool_state \<Rightarrow> pool_state" where
  [pool_ops]: "submit_enqueue cfg t M s =
     (if max_queue_size cfg \<le> length (task_queue s)
      then s\<lparr>entering := M, replies := (replies s)(result_tx t \<mapsto> Inl QueueFull)\<rparr>
      else s\<lparr>entering := M, task_queue := task_queue s @ [t],
             task_signals := (if task_queue s = [] then task_signals s + 1 else task_signals s)\<rparr>)"

subsection \<open>Agents of the pool\<close>

definition fresh_handle :: "string \<Rightarrow> string \<Rightarrow> nat \<Rightarrow> agent_handle" where
  "fresh_handle i path now =
     \<lparr>agent_id = i, socket_path = path, active_tasks = 0, healthy = True, consecutive_failures = 0,
      created_at = now, shutting_down = False\<rparr>"

definition add_agent :: "string \<Rightarrow> string \<Rightarrow> nat \<Rightarrow> pool_state \<Rightarrow> pool_state" where
  [pool_ops]: "add_agent i path now s =
     (if i \<in> set (agent_ids s) then s
      else s\<lparr>cells := cells s @ [fresh_handle i path now], agents := agents s @ [length (cells s)],
             agent_available := True\<rparr>)"

definition create_agent :: "provision_error + (string \<times> string) \<Rightarrow> nat \<Rightarrow> pool_state \<Rightarrow> (pool_error + unit) \<times> pool_state" where
  "create_agent created now s =
     (case created of
        Inr (i, path) \<Rightarrow> (Inr (), add_agent i path now s)
      | Inl e \<Rightarrow> (Inl (ProvisionFailed e), s))"

definition agent_socket_path :: "string \<Rightarrow> string" where
  "agent_socket_path i = ''/run/judge-core/agents/'' @ i @ ''/agent.sock''"

definition destroy_agents :: "string list \<Rightarrow> pool_state \<Rightarrow> pool_state" where
  [pool_ops]: "destroy_agents ids s = s\<lparr>destroyed := destroyed s @ ids\<rparr>"

text \<open>\<open>discover_agents\<close>: \<open>alive i\<close> says whether the heartbeat to agent \<open>i\<close> was answered in time.\<close>

definition discover_one :: "(string \<Rightarrow> bool) \<Rightarrow> nat \<Rightarrow> string \<Rightarrow> pool_state \<Rightarrow> pool_state" where
  [pool_ops]: "discover_one alive now i s =
     (if alive i then add_agent i (agent_socket_path i) now s else destroy_agents [i] s)"

definition discover_agents ::
  "provision_error + string list \<Rightarrow> (string \<Rightarrow> bool) \<Rightarrow> nat \<Rightarrow> pool_state \<Rightarrow> (pool_error + unit) \<times> pool_state" where
  "discover_agents listed alive now s =
     (case listed of
        Inl e \<Rightarrow> (Inl (ProvisionFailed e), s)
      | Inr ids \<Rightarrow> (Inr (), fold (discover_one alive now) ids s))"

definition find_agent :: "string \<Rightarrow> pool_state \<Rightarrow> nat option" where
  "find_agent i s = List.find (\<lambda>r. agent_id (cells s ! r) = i) (agents s)"

definition remove_agent :: "string \<Rightarrow> pool_state \<Rightarrow> (pool_error + nat) \<times> pool_state" where
  "remove_agent i s =
     (case find_agent i s of
        None \<Rightarrow> (Inl AgentUnavailable, s)
      | Some r \<Rightarrow> (Inr r, s\<lparr>agents := remove1 r (agents s)\<rparr>))"

definition shutdown_agent :: "string \<Rightarrow> pool_state \<Rightarrow> (pool_error + unit) \<times> pool_state" where
  "shutdown_agent i s =
     (case find_agent i s of
        None \<Rightarrow> (Inl AgentUnavailable, s)
      | Some r \<Rightarrow> (Inr (), update_cell r (\<lambda>a. a\<lparr>shutting_down := True\<rparr>) s))"

definition available :: "agent_handle \<Rightarrow> bool" where
  "available a \<longleftrightarrow> healthy a \<and> \<not> shutting_down a"

definition find_least_loaded_agent :: "pool_state \<Rightarrow> nat option" where
  "find_least_loaded_agent s =
     min_by_key (\<lambda>r. active_tasks (cells s ! r)) (filter (\<lambda>r. available (cells s ! r)) (agents s))"

definition pool_metrics_of :: "pool_state \<Rightarrow> pool_metrics" where
  "pool_metrics_of s =
     \<lparr>queue_size = length (task_queue s),
      agent_count = length (agents s),
      healthy_agent_count = length (filter (\<lambda>r. healthy (cells s ! r)) (agents s)),
      metrics_active_tasks = sum_list (map (\<lambda>r. active_tasks (cells s ! r)) (agents s)),
      draining_agent_count = length (filter (\<lambda>r. shutting_down (cells s ! r)) (agents s)),
      unhealthy_agent_count = length (filter (\<lambda>r. \<not> healthy (cells s ! r)) (agents s))\<rparr>"

subsection \<open>The dispatcher\<close>

definition dispatchable :: "pool_config \<Rightarrow> agent_handle \<Rightarrow> bool" where
  "dispatchable cfg a \<longleftrightarrow> healthy a \<and> \<not> shutting_down a \<and> active_tasks a < max_concurrent_per_agent cfg"

definition choose_agent :: "pool_config \<Rightarrow> pool_state \<Rightarrow> nat option" where
  "choose_agent cfg s =
     min_by_key (\<lambda>r. active_tasks (cells s ! r)) (filter (\<lambda>r. dispatchable cfg (cells s ! r)) (agents s))"

text \<open>The locked section at the head of the loop.\<close>

definition dispatch_check :: "pool_config \<Rightarrow> pool_state \<Rightarrow> pool_state" where
  "dispatch_check cfg s =
     (case task_queue s of
        [] \<Rightarrow> s\<lparr>dispatcher := AwaitingSignal\<rparr>
      | t # q \<Rightarrow>
          (case choose_agent cfg s of
             Some r \<Rightarrow> s\<lparr>task_queue := q, dispatcher := Chosen r t\<rparr>
           | None \<Rightarrow> s\<lparr>dispatcher := AwaitingAgent\<rparr>))"

definition receive_signal :: "pool_state \<Rightarrow> pool_state" where
  [pool_ops]: "receive_signal s = s\<lparr>task_signals := task_signals s - 1, dispatcher := AtLoopHead\<rparr>"

definition receive_notification :: "pool_state \<Rightarrow> pool_state" where
  [pool_ops]: "receive_notification s = s\<lparr>agent_available := False, dispatcher := AtLoopHead\<rparr>"

text \<open>After the locks are released: count the task on its agent and spawn it.\<close>

definition dispatch_spawn :: "nat \<Rightarrow> queued_task \<Rightarrow> pool_state \<Rightarrow> pool_state" where
  [pool_ops]: "dispatch_spawn r t s =
     (update_cell r (\<lambda>a. a\<lparr>active_tasks := active_tasks a + 1\<rparr>) s)
       \<lparr>executions := add_mset (Executing r t) (executions s), dispatcher := AtLoopHead\<rparr>"

subsection \<open>A spawned execution\<close>

text \<open>
  \<open>conn\<close> is what connecting gave within five seconds and \<open>answer\<close> what the peer made of the
  stream before the task timeout (\<open>None\<close>: it elapsed).  The result is \<open>None\<close> where \<open>send\<close> panics.
\<close>

datatype connect_outcome = ConnectTimeout | ConnectIo | Connected stream

definition execute_task ::
  "(verdict_task frame \<Rightarrow> u8 list option) \<Rightarrow> (u8 list \<Rightarrow> verdict_task_result frame option) \<Rightarrow>
   connect_outcome \<Rightarrow> (stream \<Rightarrow> stream option) \<Rightarrow> frame_id \<Rightarrow> verdict_task \<Rightarrow> pool_config \<Rightarrow> task_reply option" where
  "execute_task ser de conn answer frame_id task cfg =
     (case conn of
        ConnectTimeout \<Rightarrow> Some (Inl (TaskTimeout 5))
      | ConnectIo \<Rightarrow> Some (Inl ConnectionFailed)
      | Connected s \<Rightarrow>
          (case send ser s frame_id task of
             None \<Rightarrow> None
           | Some (Inl e) \<Rightarrow> Some (Inl (ProtocolFailed e))
           | Some (Inr s1) \<Rightarrow>
               Some (case answer s1 of
                  None \<Rightarrow> Inl (TaskTimeout (as_secs (task_timeout cfg)))
                | Some s2 \<Rightarrow>
                    (case receive de s2 of
                       Inl e \<Rightarrow> Inl (ProtocolFailed e)
                     | Inr (None, _) \<Rightarrow> Inl (ProtocolFailed UnexpectedHeartbeat)
                     | Inr (Some (_, result), _) \<Rightarrow> Inr result))))"

text \<open>\<open>fetch_sub\<close>, the notification when the counter was 1, and settling the result; \<open>M\<close> are the
  other executions.\<close>

definition exec_release :: "nat \<Rightarrow> task_reply \<Rightarrow> queued_task \<Rightarrow> execution multiset \<Rightarrow> pool_state \<Rightarrow> pool_state" where
  [pool_ops]: "exec_release r res t M s =
     (update_cell r (\<lambda>a. a\<lparr>active_tasks := active_tasks a - 1\<rparr>) s)
       \<lparr>executions := add_mset (Returned (active_tasks (cells s ! r) = 1) res t) M\<rparr>"

definition exec_notify :: "bool \<Rightarrow> task_reply \<Rightarrow> queued_task \<Rightarrow> execution multiset \<Rightarrow> pool_state \<Rightarrow> pool_state" where
  [pool_ops]: "exec_notify due res t M s =
     s\<lparr>agent_available := agent_available s \<or> due, executions := add_mset (Settling res t) M\<rparr>"

definition exec_settle ::
  "pool_config \<Rightarrow> task_reply \<Rightarrow> queued_task \<Rightarrow> execution multiset \<Rightarrow> pool_state \<Rightarrow> pool_state" where
  [pool_ops]: "exec_settle cfg res t M s =
     (case res of
        Inr v \<Rightarrow> s\<lparr>executions := M, replies := (replies s)(result_tx t \<mapsto> Inr v)\<rparr>
      | Inl e \<Rightarrow>
          if retries t < max_retries cfg
          then s\<lparr>executions := M, task_queue := task_queue s @ [t\<lparr>retries := retries t + 1\<rparr>],
                 task_signals := task_signals s + 1\<rparr>
          else s\<lparr>executions := M, replies := (replies s)(result_tx t \<mapsto> Inl (MaxRetriesExceeded (retries t)))\<rparr>)"

subsection \<open>Health checks\<close>

text \<open>A tick probes a snapshot of the agents; the loop ticks again when every result is applied.\<close>

definition health_tick :: "pool_state \<Rightarrow> pool_state" where
  [pool_ops]: "health_tick s = s\<lparr>probing := mset (agents s)\<rparr>"

definition probe_failures :: "bool \<Rightarrow> agent_handle \<Rightarrow> u32" where
  "probe_failures ok a = (if ok then 0 else consecutive_failures a + 1)"

definition probe_healthy :: "pool_config \<Rightarrow> bool \<Rightarrow> agent_handle \<Rightarrow> bool" where
  "probe_healthy cfg ok a \<longleftrightarrow> ok \<or> probe_failures ok a < health_check_failure_threshold cfg"

definition probe_finish :: "pool_config \<Rightarrow> nat \<Rightarrow> bool \<Rightarrow> nat multiset \<Rightarrow> pool_state \<Rightarrow> pool_state" where
  [pool_ops]: "probe_finish cfg r ok M s =
     (update_cell r (\<lambda>a. a\<lparr>consecutive_failures := probe_failures ok a\<rparr>) s)
       \<lparr>probing := M, probed := add_mset (r, probe_healthy cfg ok (cells s ! r)) (probed s)\<rparr>"

definition apply_health :: "nat \<Rightarrow> bool \<Rightarrow> (nat \<times> bool) multiset \<Rightarrow> pool_state \<Rightarrow> pool_state" where
  [pool_ops]: "apply_health r h M s =
     (let was_healthy = healthy (cells s ! r); recovered = (\<not> was_healthy \<and> h)
      in (update_cell r (\<lambda>a. a\<lparr>healthy := h,
             consecutive_failures := (if recovered then 0 else consecutive_failures a)\<rparr>) s)
           \<lparr>probed := M, agent_available := agent_available s \<or> recovered\<rparr>)"

subsection \<open>Draining\<close>

definition drain_candidate :: "agent_handle \<Rightarrow> bool" where
  "drain_candidate a \<longleftrightarrow> \<not> healthy a \<or> (shutting_down a \<and> active_tasks a = 0)"

definition drain_tick :: "pool_state \<Rightarrow> pool_state" where
  [pool_ops]: "drain_tick s = s\<lparr>drain := DrainSnapshot (agents s)\<rparr>"

definition drain_select :: "nat list \<Rightarrow> pool_state \<Rightarrow> pool_state" where
  [pool_ops]: "drain_select snapshot s =
     (let candidates = filter (\<lambda>r. drain_candidate (cells s ! r)) snapshot
      in s\<lparr>drain := (if candidates = [] then DrainIdle else DrainCandidates candidates)\<rparr>)"

definition drain_remove :: "nat list \<Rightarrow> pool_state \<Rightarrow> pool_state" where
  [pool_ops]: "drain_remove candidates s =
     (let ids = map (\<lambda>r. agent_id (cells s ! r)) candidates
      in (destroy_agents ids s)
           \<lparr>agents := filter (\<lambda>r. agent_id (cells s ! r) \<notin> set ids) (agents s), drain := DrainIdle\<rparr>)"

subsection \<open>Shutting down\<close>

definition shutdown_begin :: "pool_state \<Rightarrow> pool_state" where
  [pool_ops]: "shutdown_begin s = s\<lparr>pool_shutting_down := True, shutdown_at := Flagged\<rparr>"

fun reject_all :: "queued_task list \<Rightarrow> (nat \<rightharpoonup> task_reply) \<Rightarrow> (nat \<rightharpoonup> task_reply)" where
  "reject_all [] m = m"
| "reject_all (t # ts) m = reject_all ts (m(result_tx t \<mapsto> Inl ShuttingDown))"

definition shutdown_drain_queue :: "pool_state \<Rightarrow> pool_state" where
  [pool_ops]: "shutdown_drain_queue s =
     s\<lparr>task_queue := [], replies := reject_all (task_queue s) (replies s), shutdown_at := QueueDrained\<rparr>"

definition mark_agents :: "nat list \<Rightarrow> agent_handle list \<Rightarrow> agent_handle list" where
  "mark_agents rs cs = fold (\<lambda>r cs. cs[r := (cs ! r)\<lparr>shutting_down := True\<rparr>]) rs cs"

definition shutdown_mark_agents :: "pool_state \<Rightarrow> pool_state" where
  [pool_ops]: "shutdown_mark_agents s =
     s\<lparr>cells := mark_agents (agents s) (cells s), shutdown_at := AgentsMarked (agent_ids s)\<rparr>"

text \<open>The waiting loop ends when no listed agent is busy or the drain timeout is reached.\<close>

definition shutdown_wait_over :: "nat \<Rightarrow> nat \<Rightarrow> pool_state \<Rightarrow> bool" where
  "shutdown_wait_over elapsed drain_timeout s \<longleftrightarrow>
     metrics_active_tasks (pool_metrics_of s) = 0 \<or> drain_timeout \<le> elapsed"

definition shutdown_clear :: "string list \<Rightarrow> pool_state \<Rightarrow> pool_state" where
  [pool_ops]: "shutdown_clear ids s = s\<lparr>agents := [], shutdown_at := AgentsCleared ids\<rparr>"

definition shutdown_destroy :: "string list \<Rightarrow> pool_state \<Rightarrow> pool_state" where
  [pool_ops]: "shutdown_destroy ids s = (destroy_agents ids s)\<lparr>shutdown_at := ShutdownComplete\<rparr>"

subsection \<open>Steps\<close>

inductive pool_step :: "pool_config \<Rightarrow> pool_state \<Rightarrow> pool_state \<Rightarrow> bool" for cfg where
  step_submit_enter: "submit_enter task s = Inr t \<Longrightarrow> pool_step cfg s t"
| step_submit_enqueue: "entering s = add_mset q M \<Longrightarrow> pool_step cfg s (submit_enqueue cfg q M s)"
| step_create_agent: "pool_step cfg s (snd (create_agent created now s))"
| step_discover: "pool_step cfg s (discover_one alive now i s)"
| step_remove_agent: "pool_step cfg s (snd (remove_agent i s))"
| step_shutdown_agent: "pool_step cfg s (snd (shutdown_agent i s))"
| step_check: "dispatcher s = AtLoopHead \<Longrightarrow> pool_step cfg s (dispatch_check cfg s)"
| step_signal: "dispatcher s = AwaitingSignal \<or> dispatcher s = AwaitingAgent \<Longrightarrow> 0 < task_signals s \<Longrightarrow>
    pool_step cfg s (receive_signal s)"
| step_notified: "dispatcher s = AwaitingAgent \<Longrightarrow> agent_available s \<Longrightarrow> pool_step cfg s (receive_notification s)"
| step_spawn: "dispatcher s = Chosen r q \<Longrightarrow> pool_step cfg s (dispatch_spawn r q s)"
| step_release: "executions s = add_mset (Executing r q) M \<Longrightarrow> pool_step cfg s (exec_release r res q M s)"
| step_notify: "executions s = add_mset (Returned due res q) M \<Longrightarrow> pool_step cfg s (exec_notify due res q M s)"
| step_settle: "executions s = add_mset (Settling res q) M \<Longrightarrow> pool_step cfg s (exec_settle cfg res q M s)"
| step_health_tick: "probing s = {#} \<Longrightarrow> probed s = {#} \<Longrightarrow> pool_step cfg s (health_tick s)"
| step_probe: "probing s = add_mset r N \<Longrightarrow> pool_step cfg s (probe_finish cfg r ok N s)"
| step_apply_health: "probed s = add_mset (r, h) P \<Longrightarrow> pool_step cfg s (apply_health r h P s)"
| step_drain_tick: "drain s = DrainIdle \<Longrightarrow> pool_step cfg s (drain_tick s)"
| step_drain_select: "drain s = DrainSnapshot rs \<Longrightarrow> pool_step cfg s (drain_select rs s)"
| step_drain_remove: "drain s = DrainCandidates rs \<Longrightarrow> pool_step cfg s (drain_remove rs s)"
| step_shutdown_begin: "shutdown_at s = NotShutDown \<Longrightarrow> pool_step cfg s (shutdown_begin s)"
| step_shutdown_drain: "shutdown_at s = Flagged \<Longrightarrow> pool_step cfg s (shutdown_drain_queue s)"
| step_shutdown_mark: "shutdown_at s = QueueDrained \<Longrightarrow> pool_step cfg s (shutdown_mark_agents s)"
| step_shutdown_clear: "shutdown_at s = AgentsMarked ids \<Longrightarrow> shutdown_wait_over elapsed drain_timeout s \<Longrightarrow>
    pool_step cfg s (shutdown_clear ids s)"
| step_shutdown_destroy: "shutdown_at s = AgentsCleared ids \<Longrightarrow> pool_step cfg s (shutdown_destroy ids s)"

abbreviation pool_reach :: "pool_config \<Rightarrow> pool_state \<Rightarrow> bool" where
  "pool_reach cfg \<equiv> reach pool_new (pool_step cfg)"

end
