(* ===== verification/Scaler.thy ===== *)
theory Scaler
  imports Complex_Main Pool
begin

text \<open>
  The autoscaler (\<open>judge_core_manager/src/scaler.rs\<close>) and its configuration.  \<open>f64\<close> is modelled by
  the reals, \<open>usize\<close> by the naturals, with the wrap-around of a release build where loads are added; a point of time is its
  number of milliseconds.  One turn of the loop is \<open>scaler_tick\<close>: it reads the pool's metrics and returns what it makes the pool do.
\<close>

record scaler_config =
  min_agents :: nat
  max_agents :: nat
  scale_down_utilization_pct :: real
  scale_up_cooldown_secs :: u64
  scale_down_cooldown_secs :: u64
  check_interval_secs :: u64
  provision_time_secs :: u64
  max_scale_up_batch :: nat
  scale_down_confirm_ticks :: u32
  ema_alpha :: real
  scaler_max_concurrent :: u32

definition scaler_config_default :: scaler_config where
  "scaler_config_default =
     \<lparr>min_agents = 2, max_agents = 10, scale_down_utilization_pct = 3 / 10, scale_up_cooldown_secs = 5,
      scale_down_cooldown_secs = 300, check_interval_secs = 10, provision_time_secs = 30,
      max_scale_up_batch = 3, scale_down_confirm_ticks = 3, ema_alpha = 3 / 10, scaler_max_concurrent = 5\<rparr>"

definition pool_config_default :: pool_config where
  "pool_config_default =
     \<lparr>max_queue_size = 1000, max_retries = 3, task_timeout = from_secs 45, health_check_interval = from_secs 5,
      health_check_failure_threshold = 3, max_concurrent_per_agent = 5, drain_check_interval_secs = 5\<rparr>"

subsection \<open>Queue velocity\<close>

record velocity_tracker =
  prev_queue_size :: nat
  velocity :: real
  tracker_alpha :: real
  tracker_interval_secs :: u64

definition tracker_new :: "real \<Rightarrow> u64 \<Rightarrow> velocity_tracker" where
  "tracker_new alpha interval =
     \<lparr>prev_queue_size = 0, velocity = 0, tracker_alpha = alpha, tracker_interval_secs = interval\<rparr>"

definition tracker_update :: "nat \<Rightarrow> velocity_tracker \<Rightarrow> real \<times> velocity_tracker" where
  "tracker_update queue v =
     (let delta = real queue - real (prev_queue_size v);
          raw = tracker_alpha v * delta + (1 - tracker_alpha v) * velocity v
      in (if 0 < tracker_interval_secs v then raw / real (unat (tracker_interval_secs v)) else 0,
          v\<lparr>velocity := raw, prev_queue_size := queue\<rparr>))"

subsection \<open>The two decisions\<close>

definition div_ceil :: "nat \<Rightarrow> nat \<Rightarrow> nat" where
  "div_ceil a b = (a + (b - 1)) div b"

definition usize_add :: "nat \<Rightarrow> nat \<Rightarrow> nat" where
  "usize_add a b = (a + b) mod 2 ^ 64"

text \<open>A cast of a float to \<open>usize\<close> saturates.\<close>

definition provision_buffer :: "real \<Rightarrow> scaler_config \<Rightarrow> nat" where
  "provision_buffer v cfg = (if 0 < v then min (nat \<lceil>v * real (unat (provision_time_secs cfg))\<rceil>) (2 ^ 64 - 1) else 0)"

definition total_load :: "pool_metrics \<Rightarrow> nat" where
  "total_load m = usize_add (unat (metrics_active_tasks m)) (queue_size m)"

definition scale_up_decision :: "pool_metrics \<Rightarrow> real \<Rightarrow> scaler_config \<Rightarrow> nat" where
  "scale_up_decision m v cfg =
     (let capacity = unat (scaler_max_concurrent cfg) in
      if capacity = 0 then 0
      else
        let needed_capacity = usize_add (total_load m) (provision_buffer v cfg);
            needed_agents = div_ceil needed_capacity capacity;
            need = needed_agents - agent_count m
        in min (min need (max_scale_up_batch cfg)) (max_agents cfg - agent_count m))"

definition utilization :: "pool_metrics \<Rightarrow> scaler_config \<Rightarrow> real" where
  "utilization m cfg =
     (let effective_agents = max (agent_count m - draining_agent_count m) 1;
          max_capacity = real effective_agents * real (unat (scaler_max_concurrent cfg))
      in if 0 < max_capacity then real (unat (metrics_active_tasks m)) / max_capacity else 0)"

definition may_scale_down :: "pool_metrics \<Rightarrow> scaler_config \<Rightarrow> bool" where
  "may_scale_down m cfg \<longleftrightarrow> utilization m cfg < scale_down_utilization_pct cfg \<and> min_agents cfg < agent_count m"

definition scale_down_decision :: "pool_metrics \<Rightarrow> scaler_config \<Rightarrow> u32 \<Rightarrow> bool \<times> u32" where
  "scale_down_decision m cfg confirm_counter =
     (if may_scale_down m cfg then
        (let new_counter = confirm_counter + 1; should_scale = scale_down_confirm_ticks cfg \<le> new_counter
         in (should_scale, if should_scale then 0 else new_counter))
      else (False, 0))"

subsection \<open>The loop\<close>

record scaler_state =
  last_scale_up :: int
  last_scale_down :: int
  velocity_state :: velocity_tracker
  confirm_counter :: u32

datatype scaler_action = NoAction | CreateAgents nat | ShutdownAgent string

definition scaler_init :: "scaler_config \<Rightarrow> int \<Rightarrow> scaler_state" where
  "scaler_init cfg now =
     \<lparr>last_scale_up = now - 1000 * int (unat (scale_up_cooldown_secs cfg)),
      last_scale_down = now - 1000 * int (unat (scale_down_cooldown_secs cfg)),
      velocity_state = tracker_new (ema_alpha cfg) (check_interval_secs cfg), confirm_counter = 0\<rparr>"

definition cooling_down :: "int \<Rightarrow> int \<Rightarrow> u64 \<Rightarrow> bool" where
  "cooling_down now since secs \<longleftrightarrow> nat ((now - since) div 1000) < unat secs"

text \<open>\<open>m\<close> is what \<open>metrics\<close> returned at the beginning of the turn, \<open>p\<close> the pool when the turn looks for an agent.\<close>

definition scaler_tick ::
  "scaler_config \<Rightarrow> int \<Rightarrow> pool_metrics \<Rightarrow> pool_state \<Rightarrow> scaler_state \<Rightarrow> scaler_action \<times> scaler_state" where
  "scaler_tick cfg now m p s =
     (let (v, tr) = tracker_update (queue_size m) (velocity_state s);
          s1 = s\<lparr>velocity_state := tr\<rparr>;
          need = scale_up_decision m v cfg
      in if 0 < need then
           (if cooling_down now (last_scale_up s) (scale_up_cooldown_secs cfg) then (NoAction, s1)
            else (CreateAgents need, s1\<lparr>last_scale_up := now\<rparr>))
         else
           (let (should, counter) = scale_down_decision m cfg (confirm_counter s);
                s2 = s1\<lparr>confirm_counter := counter\<rparr>
            in if should then
                 (if cooling_down now (last_scale_down s) (scale_down_cooldown_secs cfg) then (NoAction, s2)
                  else (case find_least_loaded_agent p of
                          Some r \<Rightarrow> (ShutdownAgent (agent_id (cells p ! r)), s2\<lparr>last_scale_down := now, confirm_counter := 0\<rparr>)
                        | None \<Rightarrow> (NoAction, s2)))
               else (NoAction, s2)))"

text \<open>A run of the loop: what it is given in every tick, what it does, the state it ends in.\<close>

type_synonym tick_input = "int \<times> pool_metrics \<times> pool_state"

fun scaler_run :: "scaler_config \<Rightarrow> tick_input list \<Rightarrow> scaler_state \<Rightarrow> scaler_action list \<times> scaler_state" where
  "scaler_run cfg [] s = ([], s)"
| "scaler_run cfg ((now, m, p) # rest) s =
     (let (act, s1) = scaler_tick cfg now m p s; (acts, s2) = scaler_run cfg rest s1
      in (act # acts, s2))"

subsection \<open>Lemmas\<close>

lemma div_ceil_least: "0 < c \<Longrightarrow> div_ceil a c \<le> n \<longleftrightarrow> a \<le> n * c"
proof -
  assume c: "0 < c"
  have "div_ceil a c \<le> n \<longleftrightarrow> (a + (c - 1)) div c < Suc n" by (simp add: div_ceil_def less_Suc_eq_le)
  also have "\<dots> \<longleftrightarrow> a + (c - 1) < Suc n * c" using c by (simp add: div_less_iff_less_mult)
  also have "\<dots> \<longleftrightarrow> a \<le> n * c" using c by auto
  finally show ?thesis .
qed

lemma scaler_tick_counter:
  assumes "scaler_tick cfg now m p s = (act, t)" and "confirm_counter s < scale_down_confirm_ticks cfg"
  shows "confirm_counter t < scale_down_confirm_ticks cfg"
  using assms
  by (auto simp: scaler_tick_def scale_down_decision_def Let_def not_le
        split: prod.splits if_splits option.splits intro: le_less_trans)


text \<open>The counter after a streak of scale-down evaluations.\<close>

fun low_streak :: "scaler_config \<Rightarrow> pool_metrics list \<Rightarrow> bool \<times> u32" where
  "low_streak cfg [] = (False, 0)"
| "low_streak cfg (m # ms) = scale_down_decision m cfg (snd (low_streak cfg ms))"

lemma low_streak_counter:
  assumes "0 < scale_down_confirm_ticks cfg"
  shows "snd (low_streak cfg ms) < scale_down_confirm_ticks cfg \<and>
    unat (snd (low_streak cfg ms)) \<le> length ms \<and>
    (\<forall>m \<in> set (take (unat (snd (low_streak cfg ms))) ms). may_scale_down m cfg)"
proof (induction ms)
  case Nil
  then show ?case using assms by simp
next
  case (Cons m ms)
  let ?c = "snd (low_streak cfg ms)"
  from Cons have "unat (?c + 1) = unat ?c + 1" by (blast intro: unat_suc_less)
  with Cons assms show ?case by (auto simp: scale_down_decision_def Let_def not_le)
qed

subsection \<open>Properties\<close>

definition metrics_of_load :: "nat \<Rightarrow> u32 \<Rightarrow> nat \<Rightarrow> nat \<Rightarrow> pool_metrics" where
  "metrics_of_load queue active n draining =
     \<lparr>queue_size = queue, agent_count = n, healthy_agent_count = n, metrics_active_tasks = active,
      draining_agent_count = draining, unhealthy_agent_count = 0\<rparr>"

text \<open>The velocity a turn works with.\<close>

abbreviation tick_velocity :: "pool_metrics \<Rightarrow> scaler_state \<Rightarrow> real" where
  "tick_velocity m s \<equiv> fst (tracker_update (queue_size m) (velocity_state s))"

lemma find_least_loaded_Some:
  assumes "find_least_loaded_agent p = Some r"
  shows "r \<in> set (agents p) \<and> available (cells p ! r) \<and>
    (\<forall>r' \<in> set (agents p). available (cells p ! r') \<longrightarrow> active_tasks (cells p ! r) \<le> active_tasks (cells p ! r'))"
  using min_by_key_least [OF assms [unfolded find_least_loaded_agent_def]] by auto

lemma div_ceil_enough: "0 < c \<Longrightarrow> a \<le> (k + (div_ceil a c - k)) * c"
proof -
  assume c: "0 < c"
  have "a \<le> div_ceil a c * c" using div_ceil_least [OF c] by blast
  also have "\<dots> \<le> (k + (div_ceil a c - k)) * c" by (intro mult_le_mono1) simp
  finally show ?thesis .
qed

lemma cut_short:
  fixes need batch room :: nat
  shows "n = min (min need batch) (room - k) \<Longrightarrow> 0 < n \<Longrightarrow> n \<le> batch \<and> k + n \<le> room \<and> (n = batch \<or> k + n = room \<or> n = need)"
  by (auto simp: min_def split: if_splits)

lemma scale_up_decision_bounds:
  assumes "0 < n" and "n = scale_up_decision m v cfg"
  shows "n \<le> max_scale_up_batch cfg \<and> agent_count m + n \<le> max_agents cfg \<and>
     (n = max_scale_up_batch cfg \<or> agent_count m + n = max_agents cfg \<or> 2 ^ 64 \<le> total_load m + provision_buffer v cfg \<or>
      total_load m + provision_buffer v cfg \<le> (agent_count m + n) * unat (scaler_max_concurrent cfg))"
proof -
  let ?c = "unat (scaler_max_concurrent cfg)" and ?k = "agent_count m"
  let ?need = "div_ceil (usize_add (total_load m) (provision_buffer v cfg)) ?c - ?k"
  have c: "0 < ?c" using assms by (auto simp: scale_up_decision_def Let_def split: if_splits)
  then have "n = min (min ?need (max_scale_up_batch cfg)) (max_agents cfg - ?k)"
    using assms(2) by (simp add: scale_up_decision_def Let_def)
  note cut = cut_short [OF this assms(1)]
  moreover have "n = ?need \<Longrightarrow> total_load m + provision_buffer v cfg < 2 ^ 64 \<Longrightarrow> total_load m + provision_buffer v cfg \<le> (?k + n) * ?c"
    using div_ceil_enough [OF c, of "total_load m + provision_buffer v cfg" ?k] by (simp add: usize_add_def)
  ultimately show ?thesis by (meson not_le)
qed

text \<open>C40. What a turn of the autoscaler may do.  It creates agents only outside the scale-up cooldown, at
  most a batch of them, and never so many that the counted agents exceed \<open>max_agents\<close>; unless one of the
  two limits cuts it short, the new total carries the load and the provision buffer (if their sum is a \<open>usize\<close>).
  It drains an agent only if no scale-up is needed, outside the scale-down cooldown, while the pool is under-used and has
  more than \<open>min_agents\<close> agents, and then one that is healthy, not yet shutting down and the least loaded of those.
  When a scale-up is needed it does nothing only during the cooldown.\<close>
theorem scaler_tick_limits:
  assumes "scaler_tick cfg now m p s = (act, t)"
  shows "case act of
     NoAction \<Rightarrow> last_scale_up t = last_scale_up s \<and> last_scale_down t = last_scale_down s \<and>
       (scale_up_decision m (tick_velocity m s) cfg = 0 \<or> cooling_down now (last_scale_up s) (scale_up_cooldown_secs cfg))
   | CreateAgents n \<Rightarrow>
       n = scale_up_decision m (tick_velocity m s) cfg \<and>
       0 < n \<and> n \<le> max_scale_up_batch cfg \<and> agent_count m + n \<le> max_agents cfg \<and>
       (n = max_scale_up_batch cfg \<or> agent_count m + n = max_agents cfg \<or>
        2 ^ 64 \<le> total_load m + provision_buffer (tick_velocity m s) cfg \<or>
        total_load m + provision_buffer (tick_velocity m s) cfg \<le> (agent_count m + n) * unat (scaler_max_concurrent cfg)) \<and>
       \<not> cooling_down now (last_scale_up s) (scale_up_cooldown_secs cfg) \<and> last_scale_up t = now
   | ShutdownAgent i \<Rightarrow>
       scale_up_decision m (tick_velocity m s) cfg = 0 \<and>
       (\<exists>r \<in> set (agents p). agent_id (cells p ! r) = i \<and> available (cells p ! r) \<and>
          (\<forall>r' \<in> set (agents p). available (cells p ! r') \<longrightarrow> active_tasks (cells p ! r) \<le> active_tasks (cells p ! r'))) \<and>
       utilization m cfg < scale_down_utilization_pct cfg \<and> min_agents cfg < agent_count m \<and>
       \<not> cooling_down now (last_scale_down s) (scale_down_cooldown_secs cfg) \<and>
       last_scale_down t = now \<and> confirm_counter t = 0"
proof -
  note up = scale_up_decision_bounds
  obtain v tr where tr: "tracker_update (queue_size m) (velocity_state s) = (v, tr)" by fastforce
  have v: "tick_velocity m s = v" by (simp add: tr)
  show ?thesis
  proof (cases "0 < scale_up_decision m v cfg")
    case True
    with assms tr up [OF True refl] show ?thesis unfolding v
      by (auto simp: scaler_tick_def Let_def split: if_splits)
  next
    case False
    with assms tr show ?thesis unfolding v
      by (auto simp: scaler_tick_def scale_down_decision_def may_scale_down_def Let_def
          dest!: find_least_loaded_Some split: prod.splits if_splits option.splits)
  qed
qed

theorem scaler_tick_limits_witness:
  "\<exists>s'. scaler_tick scaler_config_default 0 (metrics_of_load 50 0 0 0) pool_new (scaler_init scaler_config_default 0) =
     (CreateAgents 3, s') \<and> 3 \<le> max_scale_up_batch scaler_config_default"
proof -
  obtain act s' where tick: "scaler_tick scaler_config_default 0 (metrics_of_load 50 0 0 0) pool_new (scaler_init scaler_config_default 0) = (act, s')"
    by fastforce
  then have act: "act = CreateAgents 3"
    by (auto simp: scaler_tick_def scaler_init_def scaler_config_default_def tracker_update_def tracker_new_def
          metrics_of_load_def scale_up_decision_def provision_buffer_def total_load_def usize_add_def div_ceil_def cooling_down_def Let_def)
  from scaler_tick_limits [OF tick] tick act show ?thesis by auto
qed

text \<open>A scale-down decision is confirmed: it is taken only when the last
  \<open>scale_down_confirm_ticks\<close> evaluations (the most recent first) all found the pool under-used and
  above \<open>min_agents\<close>.\<close>
theorem scale_down_confirmed:
  assumes "0 < scale_down_confirm_ticks cfg" and "fst (low_streak cfg ms)"
  shows "unat (scale_down_confirm_ticks cfg) \<le> length ms \<and>
    (\<forall>m \<in> set (take (unat (scale_down_confirm_ticks cfg)) ms). may_scale_down m cfg)"
proof (cases ms)
  case Nil
  with assms show ?thesis by simp
next
  case (Cons m rest)
  let ?c = "snd (low_streak cfg rest)"
  note streak = low_streak_counter [OF assms(1), of rest]
  have "may_scale_down m cfg" and le: "scale_down_confirm_ticks cfg \<le> ?c + 1"
    using assms(2) Cons by (auto simp: scale_down_decision_def Let_def split: if_splits)
  moreover have "unat (?c + 1) = unat ?c + 1" using streak by (blast intro: unat_suc_less)
  moreover have "unat ?c < unat (scale_down_confirm_ticks cfg)" using streak by (simp add: word_less_nat_alt)
  ultimately have "unat (scale_down_confirm_ticks cfg) = Suc (unat ?c)" by (simp add: word_le_nat_alt)
  with streak Cons \<open>may_scale_down m cfg\<close> show ?thesis by simp
qed

definition handle_of :: "string \<Rightarrow> bool \<Rightarrow> agent_handle" where
  "handle_of i stopping = \<lparr>agent_id = i, socket_path = i, active_tasks = 0, healthy = True, consecutive_failures = 0,
     created_at = 0, shutting_down = stopping\<rparr>"

definition one_working :: pool_state where
  "one_working = pool_new\<lparr>cells := [handle_of ''a'' True, handle_of ''b'' True, handle_of ''last'' False], agents := [0, 1, 2]\<rparr>"

text \<open>The limits count only agents that are in the pool.  With the default configuration, a queue of
  50 tasks and agents that need 31 seconds to come up, four consecutive turns ten seconds apart start
  the creation of 12 agents, although \<open>max_agents\<close> is 10.\<close>
theorem scaler_overshoots_max_agents:
  "fst (scaler_run scaler_config_default
          (map (\<lambda>k. (10000 * int k, metrics_of_load 50 0 0 0, pool_new)) [0, 1, 2, 3])
          (scaler_init scaler_config_default 0)) =
     [CreateAgents 3, CreateAgents 3, CreateAgents 3, CreateAgents 3] \<and>
   max_agents scaler_config_default < 3 + 3 + 3 + 3"
  by (simp add: scaler_tick_def scaler_init_def scaler_config_default_def tracker_update_def tracker_new_def
          metrics_of_load_def scale_up_decision_def provision_buffer_def total_load_def usize_add_def div_ceil_def cooling_down_def Let_def)

text \<open>\<open>min_agents\<close> is not maintained.  An idle pool without agents stays empty in every turn, and an
  idle pool of three agents two of which are already draining has its last working agent drained
  after three turns, although \<open>min_agents\<close> is 2.\<close>
theorem scaler_ignores_min_agents:
  "(\<forall>now. \<exists>s'. scaler_tick scaler_config_default now (metrics_of_load 0 0 0 0) pool_new (scaler_init scaler_config_default 0) =
      (NoAction, s')) \<and>
   fst (scaler_run scaler_config_default
          (map (\<lambda>k. (10000 * int k, metrics_of_load 0 0 3 2, one_working)) [0, 1, 2])
          (scaler_init scaler_config_default 0)) =
     [NoAction, NoAction, ShutdownAgent ''last''] \<and>
   min_agents scaler_config_default = 2"
  by (simp add: scaler_tick_def scaler_init_def scaler_config_default_def tracker_update_def tracker_new_def
        metrics_of_load_def scale_up_decision_def provision_buffer_def total_load_def usize_add_def div_ceil_def cooling_down_def
        scale_down_decision_def may_scale_down_def utilization_def Let_def word_le_nat_alt
        one_working_def handle_of_def find_least_loaded_agent_def available_def)

end
