(* ===== verification/Pool_Invariants.thy ===== *)
theory Pool_Invariants
  imports Pool
begin

text \<open>
  The invariants of the agent pool, each with its own step lemma and its own interpretation of
  \<open>inductive_invariant\<close>: handles stay valid (\<open>wf_pool\<close>), the load counters are exact
  (\<open>load_inv\<close>), every submission is in one place (\<open>ticket_inv\<close>), retries stay within the
  configured maximum (\<open>retry_inv\<close>), agent ids are unique (\<open>ids_inv\<close>) and no wake-up of the
  dispatcher is lost (\<open>wake_inv\<close>).
\<close>

subsection \<open>Frame facts\<close>

lemma update_cell_simps [simp]:
  "length (cells (update_cell r f s)) = length (cells s)"
  "cells (update_cell r f s) = (cells s)[r := f (cells s ! r)]"
  "agents (update_cell r f s) = agents s"
  "task_queue (update_cell r f s) = task_queue s"
  "dispatcher (update_cell r f s) = dispatcher s"
  "executions (update_cell r f s) = executions s"
  "entering (update_cell r f s) = entering s"
  "replies (update_cell r f s) = replies s"
  "next_channel (update_cell r f s) = next_channel s"
  "task_signals (update_cell r f s) = task_signals s"
  "agent_available (update_cell r f s) = agent_available s"
  "probing (update_cell r f s) = probing s"
  "probed (update_cell r f s) = probed s"
  "drain (update_cell r f s) = drain s"
  by (simp_all add: update_cell_def)

lemma mark_agents_length [simp]: "length (mark_agents rs cs) = length cs"
  by (induction rs arbitrary: cs) (auto simp: mark_agents_def)

lemma mark_agents_nth:
  "r < length cs \<Longrightarrow> mark_agents rs cs ! r = (if r \<in> set rs then (cs ! r)\<lparr>shutting_down := True\<rparr> else cs ! r)"
proof (induction rs arbitrary: cs)
  case Nil
  then show ?case by (simp add: mark_agents_def)
next
  case (Cons a rs)
  have "mark_agents (a # rs) cs = mark_agents rs (cs[a := (cs ! a)\<lparr>shutting_down := True\<rparr>])"
    by (simp add: mark_agents_def)
  with Cons show ?case by (cases "a = r") auto
qed

lemma mark_agents_fields [simp]:
  assumes "r < length cs"
  shows "active_tasks (mark_agents rs cs ! r) = active_tasks (cs ! r)"
    and "agent_id (mark_agents rs cs ! r) = agent_id (cs ! r)"
    and "healthy (mark_agents rs cs ! r) = healthy (cs ! r)"
    and "shutting_down (mark_agents rs cs ! r) \<longleftrightarrow> r \<in> set rs \<or> shutting_down (cs ! r)"
  using assms by (auto simp: mark_agents_nth)

lemma find_agent_Some: "find_agent i s = Some r \<Longrightarrow> r \<in> set (agents s) \<and> agent_id (cells s ! r) = i"
  unfolding find_agent_def by (rule find_Some_split)

lemma choose_agent_Some:
  "choose_agent cfg s = Some r \<Longrightarrow> r \<in> set (agents s) \<and> dispatchable cfg (cells s ! r)"
  by (auto simp: choose_agent_def dest!: min_by_key_in)

lemma choose_agent_None:
  "choose_agent cfg s = None \<Longrightarrow> r \<in> set (agents s) \<Longrightarrow> \<not> dispatchable cfg (cells s ! r)"
  by (auto simp: choose_agent_def filter_empty_conv)

text \<open>The state changes of the two operations that may do nothing.\<close>

lemma remove_agent_cases:
  "snd (remove_agent i s) = s \<or> (\<exists>r. snd (remove_agent i s) = s\<lparr>agents := remove1 r (agents s)\<rparr>)"
  by (auto simp: remove_agent_def split: option.splits)

lemma shutdown_agent_cases:
  "snd (shutdown_agent i s) = s \<or>
   (\<exists>r. r \<in> set (agents s) \<and> snd (shutdown_agent i s) = update_cell r (\<lambda>a. a\<lparr>shutting_down := True\<rparr>) s)"
  by (auto simp: shutdown_agent_def split: option.splits dest: find_agent_Some)

lemma create_agent_cases:
  "snd (create_agent created now s) = s \<or> (\<exists>i path. snd (create_agent created now s) = add_agent i path now s)"
  by (auto simp: create_agent_def split: sum.splits)

lemma submit_enter_Inr:
  "submit_enter task s = Inr t \<Longrightarrow>
   t = s\<lparr>next_frame_id := next_frame_id s + 1, next_channel := next_channel s + 1,
         entering := add_mset \<lparr>queued_frame_id = next_frame_id s, queued_task = task, retries = 0,
                               result_tx = next_channel s\<rparr> (entering s)\<rparr> \<and> \<not> pool_shutting_down s"
  by (auto simp: submit_enter_def split: if_splits)

text \<open>
  A predicate kept by every elementary operation is kept by every step: the step lemmas below
  supply one small goal per operation.
\<close>

lemma pool_step_preserves:
  assumes step: "pool_step cfg s t" and "P s"
    and "\<And>task. submit_enter task s = Inr t \<Longrightarrow> P t"
    and "\<And>q M. entering s = add_mset q M \<Longrightarrow> P (submit_enqueue cfg q M s)"
    and "\<And>i path now. P (add_agent i path now s)"
    and "\<And>ids. P (destroy_agents ids s)"
    and "\<And>r. P (s\<lparr>agents := remove1 r (agents s)\<rparr>)"
    and "\<And>r. r \<in> set (agents s) \<Longrightarrow> P (update_cell r (\<lambda>a. a\<lparr>shutting_down := True\<rparr>) s)"
    and "dispatcher s = AtLoopHead \<Longrightarrow> P (dispatch_check cfg s)"
    and "dispatcher s = AwaitingSignal \<or> dispatcher s = AwaitingAgent \<Longrightarrow> 0 < task_signals s \<Longrightarrow> P (receive_signal s)"
    and "dispatcher s = AwaitingAgent \<Longrightarrow> agent_available s \<Longrightarrow> P (receive_notification s)"
    and "\<And>r q. dispatcher s = Chosen r q \<Longrightarrow> P (dispatch_spawn r q s)"
    and "\<And>r q M res. executions s = add_mset (Executing r q) M \<Longrightarrow> P (exec_release r res q M s)"
    and "\<And>due res q M. executions s = add_mset (Returned due res q) M \<Longrightarrow> P (exec_notify due res q M s)"
    and "\<And>res q M. executions s = add_mset (Settling res q) M \<Longrightarrow> P (exec_settle cfg res q M s)"
    and "P (health_tick s)"
    and "\<And>r N ok. probing s = add_mset r N \<Longrightarrow> P (probe_finish cfg r ok N s)"
    and "\<And>r h N. probed s = add_mset (r, h) N \<Longrightarrow> P (apply_health r h N s)"
    and "P (drain_tick s)"
    and "\<And>rs. drain s = DrainSnapshot rs \<Longrightarrow> P (drain_select rs s)"
    and "\<And>rs. drain s = DrainCandidates rs \<Longrightarrow> P (drain_remove rs s)"
    and "P (shutdown_begin s)"
    and "P (shutdown_drain_queue s)"
    and "P (shutdown_mark_agents s)"
    and "\<And>ids. P (shutdown_clear ids s)"
    and "\<And>ids. P (shutdown_destroy ids s)"
  shows "P t"
  using step
proof cases
  case (step_create_agent created now)
  with assms(2,5) create_agent_cases [of created now s] show ?thesis by auto
next
  case (step_discover alive now i)
  with assms(5,6) show ?thesis by (simp add: discover_one_def)
next
  case (step_remove_agent i)
  with assms(2,7) remove_agent_cases [of i s] show ?thesis by auto
next
  case (step_shutdown_agent i)
  with assms(2,8) shutdown_agent_cases [of i s] show ?thesis by auto
qed (use assms in auto)

subsection \<open>Handles stay valid\<close>

fun drain_refs :: "drain_point \<Rightarrow> nat list" where
  "drain_refs DrainIdle = []"
| "drain_refs (DrainSnapshot rs) = rs"
| "drain_refs (DrainCandidates rs) = rs"

fun chosen_refs :: "dispatcher_point \<Rightarrow> nat list" where
  "chosen_refs (Chosen r _) = [r]"
| "chosen_refs _ = []"

fun exec_refs :: "execution \<Rightarrow> nat list" where
  "exec_refs (Executing r _) = [r]"
| "exec_refs _ = []"

definition wf_pool :: "pool_state \<Rightarrow> bool" where
  "wf_pool s \<longleftrightarrow>
     distinct (agents s) \<and>
     (\<forall>r \<in> set (agents s). r < length (cells s)) \<and>
     (\<forall>r \<in> set (drain_refs (drain s)). r < length (cells s)) \<and>
     (\<forall>r \<in> set (chosen_refs (dispatcher s)). r < length (cells s)) \<and>
     (\<forall>e \<in># executions s. \<forall>r \<in> set (exec_refs e). r < length (cells s)) \<and>
     (\<forall>r \<in># probing s. r < length (cells s)) \<and>
     (\<forall>p \<in># probed s. fst p < length (cells s))"

lemma wf_pool_simps:
  assumes "wf_pool s"
  shows wf_agents: "r \<in> set (agents s) \<Longrightarrow> r < length (cells s)"
    and wf_chosen: "dispatcher s = Chosen r q \<Longrightarrow> r < length (cells s)"
    and wf_executing: "Executing r q \<in># executions s \<Longrightarrow> r < length (cells s)"
    and wf_probing: "r \<in># probing s \<Longrightarrow> r < length (cells s)"
    and wf_probed: "(r, h) \<in># probed s \<Longrightarrow> r < length (cells s)"
    and wf_distinct: "distinct (agents s)"
  using assms by (simp_all add: wf_pool_def) (force+)?

lemma wf_pool_init: "wf_pool pool_new"
  by (simp add: wf_pool_def pool_new_def)

lemma wf_pool_step: "wf_pool s \<Longrightarrow> pool_step cfg s t \<Longrightarrow> wf_pool t"
proof (rule pool_step_preserves, assumption+, goal_cases)
  case (1 task)
  with submit_enter_Inr [OF 1(3)] show ?case by (simp add: wf_pool_def)
next
  case 7
  then show ?case
    by (auto simp: wf_pool_def dispatch_check_def split: list.splits option.splits dest: choose_agent_Some)
qed (auto simp: wf_pool_def pool_ops Let_def less_Suc_eq split: if_splits sum.splits)

interpretation wf: inductive_invariant pool_new "pool_step cfg" "\<lambda>_. True" wf_pool for cfg
  by unfold_locales (auto intro: wf_pool_init wf_pool_step)

subsection \<open>Load counters are exact\<close>

fun runs_on :: "nat \<Rightarrow> execution \<Rightarrow> bool" where
  "runs_on r (Executing r' _) = (r' = r)"
| "runs_on r _ = False"

definition running_on :: "pool_state \<Rightarrow> nat \<Rightarrow> nat" where
  "running_on s r = size (filter_mset (runs_on r) (executions s))"

fun chosen_has_room :: "pool_config \<Rightarrow> agent_handle list \<Rightarrow> dispatcher_point \<Rightarrow> bool" where
  "chosen_has_room cfg cs (Chosen r _) = (active_tasks (cs ! r) < max_concurrent_per_agent cfg)"
| "chosen_has_room cfg cs _ = True"

definition load_inv :: "pool_config \<Rightarrow> pool_state \<Rightarrow> bool" where
  "load_inv cfg s \<longleftrightarrow>
     (\<forall>r < length (cells s). unat (active_tasks (cells s ! r)) = running_on s r \<and>
        active_tasks (cells s ! r) \<le> max_concurrent_per_agent cfg) \<and>
     chosen_has_room cfg (cells s) (dispatcher s)"

lemma load_inv_init: "load_inv cfg pool_new"
  by (simp add: load_inv_def pool_new_def)

lemma load_inv_frame:
  assumes "load_inv cfg s" and "executions t = executions s" and "length (cells t) = length (cells s)"
    and "\<And>r. r < length (cells s) \<Longrightarrow> active_tasks (cells t ! r) = active_tasks (cells s ! r)"
    and "dispatcher t = dispatcher s \<or> chosen_refs (dispatcher t) = []" and "wf_pool s"
  shows "load_inv cfg t"
proof -
  have "chosen_has_room cfg (cells t) (dispatcher t)"
  proof (cases "dispatcher t")
    case (Chosen r q)
    with assms(5) have d: "dispatcher s = Chosen r q" by auto
    with wf_chosen [OF assms(6) d] assms(1,4) Chosen show ?thesis by (simp add: load_inv_def)
  qed auto
  with assms show ?thesis by (simp add: load_inv_def running_on_def)
qed

lemma load_inv_add_agent:
  assumes wf: "wf_pool s" and inv: "load_inv cfg s"
  shows "load_inv cfg (add_agent i path now s)"
proof -
  have "runs_on (length (cells s)) e = False" if "e \<in># executions s" for e
    using wf that by (cases e) (auto simp: wf_pool_def)
  then have "filter_mset (runs_on (length (cells s))) (executions s) = {#}"
    by (auto simp: filter_mset_eq_mempty_iff)
  with inv wf show ?thesis
    by (cases "dispatcher s")
       (auto simp: load_inv_def add_agent_def running_on_def nth_append fresh_handle_def less_Suc_eq dest: wf_chosen)
qed

lemma load_inv_spawn:
  assumes wf: "wf_pool s" and inv: "load_inv cfg s" and d: "dispatcher s = Chosen r q"
  shows "load_inv cfg (dispatch_spawn r q s)"
proof -
  have room: "active_tasks (cells s ! r) < max_concurrent_per_agent cfg"
    using inv d by (simp add: load_inv_def)
  have "active_tasks (cells s ! r) + 1 \<le> max_concurrent_per_agent cfg"
    using room by (simp add: inc_le)
  with inv room wf_chosen [OF wf d] unat_suc_less [OF room] show ?thesis
    by (auto simp: load_inv_def dispatch_spawn_def running_on_def nth_list_update)
qed

lemma load_inv_release:
  assumes wf: "wf_pool s" and inv: "load_inv cfg s" and e: "executions s = add_mset (Executing r q) M"
  shows "load_inv cfg (exec_release r res q M s)"
proof -
  have r: "r < length (cells s)" using wf e by (auto intro: wf_executing)
  have "unat (active_tasks (cells s ! r)) = Suc (size (filter_mset (runs_on r) M))"
    using inv r e by (simp add: load_inv_def running_on_def)
  from unat_pred [OF this] have dec: "unat (active_tasks (cells s ! r) - 1) = size (filter_mset (runs_on r) M)" .
  have less: "active_tasks (cells s ! r) - 1 < active_tasks (cells s ! r)"
    using dec \<open>unat (active_tasks (cells s ! r)) = _\<close> by (simp add: word_less_nat_alt)
  show ?thesis
    using inv r e dec less
    by (cases "dispatcher s")
       (auto simp: load_inv_def exec_release_def running_on_def nth_list_update
             intro: less_trans order.strict_implies_order order.strict_trans1)
qed

lemma load_inv_step: "wf_pool s \<Longrightarrow> load_inv cfg s \<Longrightarrow> pool_step cfg s t \<Longrightarrow> load_inv cfg t"
proof (rule pool_step_preserves, assumption+, goal_cases)
  case (1 task)
  with submit_enter_Inr [OF 1(4)] show ?case by (auto intro: load_inv_frame [OF 1(2)])
next
  case (3 i path now)
  then show ?case by (simp add: load_inv_add_agent)
next
  case 7
  then show ?case
    by (auto simp: load_inv_def running_on_def dispatch_check_def dispatchable_def
             split: list.splits option.splits dest: choose_agent_Some)
next
  case (10 r q)
  then show ?case by (simp add: load_inv_spawn)
next
  case (11 r q M res)
  then show ?case by (simp add: load_inv_release)
next
  case (12 due res q M)
  then show ?case by (simp add: load_inv_def running_on_def exec_notify_def)
next
  case (13 res q M)
  then show ?case by (auto simp: load_inv_def running_on_def exec_settle_def split: sum.splits)
qed (rule load_inv_frame [where s = s]; simp add: pool_ops Let_def nth_update_if split: if_splits)+

interpretation load: inductive_invariant pool_new "pool_step cfg" wf_pool "load_inv cfg" for cfg
  by unfold_locales (auto intro: wf.inv_reach load_inv_init load_inv_step)

subsection \<open>Every submission is in one place\<close>

fun chosen_tasks :: "dispatcher_point \<Rightarrow> queued_task list" where
  "chosen_tasks (Chosen _ q) = [q]"
| "chosen_tasks _ = []"

fun exec_task :: "execution \<Rightarrow> queued_task" where
  "exec_task (Executing _ q) = q"
| "exec_task (Returned _ _ q) = q"
| "exec_task (Settling _ q) = q"

text \<open>The tasks the pool holds: being submitted, queued, chosen or executing.\<close>

definition held_tasks :: "pool_state \<Rightarrow> queued_task multiset" where
  "held_tasks s =
     entering s + mset (task_queue s) + mset (chosen_tasks (dispatcher s)) + image_mset exec_task (executions s)"

definition tickets :: "pool_state \<Rightarrow> nat multiset" where
  "tickets s = image_mset result_tx (held_tasks s)"

text \<open>The channels allocated so far: each is held by exactly one task or answered, never both.\<close>

definition ticket_inv :: "pool_state \<Rightarrow> bool" where
  "ticket_inv s \<longleftrightarrow>
     (\<forall>c. count (tickets s) c + (if replies s c = None then 0 else 1) = (if c < next_channel s then 1 else 0))"

lemma ticket_inv_init: "ticket_inv pool_new"
  by (simp add: ticket_inv_def tickets_def held_tasks_def pool_new_def)

lemma ticket_inv_frame:
  assumes "ticket_inv s" and "tickets t = tickets s" and "replies t = replies s"
    and "next_channel t = next_channel s"
  shows "ticket_inv t"
  using assms by (simp add: ticket_inv_def)

lemma ticket_inv_reply:
  assumes inv: "ticket_inv s" and h: "held_tasks s = add_mset q (held_tasks t)" and "\<exists>v. replies t = (replies s)(result_tx q \<mapsto> v)"
    and "next_channel t = next_channel s"
  shows "ticket_inv t"
  unfolding ticket_inv_def
proof
  fix c
  from inv have "count (tickets s) c + (if replies s c = None then 0 else 1) = (if c < next_channel s then 1 else 0)"
    by (simp add: ticket_inv_def)
  with assms(2-4) show "count (tickets t) c + (if replies t c = None then 0 else 1) = (if c < next_channel t then 1 else 0)"
    by (auto simp: tickets_def split: if_splits)
qed

lemma reject_all_apply:
  "reject_all ts m c = (if c \<in> result_tx ` set ts then Some (Inl ShuttingDown) else m c)"
  by (induction ts arbitrary: m) auto

lemma ticket_inv_enter:
  assumes "ticket_inv s" and "submit_enter task s = Inr t"
  shows "ticket_inv t"
  unfolding ticket_inv_def
proof
  fix c
  have t: "tickets t = add_mset (next_channel s) (tickets s)" "replies t = replies s" "next_channel t = Suc (next_channel s)"
    using submit_enter_Inr [OF assms(2)] by (simp_all add: tickets_def held_tasks_def)
  have "count (tickets s) c + (if replies s c = None then 0 else 1) = (if c < next_channel s then 1 else 0)"
    using assms(1) by (simp add: ticket_inv_def)
  with t show "count (tickets t) c + (if replies t c = None then 0 else 1) = (if c < next_channel t then 1 else 0)"
    by (auto split: if_splits)
qed

lemma ticket_inv_enqueue:
  assumes "ticket_inv s" and "entering s = add_mset q M"
  shows "ticket_inv (submit_enqueue cfg q M s)"
proof (cases "max_queue_size cfg \<le> length (task_queue s)")
  case True
  show ?thesis
    by (rule ticket_inv_reply [OF assms(1), where q = q])
       (use True assms(2) in \<open>auto simp: submit_enqueue_def held_tasks_def\<close>)
next
  case False
  show ?thesis
    by (rule ticket_inv_frame [OF assms(1)])
       (use False assms(2) in \<open>simp_all add: submit_enqueue_def tickets_def held_tasks_def\<close>)
qed

lemma ticket_inv_check:
  assumes "ticket_inv s" and "dispatcher s = AtLoopHead"
  shows "ticket_inv (dispatch_check cfg s)"
  by (rule ticket_inv_frame [OF assms(1)])
     (use assms(2) in \<open>auto simp: dispatch_check_def tickets_def held_tasks_def split: list.splits option.splits\<close>)

lemma ticket_inv_settle:
  assumes "ticket_inv s" and e: "executions s = add_mset (Settling res q) M"
  shows "ticket_inv (exec_settle cfg res q M s)"
proof (cases "\<exists>e. res = Inl e \<and> retries q < max_retries cfg")
  case True
  then show ?thesis
    by (intro ticket_inv_frame [OF assms(1)]) (use e in \<open>auto simp: exec_settle_def tickets_def held_tasks_def\<close>)
next
  case False
  then have "\<exists>v. exec_settle cfg res q M s = s\<lparr>executions := M, replies := (replies s)(result_tx q \<mapsto> v)\<rparr>"
    by (cases res) (auto simp: exec_settle_def)
  then obtain v where v: "exec_settle cfg res q M s = s\<lparr>executions := M, replies := (replies s)(result_tx q \<mapsto> v)\<rparr>" ..
  show ?thesis
    by (rule ticket_inv_reply [OF assms(1), where q = q]) (use e in \<open>auto simp: v held_tasks_def\<close>)
qed

lemma ticket_count_arith:
  fixes a b n :: nat
  assumes "a + (if r = None then 0 else 1) = (if P then 1 else 0)" and "a = b + n"
    and "r' = (if n \<noteq> 0 then Some x else r)"
  shows "b + (if r' = None then 0 else 1) = (if P then 1 else 0)"
  using assms by (auto split: if_splits)

lemma ticket_inv_reject:
  assumes "ticket_inv s"
  shows "ticket_inv (shutdown_drain_queue s)"
  unfolding ticket_inv_def
proof
  fix c
  let ?q = "image_mset result_tx (mset (task_queue s))"
  have gone: "tickets s = tickets (shutdown_drain_queue s) + ?q"
    by (simp add: shutdown_drain_queue_def tickets_def held_tasks_def)
  have inv: "count (tickets s) c + (if replies s c = None then 0 else 1) = (if c < next_channel s then 1 else 0)"
    using assms by (simp add: ticket_inv_def)
  have inq: "c \<in> result_tx ` set (task_queue s) \<longleftrightarrow> count ?q c \<noteq> 0"
    by (metis count_eq_zero_iff set_image_mset set_mset_mset)
  have reply: "replies (shutdown_drain_queue s) c = (if count ?q c \<noteq> 0 then Some (Inl ShuttingDown) else replies s c)"
    unfolding inq [symmetric] by (simp add: shutdown_drain_queue_def reject_all_apply)
  have "count (tickets s) c = count (tickets (shutdown_drain_queue s)) c + count ?q c"
    unfolding gone by (rule count_union)
  from ticket_count_arith [OF inv this reply]
  show "count (tickets (shutdown_drain_queue s)) c + (if replies (shutdown_drain_queue s) c = None then 0 else 1)
      = (if c < next_channel (shutdown_drain_queue s) then 1 else 0)"
    by (simp add: shutdown_drain_queue_def)
qed

lemma ticket_inv_step: "ticket_inv s \<Longrightarrow> pool_step cfg s t \<Longrightarrow> ticket_inv t"
proof (rule pool_step_preserves, assumption+, goal_cases)
  case (1 task)
  then show ?case by (blast intro: ticket_inv_enter)
next
  case (2 q M)
  then show ?case by (blast intro: ticket_inv_enqueue)
next
  case 7
  then show ?case by (blast intro: ticket_inv_check)
next
  case 8
  show ?case
    by (rule ticket_inv_frame [OF 8(1)]) (use 8 in \<open>auto simp: receive_signal_def tickets_def held_tasks_def\<close>)
next
  case (13 res q M)
  then show ?case by (blast intro: ticket_inv_settle)
next
  case 21
  then show ?case by (blast intro: ticket_inv_reject)
qed (rule ticket_inv_frame [where s = s]; simp add: pool_ops Let_def tickets_def held_tasks_def split: if_splits)+

interpretation ticket: inductive_invariant pool_new "pool_step cfg" "\<lambda>_. True" ticket_inv for cfg
  by unfold_locales (auto intro: ticket_inv_init ticket_inv_step)

subsection \<open>Retries and the kinds of reply\<close>

fun reply_ok :: "pool_config \<Rightarrow> task_reply \<Rightarrow> bool" where
  "reply_ok cfg (Inr _) = True"
| "reply_ok cfg (Inl QueueFull) = True"
| "reply_ok cfg (Inl ShuttingDown) = True"
| "reply_ok cfg (Inl (MaxRetriesExceeded n)) = (n = max_retries cfg)"
| "reply_ok cfg (Inl _) = False"

definition retry_inv :: "pool_config \<Rightarrow> pool_state \<Rightarrow> bool" where
  "retry_inv cfg s \<longleftrightarrow>
     (\<forall>q \<in># held_tasks s. retries q \<le> max_retries cfg) \<and> (\<forall>v \<in> ran (replies s). reply_ok cfg v)"

lemma retry_inv_init: "retry_inv cfg pool_new"
  by (simp add: retry_inv_def held_tasks_def pool_new_def)

lemma retry_inv_frame:
  assumes "retry_inv cfg s" and "set_mset (held_tasks t) \<subseteq> set_mset (held_tasks s)" and "replies t = replies s"
  shows "retry_inv cfg t"
  using assms by (auto simp: retry_inv_def)

lemma retry_inv_reply:
  assumes "retry_inv cfg s" and "set_mset (held_tasks t) \<subseteq> set_mset (held_tasks s)"
    and "replies t = (replies s)(c \<mapsto> v)" and "reply_ok cfg v"
  shows "retry_inv cfg t"
  using assms by (auto simp: retry_inv_def ran_def)

lemma reply_ok_reject_all:
  "\<forall>v \<in> ran m. reply_ok cfg v \<Longrightarrow> \<forall>v \<in> ran (reject_all ts m). reply_ok cfg v"
  by (auto simp: ran_def reject_all_apply split: if_splits)

lemma retry_inv_enter:
  "retry_inv cfg s \<Longrightarrow> submit_enter task s = Inr t \<Longrightarrow> retry_inv cfg t"
  by (drule submit_enter_Inr) (auto simp: retry_inv_def held_tasks_def)

lemma retry_inv_enqueue:
  assumes "retry_inv cfg s" and "entering s = add_mset q M"
  shows "retry_inv cfg (submit_enqueue cfg q M s)"
proof (cases "max_queue_size cfg \<le> length (task_queue s)")
  case True
  show ?thesis
    by (rule retry_inv_reply [OF assms(1), where c = "result_tx q"])
       (use True assms(2) in \<open>auto simp: submit_enqueue_def held_tasks_def\<close>)
next
  case False
  show ?thesis
    by (rule retry_inv_frame [OF assms(1)]) (use False assms(2) in \<open>auto simp: submit_enqueue_def held_tasks_def\<close>)
qed

lemma retry_inv_settle:
  assumes inv: "retry_inv cfg s" and e: "executions s = add_mset (Settling res q) M"
  shows "retry_inv cfg (exec_settle cfg res q M s)"
proof -
  have q: "retries q \<le> max_retries cfg"
    using inv e by (auto simp: retry_inv_def held_tasks_def)
  show ?thesis
  proof (cases "\<exists>e. res = Inl e \<and> retries q < max_retries cfg")
    case True
    then have "retries q + 1 \<le> max_retries cfg" by (auto simp: inc_le)
    with True show ?thesis
      using inv e by (auto simp: retry_inv_def held_tasks_def exec_settle_def)
  next
    case False
    then obtain v where v: "exec_settle cfg res q M s = s\<lparr>executions := M, replies := (replies s)(result_tx q \<mapsto> v)\<rparr>"
      and "reply_ok cfg v"
      using q by (cases res) (auto simp: exec_settle_def not_less dest: order.antisym)
    then show ?thesis
      by (intro retry_inv_reply [OF inv, where c = "result_tx q"]) (use e in \<open>auto simp: held_tasks_def\<close>)
  qed
qed

lemma retry_inv_step: "retry_inv cfg s \<Longrightarrow> pool_step cfg s t \<Longrightarrow> retry_inv cfg t"
proof (rule pool_step_preserves, assumption+, goal_cases)
  case (1 task)
  then show ?case by (blast intro: retry_inv_enter)
next
  case (2 q M)
  then show ?case by (blast intro: retry_inv_enqueue)
next
  case 7
  show ?case
    by (rule retry_inv_frame [OF 7(1)])
       (use 7 in \<open>auto simp: dispatch_check_def held_tasks_def split: list.splits option.splits\<close>)
next
  case (13 res q M)
  then show ?case by (blast intro: retry_inv_settle)
next
  case 21
  then show ?case
    by (auto simp: retry_inv_def shutdown_drain_queue_def held_tasks_def dest: reply_ok_reject_all)
qed (rule retry_inv_frame [where s = s]; simp add: pool_ops Let_def held_tasks_def split: if_splits; blast?)+

interpretation retry: inductive_invariant pool_new "pool_step cfg" "\<lambda>_. True" "retry_inv cfg" for cfg
  by unfold_locales (auto intro: retry_inv_init retry_inv_step)

subsection \<open>Agent ids are unique\<close>

definition ids_inv :: "pool_state \<Rightarrow> bool" where
  "ids_inv s \<longleftrightarrow> distinct (agent_ids s)"

lemma ids_inv_init: "ids_inv pool_new"
  by (simp add: ids_inv_def pool_new_def)

lemma ids_inv_frame:
  assumes "wf_pool s" and "ids_inv s" and "agents t = agents s"
    and "\<And>r. r < length (cells s) \<Longrightarrow> agent_id (cells t ! r) = agent_id (cells s ! r)"
  shows "ids_inv t"
proof -
  have "agent_ids t = agent_ids s" using assms by (simp add: wf_agents)
  with assms(2) show ?thesis by (simp add: ids_inv_def)
qed

lemma ids_inv_add_agent: "wf_pool s \<Longrightarrow> ids_inv s \<Longrightarrow> ids_inv (add_agent i path now s)"
proof (cases "i \<in> set (agent_ids s)")
  case False
  assume wf: "wf_pool s" and inv: "ids_inv s"
  from False have "agent_ids (add_agent i path now s) = agent_ids s @ [i]"
    using wf by (simp add: add_agent_def nth_append wf_agents fresh_handle_def)
  with False inv show ?thesis by (simp only: ids_inv_def) simp
qed (simp add: add_agent_def)

lemma ids_inv_step: "wf_pool s \<Longrightarrow> ids_inv s \<Longrightarrow> pool_step cfg s t \<Longrightarrow> ids_inv t"
proof (rule pool_step_preserves, assumption+, goal_cases)
  case (1 task)
  with submit_enter_Inr [OF 1(4)] show ?case by (simp add: ids_inv_def)
next
  case (3 i path now)
  then show ?case by (simp add: ids_inv_add_agent)
next
  case (5 r)
  then show ?case by (simp add: ids_inv_def distinct_map inj_on_def)
next
  case 7
  then show ?case by (simp add: ids_inv_def dispatch_check_def split: list.splits option.splits)
next
  case (19 rs)
  then show ?case by (simp add: ids_inv_def drain_remove_def destroy_agents_def Let_def distinct_map_filter)
next
  case 23
  then show ?case by (simp add: ids_inv_def shutdown_clear_def)
qed (rule ids_inv_frame [where s = s]; simp add: pool_ops Let_def nth_update_if split: if_splits sum.splits)+

interpretation ids: inductive_invariant pool_new "pool_step cfg" wf_pool ids_inv for cfg
  by unfold_locales (auto intro: wf.inv_reach ids_inv_init ids_inv_step)

subsection \<open>No wake-up is lost\<close>

text \<open>A wake-up is on its way to the dispatcher: a stored permit, a signal, or a task about to notify.\<close>

fun notify_due :: "execution \<Rightarrow> bool" where
  "notify_due (Returned due _ _) = due"
| "notify_due _ = False"

definition wake_pending :: "pool_state \<Rightarrow> bool" where
  "wake_pending s \<longleftrightarrow> agent_available s \<or> 0 < task_signals s \<or> (\<exists>e \<in># executions s. notify_due e)"

definition wake_inv :: "pool_config \<Rightarrow> pool_state \<Rightarrow> bool" where
  "wake_inv cfg s \<longleftrightarrow>
     (dispatcher s = AwaitingSignal \<and> task_queue s \<noteq> [] \<longrightarrow> 0 < task_signals s) \<and>
     (dispatcher s = AwaitingAgent \<and> \<not> wake_pending s \<longrightarrow>
        (\<forall>r \<in> set (agents s). dispatchable cfg (cells s ! r) \<longrightarrow> active_tasks (cells s ! r) \<noteq> 0))"

lemma wake_inv_init: "wake_inv cfg pool_new"
  by (simp add: wake_inv_def pool_new_def)

lemma wake_inv_busy: "dispatcher s = AtLoopHead \<or> (\<exists>r q. dispatcher s = Chosen r q) \<Longrightarrow> wake_inv cfg s"
  by (auto simp: wake_inv_def)

text \<open>A step that adds no agent to choose from and takes no wake-up away keeps the invariant.\<close>

lemma wake_inv_frame:
  assumes "wake_inv cfg s" and "dispatcher t = dispatcher s" and "task_signals s \<le> task_signals t"
    and "task_queue t \<noteq> [] \<Longrightarrow> task_queue s \<noteq> [] \<or> task_signals s < task_signals t"
    and "wake_pending s \<Longrightarrow> wake_pending t"
    and "\<And>r. \<not> wake_pending t \<Longrightarrow> r \<in> set (agents t) \<Longrightarrow> dispatchable cfg (cells t ! r) \<Longrightarrow> active_tasks (cells t ! r) = 0 \<Longrightarrow>
           r \<in> set (agents s) \<and> dispatchable cfg (cells s ! r) \<and> active_tasks (cells s ! r) = 0"
  shows "wake_inv cfg t"
  unfolding wake_inv_def
proof (intro conjI impI ballI)
  assume "dispatcher t = AwaitingSignal \<and> task_queue t \<noteq> []"
  with assms(1-4) show "0 < task_signals t" by (auto simp: wake_inv_def)
next
  fix r
  assume t: "dispatcher t = AwaitingAgent \<and> \<not> wake_pending t" and r: "r \<in> set (agents t)" "dispatchable cfg (cells t ! r)"
  show "active_tasks (cells t ! r) \<noteq> 0"
  proof
    assume "active_tasks (cells t ! r) = 0"
    from assms(6) [OF conjunct2 [OF t] r this] assms(1,2,5) t show False by (auto simp: wake_inv_def)
  qed
qed

lemma wake_inv_release:
  assumes wf: "wf_pool s" and inv: "wake_inv cfg s" and e: "executions s = add_mset (Executing r q) M"
  shows "wake_inv cfg (exec_release r res q M s)"
proof (rule wake_inv_frame [OF inv])
  let ?t = "exec_release r res q M s"
  have r: "r < length (cells s)" using wf e by (auto intro: wf_executing)
  fix r'
  assume np: "\<not> wake_pending ?t" and a: "r' \<in> set (agents ?t)" "dispatchable cfg (cells ?t ! r')" "active_tasks (cells ?t ! r') = 0"
  have "active_tasks (cells s ! r) \<noteq> 1"
    using np by (auto simp: wake_pending_def exec_release_def)
  with a r have "r' \<noteq> r" by (auto simp: exec_release_def)
  with a show "r' \<in> set (agents s) \<and> dispatchable cfg (cells s ! r') \<and> active_tasks (cells s ! r') = 0"
    by (simp add: exec_release_def)
qed (use e in \<open>auto simp: exec_release_def wake_pending_def\<close>)

lemma wake_inv_apply_health:
  assumes wf: "wf_pool s" and inv: "wake_inv cfg s" and p: "probed s = add_mset (r, h) N"
  shows "wake_inv cfg (apply_health r h N s)"
proof -
  have r: "r < length (cells s)" using wf_probed [OF wf, of r h] p by simp
  show ?thesis
    by (rule wake_inv_frame [OF inv])
       (use r wf_agents [OF wf] in \<open>auto simp: apply_health_def Let_def wake_pending_def nth_update_if dispatchable_def split: if_splits\<close>)
qed

lemma wake_inv_step: "wf_pool s \<Longrightarrow> wake_inv cfg s \<Longrightarrow> pool_step cfg s t \<Longrightarrow> wake_inv cfg t"
proof (rule pool_step_preserves, assumption+, goal_cases)
  case (1 task)
  show ?case
    by (rule wake_inv_frame [OF 1(2)]) (use submit_enter_Inr [OF 1(4)] in \<open>simp_all add: wake_pending_def\<close>)
next
  case (3 i path now)
  show ?case
    by (cases "i \<in> set (agent_ids s)")
       (use 3(2) in \<open>auto simp: add_agent_def wake_pending_def wake_inv_def\<close>)
next
  case 7
  then show ?case
    by (auto simp: wake_inv_def dispatch_check_def split: list.splits option.splits dest: choose_agent_None)
next
  case (11 r q M res)
  then show ?case by (simp add: wake_inv_release)
next
  case (12 due res q M)
  show ?case
    by (rule wake_inv_frame [OF 12(2)]) (use 12(4) in \<open>auto simp: exec_notify_def wake_pending_def\<close>)
next
  case (13 res q M)
  show ?case
    by (rule wake_inv_frame [OF 13(2)]) (use 13(4) in \<open>auto simp: exec_settle_def wake_pending_def split: sum.splits if_splits\<close>)
next
  case (16 r h N)
  then show ?case by (simp add: wake_inv_apply_health)
next
  case 22
  show ?case
    by (rule wake_inv_frame [OF 22(2)])
       (use wf_agents [OF 22(1)] in \<open>auto simp: shutdown_mark_agents_def wake_pending_def dispatchable_def\<close>)
qed ((rule wake_inv_busy, simp add: pool_ops; fail) |
     (rule wake_inv_frame [where s = s];
        auto simp: pool_ops Let_def wake_pending_def nth_update_if dispatchable_def wf_agents
             split: if_splits dest: subsetD [OF set_remove1_subset]))+

interpretation wake: inductive_invariant pool_new "pool_step cfg" wf_pool "wake_inv cfg" for cfg
  by unfold_locales (auto intro: wf.inv_reach wake_inv_init wake_inv_step)

end
