(* ===== verification/Pool_Properties.thy ===== *)
theory Pool_Properties
  imports Pool_Invariants
begin

text \<open>
  What the pool guarantees in every reachable state, under every interleaving, and the scenarios in
  which it does less than one would expect.
\<close>

subsection \<open>Uninterrupted runs\<close>

text \<open>A whole \<open>submit\<close> and a whole turn of the dispatcher, with nothing in between.\<close>

definition submit_now :: "pool_config \<Rightarrow> verdict_task \<Rightarrow> pool_state \<Rightarrow> pool_state" where
  "submit_now cfg task s =
     (case submit_enter task s of
        Inl _ \<Rightarrow> s
      | Inr t \<Rightarrow>
          submit_enqueue cfg \<lparr>queued_frame_id = next_frame_id s, queued_task = task, retries = 0,
                              result_tx = next_channel s\<rparr> (entering s) t)"

definition dispatch_now :: "pool_config \<Rightarrow> pool_state \<Rightarrow> pool_state" where
  "dispatch_now cfg s =
     (let t = dispatch_check cfg s
      in case dispatcher t of Chosen r q \<Rightarrow> dispatch_spawn r q t | _ \<Rightarrow> t)"

lemma reach_submit_now: "pool_reach cfg s \<Longrightarrow> pool_reach cfg (submit_now cfg task s)"
proof (cases "pool_shutting_down s")
  case True
  assume "pool_reach cfg s" with True show ?thesis by (simp add: submit_now_def submit_enter_def)
next
  case False
  assume r: "pool_reach cfg s"
  from False obtain t where t: "submit_enter task s = Inr t" by (simp add: submit_enter_def)
  have "pool_reach cfg t" by (rule reach_step [OF r step_submit_enter [OF t]])
  moreover have "entering t = add_mset \<lparr>queued_frame_id = next_frame_id s, queued_task = task, retries = 0,
                              result_tx = next_channel s\<rparr> (entering s)"
    using submit_enter_Inr [OF t] by simp
  ultimately have "pool_reach cfg (submit_enqueue cfg \<lparr>queued_frame_id = next_frame_id s, queued_task = task, retries = 0,
                              result_tx = next_channel s\<rparr> (entering s) t)"
    by (blast intro: reach_step step_submit_enqueue)
  then show ?thesis by (simp add: submit_now_def t)
qed

lemma reach_dispatch_now:
  assumes "pool_reach cfg s" and "dispatcher s = AtLoopHead"
  shows "pool_reach cfg (dispatch_now cfg s)"
proof -
  have c: "pool_reach cfg (dispatch_check cfg s)" using assms by (blast intro: reach_step step_check)
  then show ?thesis
    by (cases "dispatcher (dispatch_check cfg s)")
       (auto simp: dispatch_now_def Let_def intro: reach_step step_spawn)
qed

lemma reach_add_agent: "pool_reach cfg s \<Longrightarrow> pool_reach cfg (add_agent i path now s)"
  using reach_step [of pool_new "pool_step cfg" s "add_agent i path now s"]
    step_create_agent [of cfg s "Inr (i, path)" now] by (simp add: create_agent_def)

text \<open>A finished task: released, notified and settled without interruption.\<close>

definition finish_now :: "pool_config \<Rightarrow> nat \<Rightarrow> task_reply \<Rightarrow> queued_task \<Rightarrow> execution multiset \<Rightarrow> pool_state \<Rightarrow> pool_state" where
  "finish_now cfg r res q M s =
     exec_settle cfg res q M (exec_notify (active_tasks (cells s ! r) = 1) res q M (exec_release r res q M s))"

lemma reach_finish_now:
  assumes "pool_reach cfg s" and "executions s = add_mset (Executing r q) M"
  shows "pool_reach cfg (finish_now cfg r res q M s)"
proof -
  let ?s1 = "exec_release r res q M s" and ?due = "active_tasks (cells s ! r) = 1"
  let ?s2 = "exec_notify ?due res q M ?s1"
  have "pool_reach cfg ?s1" by (rule reach_step [OF assms(1) step_release [OF assms(2)]])
  then have "pool_reach cfg ?s2"
    by (rule reach_step) (rule step_notify, simp add: exec_release_def)
  then show ?thesis
    unfolding finish_now_def by (rule reach_step) (rule step_settle, simp add: exec_notify_def)
qed

lemma reach_signal:
  "pool_reach cfg s \<Longrightarrow> dispatcher s = AwaitingSignal \<or> dispatcher s = AwaitingAgent \<Longrightarrow> 0 < task_signals s \<Longrightarrow>
   pool_reach cfg (receive_signal s)"
  by (blast intro: reach_step step_signal)

lemma reach_notified:
  "pool_reach cfg s \<Longrightarrow> dispatcher s = AwaitingAgent \<Longrightarrow> agent_available s \<Longrightarrow> pool_reach cfg (receive_notification s)"
  by (blast intro: reach_step step_notified)

lemmas run_defs =
  submit_now_def submit_enter_def submit_enqueue_def dispatch_now_def dispatch_check_def dispatch_spawn_def
  choose_agent_def dispatchable_def add_agent_def fresh_handle_def receive_signal_def receive_notification_def
  finish_now_def exec_release_def exec_notify_def exec_settle_def update_cell_def Let_def pool_new_def

lemmas run_intros = reach_init reach_submit_now reach_dispatch_now reach_add_agent reach_finish_now reach_signal
  reach_notified

subsection \<open>A concrete pool\<close>

definition demo_cfg :: pool_config where
  "demo_cfg = \<lparr>max_queue_size = 4, max_retries = 1, task_timeout = from_secs 30, health_check_interval = from_secs 5,
     health_check_failure_threshold = 1, max_concurrent_per_agent = 2, drain_check_interval_secs = 5\<rparr>"

definition demo_task :: verdict_task where
  "demo_task = \<lparr>task_source = ''s'', task_cases = [], task_limits = \<lparr>limit_cpu_time_ms = 1, limit_wall_time_ms = 1,
     limit_memory_bytes = 1, limit_output_bytes = 1\<rparr>, task_language = Cpp, stop_on_first_error = True\<rparr>"

definition demo_queued :: "nat \<Rightarrow> queued_task" where
  "demo_queued n = \<lparr>queued_frame_id = of_nat (Suc n), queued_task = demo_task, retries = 0, result_tx = n\<rparr>"

text \<open>One agent, one task running on it.\<close>

definition demo_running :: pool_state where
  "demo_running = dispatch_now demo_cfg (submit_now demo_cfg demo_task (add_agent ''a'' ''p'' 0 pool_new))"

lemma demo_running_eq:
  "demo_running =
     \<lparr>cells = [(fresh_handle ''a'' ''p'' 0)\<lparr>active_tasks := 1\<rparr>], agents = [0], task_queue = [], next_frame_id = 2,
      task_signals = 1, agent_available = True, pool_shutting_down = False, next_channel = 1,
      replies = Map.empty, entering = {#}, dispatcher = AtLoopHead, executions = {#Executing 0 (demo_queued 0)#},
      probing = {#}, probed = {#}, drain = DrainIdle, shutdown_at = NotShutDown, destroyed = []\<rparr>"
  by (simp add: demo_running_def demo_queued_def demo_cfg_def run_defs)

lemma demo_running_reach: "pool_reach demo_cfg demo_running"
  unfolding demo_running_def by (intro run_intros) (simp add: run_defs demo_cfg_def)


lemma choose_agent_least:
  "choose_agent cfg s = Some r \<Longrightarrow> r' \<in> set (agents s) \<Longrightarrow> dispatchable cfg (cells s ! r') \<Longrightarrow>
   active_tasks (cells s ! r) \<le> active_tasks (cells s ! r')"
  by (auto simp: choose_agent_def dest!: min_by_key_least)

lemma reply_ok_cases:
  "reply_ok cfg v \<Longrightarrow>
   (\<exists>result. v = Inr result) \<or> v = Inl QueueFull \<or> v = Inl ShuttingDown \<or> v = Inl (MaxRetriesExceeded (max_retries cfg))"
  by (cases "(cfg, v)" rule: reply_ok.cases) auto

subsection \<open>Answers are final\<close>

lemma answered_not_held:
  assumes "ticket_inv s" and "replies s c = Some v" and "q \<in># held_tasks s"
  shows "result_tx q \<noteq> c"
proof
  assume "result_tx q = c"
  with assms(3) have "c \<in># tickets s" by (auto simp: tickets_def)
  then have "0 < count (tickets s) c" by simp
  then show False using assms(1,2) by (auto simp: ticket_inv_def dest!: spec [where x = c] split: if_splits)
qed

lemma replies_kept:
  "ticket_inv s \<Longrightarrow> replies s c = Some v \<Longrightarrow> pool_step cfg s t \<Longrightarrow> replies t c = Some v"
proof (rule pool_step_preserves [where P = "\<lambda>u. replies u c = Some v"], assumption+, goal_cases)
  case (1 task)
  then show ?case by (auto dest: submit_enter_Inr)
next
  case (2 q M)
  then show ?case using answered_not_held [of s c v q] by (auto simp: submit_enqueue_def held_tasks_def)
next
  case (13 res q M)
  then show ?case
    using answered_not_held [of s c v q] by (auto simp: exec_settle_def held_tasks_def split: sum.splits)
next
  case 21
  then show ?case
    using answered_not_held [of s c v] by (auto simp: shutdown_drain_queue_def reject_all_apply held_tasks_def)
qed (auto simp: pool_ops Let_def dispatch_check_def split: list.splits option.splits)

subsection \<open>The number of attempts\<close>

text \<open>The attempts the held tasks have left; a running one has used up the attempt it is in.\<close>

definition attempts_left :: "pool_config \<Rightarrow> queued_task \<Rightarrow> nat" where
  "attempts_left cfg q = unat (max_retries cfg) - unat (retries q)"

definition attempt_budget :: "pool_config \<Rightarrow> pool_state \<Rightarrow> nat" where
  "attempt_budget cfg s =
     (\<Sum>q\<in>#held_tasks s. attempts_left cfg q) +
     size (entering s) + length (task_queue s) + length (chosen_tasks (dispatcher s))"

text \<open>The state after \<open>n\<close> started executions.\<close>

inductive started :: "pool_config \<Rightarrow> nat \<Rightarrow> pool_state \<Rightarrow> bool" for cfg where
  started_init: "started cfg 0 pool_new"
| started_step: "started cfg n s \<Longrightarrow> pool_step cfg s t \<Longrightarrow>
    started cfg (n + (size (executions t) - size (executions s))) t"

lemma started_reach: "started cfg n s \<Longrightarrow> pool_reach cfg s"
  by (induction rule: started.induct) (auto intro: reach_init reach_step)

text \<open>One step: what it starts and keeps is paid for by the budget and by new submissions.\<close>

definition budget_ok :: "pool_config \<Rightarrow> pool_state \<Rightarrow> pool_state \<Rightarrow> bool" where
  "budget_ok cfg s t \<longleftrightarrow>
     attempt_budget cfg t + (size (executions t) - size (executions s)) + next_channel s * (unat (max_retries cfg) + 1)
     \<le> attempt_budget cfg s + next_channel t * (unat (max_retries cfg) + 1)"

lemma budget_frame:
  assumes "entering t = entering s" and "task_queue t = task_queue s"
    and "chosen_tasks (dispatcher t) = chosen_tasks (dispatcher s)" and "executions t = executions s"
    and "next_channel t = next_channel s"
  shows "budget_ok cfg s t"
  using assms by (simp add: budget_ok_def attempt_budget_def held_tasks_def)

lemma budget_settle:
  assumes "retry_inv cfg s" and "executions s = add_mset (Settling res q) M"
  shows "budget_ok cfg s (exec_settle cfg res q M s)"
proof (cases "\<exists>e. res = Inl e \<and> retries q < max_retries cfg")
  case True
  then obtain e where res: "res = Inl e" and lt: "retries q < max_retries cfg" by blast
  have "unat (retries q + 1) = Suc (unat (retries q))" using lt by (simp add: unat_suc_less)
  moreover have "unat (retries q) < unat (max_retries cfg)" using lt by (simp add: word_less_nat_alt)
  ultimately show ?thesis
    using assms(2) lt res
    by (simp add: budget_ok_def exec_settle_def attempt_budget_def held_tasks_def attempts_left_def)
next
  case False
  then show ?thesis
    using assms(2)
    by (cases res) (auto simp: budget_ok_def exec_settle_def attempt_budget_def held_tasks_def)
qed

lemma budget_step: "retry_inv cfg s \<Longrightarrow> pool_step cfg s t \<Longrightarrow> budget_ok cfg s t"
proof (rule pool_step_preserves [where P = "budget_ok cfg s"], assumption, goal_cases)
  case 1
  then show ?case by (simp add: budget_ok_def)
next
  case (2 task)
  then show ?case
    by (auto dest!: submit_enter_Inr simp: budget_ok_def attempt_budget_def held_tasks_def attempts_left_def)
next
  case (3 q M)
  then show ?case by (auto simp: budget_ok_def attempt_budget_def held_tasks_def submit_enqueue_def)
next
  case 8
  then show ?case
    by (auto simp: budget_ok_def attempt_budget_def held_tasks_def dispatch_check_def split: list.splits option.splits)
next
  case (14 res q M)
  then show ?case by (simp add: budget_settle)
qed (rule budget_frame; simp add: pool_ops Let_def; fail |
     auto simp: budget_ok_def attempt_budget_def held_tasks_def pool_ops; fail)+

lemma started_budget:
  "started cfg n s \<Longrightarrow> n + attempt_budget cfg s \<le> next_channel s * (unat (max_retries cfg) + 1)"
proof (induction rule: started.induct)
  case started_init
  then show ?case by (simp add: attempt_budget_def held_tasks_def pool_new_def)
next
  case (started_step n s t)
  then have "retry_inv cfg s" by (blast intro: retry.inv_reach started_reach)
  from budget_step [OF this started_step.hyps(2)] started_step.IH show ?case
    by (simp add: budget_ok_def)
qed


lemma started_all: "pool_reach cfg s \<Longrightarrow> \<exists>n. started cfg n s \<and> size (executions s) \<le> n"
proof (induction rule: reach.induct)
  case reach_init
  have "size (executions pool_new) \<le> 0" by (simp add: pool_new_def)
  then show ?case using started_init by blast
next
  case (reach_step s t)
  then obtain n where "started cfg n s" "size (executions s) \<le> n" by blast
  with started_step [OF this(1) reach_step.hyps(2)] show ?case
    by (intro exI [of _ "n + (size (executions t) - size (executions s))"]) simp
qed

subsection \<open>The shutdown flag\<close>

definition flag_inv :: "pool_state \<Rightarrow> bool" where
  "flag_inv s \<longleftrightarrow> (pool_shutting_down s \<longleftrightarrow> shutdown_at s \<noteq> NotShutDown)"

lemma flag_inv_step:
  assumes "pool_step cfg s t" and "flag_inv s"
  shows "flag_inv t"
  using assms(1)
  by cases (use assms(2) in \<open>auto simp: flag_inv_def pool_ops Let_def create_agent_def remove_agent_def
       shutdown_agent_def dispatch_check_def dest: submit_enter_Inr
     split: sum.splits option.splits list.splits\<close>)

lemma flag_inv_init: "flag_inv pool_new"
  by (simp add: flag_inv_def pool_new_def)

interpretation flag: inductive_invariant pool_new "pool_step cfg" "\<lambda>_. True" flag_inv for cfg
  by unfold_locales (auto intro: flag_inv_init flag_inv_step)

subsection \<open>Discovery\<close>

lemma discover_fold:
  assumes "distinct ids" and "set ids \<inter> set (agent_ids s) = {}" and "wf_pool s"
  shows "agent_ids (fold (discover_one alive now) ids s) = agent_ids s @ filter alive ids \<and>
    destroyed (fold (discover_one alive now) ids s) = destroyed s @ filter (\<lambda>i. \<not> alive i) ids"
  using assms
proof (induction ids arbitrary: s)
  case Nil
  then show ?case by simp
next
  case (Cons i ids)
  let ?t = "discover_one alive now i s"
  have wf: "wf_pool ?t" using Cons.prems(3) by (blast intro: wf_pool_step step_discover)
  have old: "map (\<lambda>r. agent_id (cells ?t ! r)) (agents s) = agent_ids s"
    using wf_agents [OF Cons.prems(3)] by (auto simp: discover_one_def add_agent_def destroy_agents_def nth_append)
  have "agent_ids ?t = agent_ids s @ (if alive i then [i] else [])"
    using Cons.prems(2) old by (auto simp: discover_one_def add_agent_def destroy_agents_def fresh_handle_def)
  moreover have "destroyed ?t = destroyed s @ (if alive i then [] else [i])"
    using Cons.prems(2) by (auto simp: discover_one_def add_agent_def destroy_agents_def)
  moreover have "set ids \<inter> set (agent_ids ?t) = {}" using Cons.prems(1,2) calculation by auto
  ultimately show ?case using Cons.IH [of ?t] Cons.prems(1) wf by auto
qed

subsection \<open>Scenarios\<close>

text \<open>Two tasks run on the only agent, a third waits; then one of the two finishes.\<close>

definition demo_full :: pool_state where
  "demo_full =
     dispatch_now demo_cfg (submit_now demo_cfg demo_task
       (dispatch_now demo_cfg (submit_now demo_cfg demo_task demo_running)))"

definition demo_asleep :: pool_state where
  "demo_asleep =
     dispatch_now demo_cfg (receive_notification (dispatch_now demo_cfg (receive_signal
       (dispatch_now demo_cfg (receive_signal (dispatch_now demo_cfg (receive_signal demo_full)))))))"

definition demo_spare :: pool_state where
  "demo_spare =
     finish_now demo_cfg 0 (Inr (Collected [])) (demo_queued 0) {#Executing 0 (demo_queued 1)#} demo_asleep"

lemma demo_full_eq:
  "demo_full =
     \<lparr>cells = [(fresh_handle ''a'' ''p'' 0)\<lparr>active_tasks := 2\<rparr>], agents = [0], task_queue = [demo_queued 2],
      next_frame_id = 4, task_signals = 3, agent_available = True, pool_shutting_down = False, next_channel = 3,
      replies = Map.empty, entering = {#}, dispatcher = AwaitingAgent,
      executions = {#Executing 0 (demo_queued 0), Executing 0 (demo_queued 1)#},
      probing = {#}, probed = {#}, drain = DrainIdle, shutdown_at = NotShutDown, destroyed = []\<rparr>"
  by (simp add: demo_full_def demo_running_eq demo_queued_def demo_cfg_def run_defs)

lemma demo_asleep_eq: "demo_asleep = demo_full\<lparr>task_signals := 0, agent_available := False\<rparr>"
  by (simp add: demo_asleep_def demo_full_eq demo_cfg_def run_defs)

lemma demo_full_reach: "pool_reach demo_cfg demo_full"
  unfolding demo_full_def
  by (intro run_intros demo_running_reach) (simp_all add: demo_running_eq run_defs demo_cfg_def)

lemma demo_asleep_reach: "pool_reach demo_cfg demo_asleep"
  unfolding demo_asleep_def
  by (intro run_intros demo_full_reach) (simp_all add: demo_full_eq run_defs demo_cfg_def)

lemma demo_spare_reach: "pool_reach demo_cfg demo_spare"
  unfolding demo_spare_def
  by (rule reach_finish_now [OF demo_asleep_reach]) (simp add: demo_asleep_eq demo_full_eq)


text \<open>
  A healthy idle agent is chosen for a task; before the task is counted on it, it is marked for
  shutdown and the drain loop removes and destroys it.
\<close>

definition demo_chosen :: pool_state where
  "demo_chosen = dispatch_check demo_cfg (submit_now demo_cfg demo_task (add_agent ''a'' ''p'' 0 pool_new))"

definition demo_raced :: pool_state where
  "demo_raced =
     (let s1 = snd (shutdown_agent ''a'' demo_chosen); s2 = drain_select [0] (drain_tick s1)
      in dispatch_spawn 0 (demo_queued 0) (drain_remove [0] s2))"

lemma demo_chosen_eq:
  "demo_chosen = demo_running\<lparr>cells := [fresh_handle ''a'' ''p'' 0], executions := {#}, dispatcher := Chosen 0 (demo_queued 0)\<rparr>"
  by (simp add: demo_chosen_def demo_running_eq demo_queued_def demo_cfg_def run_defs)

lemma demo_chosen_reach: "pool_reach demo_cfg demo_chosen"
proof -
  have "pool_reach demo_cfg (submit_now demo_cfg demo_task (add_agent ''a'' ''p'' 0 pool_new))" by (intro run_intros)
  then show ?thesis unfolding demo_chosen_def
    by (rule reach_step) (rule step_check, simp add: run_defs demo_cfg_def)
qed

lemma demo_raced_reach: "pool_reach demo_cfg demo_raced"
proof -
  let ?s1 = "snd (shutdown_agent ''a'' demo_chosen)"
  note eval = demo_chosen_eq demo_running_eq shutdown_agent_def find_agent_def fresh_handle_def drain_tick_def
    drain_select_def drain_candidate_def drain_remove_def destroy_agents_def Let_def
  have "pool_reach demo_cfg ?s1" by (rule reach_step [OF demo_chosen_reach step_shutdown_agent])
  then have "pool_reach demo_cfg (drain_tick ?s1)"
    by (rule reach_step) (rule step_drain_tick, simp add: eval)
  then have "pool_reach demo_cfg (drain_select [0] (drain_tick ?s1))"
    by (rule reach_step) (rule step_drain_select, simp add: eval)
  then have "pool_reach demo_cfg (drain_remove [0] (drain_select [0] (drain_tick ?s1)))"
    by (rule reach_step) (rule step_drain_remove, simp add: eval)
  then show ?thesis unfolding demo_raced_def Let_def
    by (rule reach_step) (rule step_spawn, simp add: eval)
qed

text \<open>
  A shutdown during which a \<open>submit\<close> that had passed the check is still on its way to the queue and
  the autoscaler adds an agent after the agents were listed.
\<close>

definition demo_entered :: pool_state where
  "demo_entered = pool_new\<lparr>next_frame_id := 2, next_channel := 1, entering := {#demo_queued 0#}\<rparr>"

definition demo_down :: pool_state where
  "demo_down =
     (let s1 = shutdown_mark_agents (shutdown_drain_queue (shutdown_begin demo_entered));
          s2 = add_agent ''b'' ''p'' 0 s1;
          s3 = shutdown_destroy [] (shutdown_clear [] s2)
      in submit_enqueue demo_cfg (demo_queued 0) {#} s3)"

lemma demo_down_reach: "pool_reach demo_cfg demo_down"
proof -
  let ?a = "shutdown_drain_queue (shutdown_begin demo_entered)"
  let ?s1 = "shutdown_mark_agents ?a"
  let ?s2 = "add_agent ''b'' ''p'' 0 ?s1"
  note eval = demo_entered_def pool_new_def shutdown_begin_def shutdown_drain_queue_def shutdown_mark_agents_def
    mark_agents_def add_agent_def fresh_handle_def shutdown_clear_def shutdown_destroy_def destroy_agents_def
    shutdown_wait_over_def pool_metrics_of_def
  have "pool_reach demo_cfg demo_entered"
    by (rule reach_step [OF reach_init], rule step_submit_enter [of demo_task])
       (simp add: submit_enter_def demo_entered_def pool_new_def demo_queued_def)
  then have "pool_reach demo_cfg (shutdown_begin demo_entered)"
    by (rule reach_step) (rule step_shutdown_begin, simp add: eval)
  then have "pool_reach demo_cfg ?a"
    by (rule reach_step) (rule step_shutdown_drain, simp add: eval)
  then have "pool_reach demo_cfg ?s1"
    by (rule reach_step) (rule step_shutdown_mark, simp add: eval)
  then have "pool_reach demo_cfg ?s2" by (rule reach_add_agent)
  then have "pool_reach demo_cfg (shutdown_clear [] ?s2)"
    by (rule reach_step) (rule step_shutdown_clear, simp_all add: eval)
  then have "pool_reach demo_cfg (shutdown_destroy [] (shutdown_clear [] ?s2))"
    by (rule reach_step) (rule step_shutdown_destroy, simp add: eval)
  then show ?thesis unfolding demo_down_def Let_def
    by (rule reach_step) (rule step_submit_enqueue, simp add: eval)
qed

lemma demo_down_eq:
  "demo_down =
     \<lparr>cells = [fresh_handle ''b'' ''p'' 0], agents = [], task_queue = [demo_queued 0], next_frame_id = 2,
      task_signals = 1, agent_available = True, pool_shutting_down = True, next_channel = 1,
      replies = Map.empty, entering = {#}, dispatcher = AtLoopHead, executions = {#},
      probing = {#}, probed = {#}, drain = DrainIdle, shutdown_at = ShutdownComplete, destroyed = []\<rparr>"
  by (simp add: demo_down_def submit_enqueue_def shutdown_destroy_def shutdown_clear_def shutdown_mark_agents_def
        add_agent_def shutdown_drain_queue_def shutdown_begin_def destroy_agents_def demo_entered_def
        mark_agents_def pool_new_def demo_cfg_def Let_def)

subsection \<open>Properties\<close>

text \<open>C4. The load counter of every agent handle the pool ever created (\<open>active_tasks\<close>) is exactly the number
  of executions running on it, under every interleaving of submissions, dispatching, completions,
  health checks, draining and shutdown; so it neither underflows nor exceeds
  \<open>max_concurrent_per_agent\<close>.\<close>
theorem pool_load_exact:
  "pool_reach cfg s \<Longrightarrow> r < length (cells s) \<Longrightarrow>
   unat (active_tasks (cells s ! r)) = running_on s r \<and> active_tasks (cells s ! r) \<le> max_concurrent_per_agent cfg"
  using load.inv_reach [of cfg s] by (simp add: load_inv_def)

theorem pool_load_exact_witness:
  "unat (active_tasks (cells demo_full ! 0)) = running_on demo_full 0 \<and>
   active_tasks (cells demo_full ! 0) \<le> max_concurrent_per_agent demo_cfg"
  by (rule pool_load_exact [OF demo_full_reach]) (simp add: demo_full_eq)

text \<open>C2. Every submission is in exactly one place: either its caller has been answered and the pool
  holds no copy of the task, or exactly one copy is being submitted, queued, chosen or executing.  And
  an answer, once given, is never changed by a later step.\<close>
theorem submission_exactly_once:
  "pool_reach cfg s \<Longrightarrow> c < next_channel s \<Longrightarrow>
   count (tickets s) c = (if replies s c = None then 1 else 0) \<and>
   (\<forall>t v. pool_step cfg s t \<longrightarrow> replies s c = Some v \<longrightarrow> replies t c = Some v)"
proof -
  assume "pool_reach cfg s" and c: "c < next_channel s"
  then have inv: "ticket_inv s" by (blast intro: ticket.inv_reach)
  then have "count (tickets s) c + (if replies s c = None then 0 else 1) = 1"
    using c by (simp add: ticket_inv_def)
  then have "count (tickets s) c = (if replies s c = None then 1 else 0)" by (cases "replies s c") simp_all
  then show ?thesis by (blast intro: replies_kept [OF inv])
qed

theorem submission_exactly_once_witness:
  "count (tickets demo_spare) 0 = 0 \<and> replies (health_tick demo_spare) 0 = Some (Inr (Collected []))"
proof -
  have r: "replies demo_spare 0 = Some (Inr (Collected []))" and n: "next_channel demo_spare = 3"
    and p: "probing demo_spare = {#}" "probed demo_spare = {#}"
    by (simp_all add: demo_spare_def demo_asleep_eq demo_full_eq demo_queued_def run_defs)
  from submission_exactly_once [OF demo_spare_reach, of 0] r n
    step_health_tick [OF p, of demo_cfg]
  show ?thesis by auto
qed

text \<open>\<open>submit\<close> answers its caller only with the task's result, \<open>QueueFull\<close>, \<open>ShuttingDown\<close>, or
  \<open>MaxRetriesExceeded\<close> carrying exactly the configured number of retries: the errors of a single
  attempt (timeout, connection, protocol) never reach the caller.\<close>
theorem submit_reply_kinds:
  "pool_reach cfg s \<Longrightarrow> replies s c = Some v \<Longrightarrow>
   (\<exists>result. v = Inr result) \<or> v = Inl QueueFull \<or> v = Inl ShuttingDown \<or> v = Inl (MaxRetriesExceeded (max_retries cfg))"
  by (rule reply_ok_cases) (use retry.inv_reach [of cfg s] in \<open>simp add: retry_inv_def ranI\<close>)

text \<open>C18. The pool starts at most \<open>max_retries + 1\<close> executions per submission, whatever fails, so a
  run with finitely many submissions starts finitely many executions.\<close>
theorem executions_bounded:
  "started cfg n s \<Longrightarrow> n \<le> next_channel s * (unat (max_retries cfg) + 1)"
  using started_budget [of cfg n s] by simp

theorem executions_bounded_witness:
  "\<exists>n. started demo_cfg n demo_full \<and> 2 \<le> n \<and> n \<le> next_channel demo_full * (unat (max_retries demo_cfg) + 1)"
proof -
  from started_all [OF demo_full_reach] obtain n where "started demo_cfg n demo_full" "size (executions demo_full) \<le> n" by blast
  with executions_bounded [of demo_cfg n demo_full] show ?thesis by (auto simp: demo_full_eq)
qed

text \<open>No wake-up is lost: the dispatcher never waits for a task signal while a task is queued and
  no signal is stored, and never waits for an agent without a pending notification while an agent
  that may take a task is idle.\<close>
theorem no_lost_wakeup:
  "pool_reach cfg s \<Longrightarrow>
   (dispatcher s = AwaitingSignal \<longrightarrow> task_queue s = [] \<or> 0 < task_signals s) \<and>
   (dispatcher s = AwaitingAgent \<longrightarrow>
      wake_pending s \<or> (\<forall>r \<in> set (agents s). dispatchable cfg (cells s ! r) \<longrightarrow> 0 < running_on s r))"
proof -
  assume r: "pool_reach cfg s"
  have pos: "0 < running_on s x" if "x \<in> set (agents s)" "active_tasks (cells s ! x) \<noteq> 0" for x
  proof -
    have "unat (active_tasks (cells s ! x)) = running_on s x"
      using load.inv_reach [OF r] wf_agents [OF wf.inv_reach [OF r] that(1)] by (simp add: load_inv_def)
    with that(2) show ?thesis by (metis neq0_conv unsigned_eq_0_iff)
  qed
  with wake.inv_reach [OF r] show ?thesis unfolding wake_inv_def by fast
qed

text \<open>With a task at the head of the queue the dispatcher takes exactly that task, for the first
  least-loaded agent among the healthy, not draining agents with room; if there is none it leaves the
  queue alone and waits.\<close>
theorem dispatch_picks_least_loaded:
  "task_queue s = t # q \<Longrightarrow>
   (case dispatcher (dispatch_check cfg s) of
      Chosen r t' \<Rightarrow> t' = t \<and> task_queue (dispatch_check cfg s) = q \<and> r \<in> set (agents s) \<and>
        dispatchable cfg (cells s ! r) \<and>
        (\<forall>r' \<in> set (agents s). dispatchable cfg (cells s ! r') \<longrightarrow> active_tasks (cells s ! r) \<le> active_tasks (cells s ! r'))
    | AwaitingAgent \<Rightarrow> dispatch_check cfg s = s\<lparr>dispatcher := AwaitingAgent\<rparr> \<and>
        (\<forall>r \<in> set (agents s). \<not> dispatchable cfg (cells s ! r))
    | _ \<Rightarrow> False)"
  by (auto simp: dispatch_check_def dest: choose_agent_None choose_agent_Some choose_agent_least split: option.splits)

text \<open>No two agents of the pool have the same id, and all have a valid handle.\<close>
theorem agent_ids_unique:
  "pool_reach cfg s \<Longrightarrow> distinct (agent_ids s) \<and> (\<forall>r \<in> set (agents s). r < length (cells s))"
  using ids.inv_reach [of cfg s] wf_agents [OF wf.inv_reach [of cfg s]] by (simp add: ids_inv_def)

text \<open>After \<open>shutdown\<close> has begun every later \<open>submit\<close> is refused with \<open>ShuttingDown\<close>, in every
  phase of the shutdown and after it.\<close>
theorem submit_refused_after_shutdown:
  "pool_reach cfg s \<Longrightarrow> shutdown_at s \<noteq> NotShutDown \<Longrightarrow> submit_enter task s = Inl ShuttingDown"
  using flag.inv_reach [of cfg s] by (simp add: flag_inv_def submit_enter_def)

text \<open>Discovery at startup keeps the containers that answer the heartbeat, in the order they were
  listed, and destroys exactly the others.\<close>
theorem discovery_keeps_live_agents:
  "pool_reach cfg s \<Longrightarrow> distinct ids \<Longrightarrow> set ids \<inter> set (agent_ids s) = {} \<Longrightarrow>
   (let (res, t) = discover_agents (Inr ids) alive now s
    in res = Inr () \<and> agent_ids t = agent_ids s @ filter alive ids \<and>
       destroyed t = destroyed s @ filter (\<lambda>i. \<not> alive i) ids)"
  using discover_fold [OF _ _ wf.inv_reach] by (simp add: discover_agents_def)

text \<open>A finished task notifies the dispatcher only if it was the last one on its agent: in this
  reachable state the dispatcher waits for an agent, a task is queued, the only agent may take it, and
  nothing is pending that would wake the dispatcher before the agent's other task ends.\<close>
theorem dispatcher_sleeps_with_room:
  "pool_reach demo_cfg demo_spare \<and> dispatcher demo_spare = AwaitingAgent \<and> task_queue demo_spare \<noteq> [] \<and>
   choose_agent demo_cfg demo_spare = Some 0 \<and> \<not> wake_pending demo_spare"
  using demo_spare_reach
  by (simp add: demo_spare_def demo_asleep_eq demo_full_eq wake_pending_def demo_cfg_def run_defs)

text \<open>Between choosing an agent and counting the task on it the locks are released: in this
  reachable state a task runs on a healthy agent whose container the drain loop has destroyed.\<close>
theorem task_runs_on_destroyed_agent:
  "pool_reach demo_cfg demo_raced \<and> Executing 0 (demo_queued 0) \<in># executions demo_raced \<and>
   healthy (cells demo_raced ! 0) \<and> agent_id (cells demo_raced ! 0) \<in> set (destroyed demo_raced)"
  using demo_raced_reach
  by (simp add: demo_raced_def demo_chosen_eq demo_running_eq shutdown_agent_def find_agent_def fresh_handle_def
        drain_tick_def drain_select_def drain_candidate_def drain_remove_def destroy_agents_def dispatch_spawn_def
        update_cell_def Let_def)

text \<open>A complete shutdown can leave both a caller without an answer (its task was queued after the
  queue was emptied, and no agent is left to run it) and an agent that is neither listed nor
  destroyed (it was added after the ids were collected and dropped by clearing the list).\<close>
theorem shutdown_leaves_task_and_agent:
  "pool_reach demo_cfg demo_down \<and> shutdown_at demo_down = ShutdownComplete \<and>
   task_queue demo_down = [demo_queued 0] \<and> replies demo_down 0 = None \<and>
   agents demo_down = [] \<and> agent_id (cells demo_down ! 0) = ''b'' \<and> destroyed demo_down = []"
  using demo_down_reach by (simp add: demo_down_eq fresh_handle_def)

end
