(* ===== verification/Pool_Service.thy ===== *)
theory Pool_Service
  imports Pool_Properties
begin

text \<open>
  The contract of the agent pool (\<open>judge_core_manager/src/pool.rs\<close>): a judging service that remembers which
  task each caller asked it to judge and answers each caller at most once, with a verdict some agent
  reached for that very task or with one of three errors.  The pool, with all its agents, queues, retries
  and interleavings, implements it.
\<close>

subsection \<open>The service\<close>

text \<open>\<open>outcome i task res\<close> says that sending \<open>task\<close> to some agent under frame id \<open>i\<close> can end with \<open>res\<close>.\<close>

type_synonym outcome = "u64 \<Rightarrow> verdict_task \<Rightarrow> task_reply \<Rightarrow> bool"

record judging_service =
  asked :: "nat \<rightharpoonup> verdict_task"
  answers :: "nat \<rightharpoonup> task_reply"

definition no_service :: judging_service where
  "no_service = \<lparr>asked = Map.empty, answers = Map.empty\<rparr>"

fun allowed_answer :: "pool_config \<Rightarrow> outcome \<Rightarrow> verdict_task \<Rightarrow> task_reply \<Rightarrow> bool" where
  "allowed_answer cfg outcome task (Inr v) = (\<exists>i. outcome i task (Inr v))"
| "allowed_answer cfg outcome task (Inl (MaxRetriesExceeded n)) = (n = max_retries cfg \<and> (\<exists>i e. outcome i task (Inl e)))"
| "allowed_answer cfg outcome task (Inl e) = (e = QueueFull \<or> e = ShuttingDown)"

inductive judging_step :: "pool_config \<Rightarrow> outcome \<Rightarrow> judging_service \<Rightarrow> judging_service \<Rightarrow> bool" for cfg outcome where
  judging_ask: "asked a c = None \<Longrightarrow> judging_step cfg outcome a (a\<lparr>asked := (asked a)(c \<mapsto> task)\<rparr>)"
| judging_answer: "asked a c = Some task \<Longrightarrow> answers a c = None \<Longrightarrow> allowed_answer cfg outcome task r \<Longrightarrow>
    judging_step cfg outcome a (a\<lparr>answers := (answers a)(c \<mapsto> r)\<rparr>)"

inductive_cases judging_stepE: "judging_step cfg outcome a b"

subsection \<open>Runs of the pool with their callers\<close>

fun exec_result :: "execution \<Rightarrow> task_reply option" where
  "exec_result (Executing _ _) = None"
| "exec_result (Returned _ res _) = Some res"
| "exec_result (Settling res _) = Some res"

text \<open>Every result that an execution came back with is an outcome of its task.\<close>

definition faithful :: "outcome \<Rightarrow> pool_state \<Rightarrow> bool" where
  "faithful outcome s \<longleftrightarrow>
     (\<forall>e \<in># executions s. \<forall>res. exec_result e = Some res \<longrightarrow>
        outcome (queued_frame_id (exec_task e)) (Pool.queued_task (exec_task e)) res)"

text \<open>The pool and the tasks that were submitted, by the number of the caller's channel.\<close>

inductive call_step ::
  "pool_config \<Rightarrow> outcome \<Rightarrow> (nat \<rightharpoonup> verdict_task) \<times> pool_state \<Rightarrow> (nat \<rightharpoonup> verdict_task) \<times> pool_state \<Rightarrow> bool"
  for cfg outcome where
  call_submit: "submit_enter task s = Inr t \<Longrightarrow> call_step cfg outcome (A, s) (A(next_channel s \<mapsto> task), t)"
| call_other: "pool_step cfg s t \<Longrightarrow> next_channel t = next_channel s \<Longrightarrow> faithful outcome t \<Longrightarrow>
    call_step cfg outcome (A, s) (A, t)"

abbreviation call_reach :: "pool_config \<Rightarrow> outcome \<Rightarrow> (nat \<rightharpoonup> verdict_task) \<times> pool_state \<Rightarrow> bool" where
  "call_reach cfg outcome \<equiv> reach (Map.empty, pool_new) (call_step cfg outcome)"

definition service_view :: "(nat \<rightharpoonup> verdict_task) \<times> pool_state \<Rightarrow> judging_service" where
  "service_view = (\<lambda>(A, s). \<lparr>asked = A, answers = replies s\<rparr>)"

lemma call_step_pool: "call_step cfg outcome x y \<Longrightarrow> pool_step cfg (snd x) (snd y)"
  by (cases rule: call_step.cases, assumption) (auto intro: step_submit_enter)

lemma call_reach_pool: "call_reach cfg outcome x \<Longrightarrow> pool_reach cfg (snd x)"
proof (induction rule: reach.induct)
  case reach_init
  show ?case by (simp add: reach.reach_init)
next
  case (reach_step x y)
  from reach_step.IH call_step_pool [OF reach_step.hyps(2)] show ?case by (rule reach.reach_step)
qed

subsection \<open>What the calls keep\<close>

definition held_calls :: "pool_state \<Rightarrow> (nat \<times> verdict_task) set" where
  "held_calls s = (\<lambda>q. (result_tx q, Pool.queued_task q)) ` set_mset (held_tasks s)"

lemma held_calls_frame: "held_tasks t = held_tasks s \<Longrightarrow> held_calls t \<subseteq> held_calls s"
  by (simp add: held_calls_def)

lemma held_calls_step:
  "pool_step cfg s t \<Longrightarrow> next_channel t = next_channel s \<Longrightarrow> held_calls t \<subseteq> held_calls s"
proof (rule pool_step_preserves
    [where P = "\<lambda>t. next_channel t = next_channel s \<longrightarrow> held_calls t \<subseteq> held_calls s", rule_format],
    assumption, simp, goal_cases)
  case (1 task)
  with submit_enter_Inr [OF 1(3)] show ?case by simp
next
  case (2 q M)
  then show ?case by (auto simp: held_calls_def held_tasks_def submit_enqueue_def split: if_splits)
next
  case 7
  then show ?case
    by (auto simp: held_calls_def held_tasks_def dispatch_check_def split: list.splits option.splits)
next
  case (13 res q M)
  then show ?case by (auto simp: held_calls_def held_tasks_def exec_settle_def split: sum.splits if_splits)
qed (auto simp: held_calls_def held_tasks_def pool_ops Let_def split: if_splits)

definition calls_inv :: "outcome \<Rightarrow> (nat \<rightharpoonup> verdict_task) \<times> pool_state \<Rightarrow> bool" where
  "calls_inv outcome = (\<lambda>(A, s). dom A = {..<next_channel s} \<and>
     (\<forall>(c, task) \<in> held_calls s. A c = Some task) \<and> faithful outcome s)"

lemma calls_inv_init: "calls_inv outcome (Map.empty, pool_new)"
  by (simp add: calls_inv_def held_calls_def held_tasks_def faithful_def pool_new_def)

lemma calls_inv_step: "calls_inv outcome x \<Longrightarrow> call_step cfg outcome x y \<Longrightarrow> calls_inv outcome y"
proof (erule call_step.cases, goal_cases)
  case (1 task s t A)
  have t: "next_channel t = Suc (next_channel s)" "executions t = executions s"
    "held_calls t = insert (next_channel s, task) (held_calls s)"
    using submit_enter_Inr [OF 1(4)] by (auto simp: held_calls_def held_tasks_def)
  have A: "dom A = {..<next_channel s}" "\<And>c k. (c, k) \<in> held_calls s \<Longrightarrow> A c = Some k" "faithful outcome s"
    using 1 by (auto simp: calls_inv_def)
  then have "A (next_channel s) = None" by auto
  with A(2) have "(A(next_channel s \<mapsto> task)) c = Some k" if "(c, k) \<in> held_calls t" for c k
    using that t(3) by fastforce
  with 1(3) A(1,3) t show ?case by (auto simp: calls_inv_def faithful_def)
next
  case (2 s t A)
  with held_calls_step [OF 2(4,5)] show ?case by (auto simp: calls_inv_def)
qed

lemma ticket_inv_count:
  "ticket_inv s \<Longrightarrow> count (tickets s) c + (if replies s c = None then 0 else 1) = (if c < next_channel s then 1 else 0)"
  by (simp add: ticket_inv_def)

lemma held_unanswered:
  assumes "ticket_inv s" and "q \<in># held_tasks s"
  shows "replies s (result_tx q) = None"
proof -
  have "result_tx q \<in># tickets s" using assms(2) by (simp add: tickets_def)
  then have "1 \<le> count (tickets s) (result_tx q)" by (simp add: Suc_le_eq)
  with ticket_inv_count [OF assms(1), of "result_tx q"] show ?thesis by (cases "replies s (result_tx q)") (simp_all add: count_eq_zero_iff split: if_splits)
qed

lemma queue_distinct:
  assumes "ticket_inv s"
  shows "distinct (map result_tx (task_queue s))"
proof -
  let ?xs = "map result_tx (task_queue s)"
  have "count (mset ?xs) c = (if c \<in> set ?xs then 1 else 0)" for c
  proof -
    have "count (mset ?xs) c \<le> count (tickets s) c" by (simp add: tickets_def held_tasks_def)
    also have "\<dots> \<le> 1" using ticket_inv_count [OF assms, of c] by (auto split: if_splits)
    finally have "count (mset ?xs) c \<le> 1" .
    moreover have "0 < count (mset ?xs) c \<longleftrightarrow> c \<in> set ?xs" using count_greater_zero_iff [of "mset ?xs" c] by simp
    ultimately show ?thesis by (cases "count (mset ?xs) c") (auto simp del: mset_map)
  qed
  then show ?thesis unfolding distinct_count_atmost_1 by blast
qed

interpretation calls: inductive_invariant "(Map.empty, pool_new)" "call_step cfg outcome"
    "\<lambda>x. ticket_inv (snd x) \<and> retry_inv cfg (snd x)" "calls_inv outcome" for cfg outcome
  by unfold_locales (auto intro: calls_inv_init calls_inv_step ticket.inv_reach retry.inv_reach dest!: call_reach_pool)

subsection \<open>The pool implements the service\<close>

lemma answer_one:
  assumes "A c = Some task" and "m c = None" and "allowed_answer cfg outcome task r"
  shows "(judging_step cfg outcome)\<^sup>*\<^sup>* \<lparr>asked = A, answers = m\<rparr> \<lparr>asked = A, answers = m(c \<mapsto> r)\<rparr>"
  using judging_answer [of "\<lparr>asked = A, answers = m\<rparr>" c task] assms by auto

lemma answer_all:
  assumes "distinct (map result_tx ts)" and "\<And>q. q \<in> set ts \<Longrightarrow> A (result_tx q) = Some (Pool.queued_task q) \<and> m (result_tx q) = None"
  shows "(judging_step cfg outcome)\<^sup>*\<^sup>* \<lparr>asked = A, answers = m\<rparr> \<lparr>asked = A, answers = reject_all ts m\<rparr>"
  using assms
proof (induction ts arbitrary: m)
  case Nil
  show ?case by simp
next
  case (Cons q ts)
  have "(judging_step cfg outcome)\<^sup>*\<^sup>* \<lparr>asked = A, answers = m\<rparr> \<lparr>asked = A, answers = m(result_tx q \<mapsto> Inl ShuttingDown)\<rparr>"
    using Cons.prems(2) [of q] by (intro answer_one) auto
  also have "(judging_step cfg outcome)\<^sup>*\<^sup>* \<lparr>asked = A, answers = m(result_tx q \<mapsto> Inl ShuttingDown)\<rparr>
      \<lparr>asked = A, answers = reject_all ts (m(result_tx q \<mapsto> Inl ShuttingDown))\<rparr>"
    by (intro Cons.IH) (use Cons.prems in \<open>auto simp: image_iff\<close>)
  finally show ?case by simp
qed

lemma settle_answers:
  assumes "calls_inv outcome (A, s)" and "ticket_inv s" and "retry_inv cfg s" and e: "executions s = add_mset (Settling res q) M"
  shows "(judging_step cfg outcome)\<^sup>*\<^sup>* (service_view (A, s)) (service_view (A, exec_settle cfg res q M s))"
proof -
  have q: "q \<in># held_tasks s" using e by (simp add: held_tasks_def)
  have asked: "A (result_tx q) = Some (Pool.queued_task q)"
    using assms(1) q by (auto simp: calls_inv_def held_calls_def)
  have out: "outcome (queued_frame_id q) (Pool.queued_task q) res" using assms(1) e by (simp add: calls_inv_def faithful_def)
  have max: "retries q \<le> max_retries cfg" using assms(3) q by (simp add: retry_inv_def)
  note answer = answer_one [where A = A and m = "replies s" and c = "result_tx q", OF asked held_unanswered [OF assms(2) q], of cfg outcome]
  show ?thesis
  proof (cases res)
    case (Inr v)
    with answer [of "Inr v"] out have "(judging_step cfg outcome)\<^sup>*\<^sup>* \<lparr>asked = A, answers = replies s\<rparr>
        \<lparr>asked = A, answers = (replies s)(result_tx q \<mapsto> Inr v)\<rparr>" by auto
    with Inr show ?thesis by (simp add: exec_settle_def service_view_def)
  next
    case (Inl e)
    show ?thesis
    proof (cases "retries q < max_retries cfg")
      case True
      with Inl show ?thesis by (simp add: exec_settle_def service_view_def)
    next
      case False
      with max have "retries q = max_retries cfg" by simp
      with answer [of "Inl (MaxRetriesExceeded (retries q))"] out Inl
      have "(judging_step cfg outcome)\<^sup>*\<^sup>* \<lparr>asked = A, answers = replies s\<rparr>
          \<lparr>asked = A, answers = (replies s)(result_tx q \<mapsto> Inl (MaxRetriesExceeded (retries q)))\<rparr>" by auto
      with Inl False show ?thesis by (simp add: exec_settle_def service_view_def)
    qed
  qed
qed

lemma pool_step_view:
  assumes inv: "calls_inv outcome (A, s)" and "ticket_inv s" and "retry_inv cfg s"
    and "pool_step cfg s t" and "next_channel t = next_channel s"
  shows "(judging_step cfg outcome)\<^sup>*\<^sup>* (service_view (A, s)) (service_view (A, t))"
proof (rule pool_step_preserves
    [where P = "\<lambda>t. next_channel t = next_channel s \<longrightarrow> (judging_step cfg outcome)\<^sup>*\<^sup>* (service_view (A, s)) (service_view (A, t))",
      rule_format], rule assms(4), simp, goal_cases)
  case (1 task)
  then show ?case by (auto dest!: submit_enter_Inr)
next
  case (2 q M)
  then have q: "q \<in># held_tasks s" by (simp add: held_tasks_def)
  with inv have "A (result_tx q) = Some (Pool.queued_task q)" by (auto simp: calls_inv_def held_calls_def)
  from answer_one [where A = A and m = "replies s" and c = "result_tx q", OF this held_unanswered [OF assms(2) q], of cfg outcome "Inl QueueFull"] show ?case
    by (simp add: submit_enqueue_def service_view_def)
next
  case 7
  show ?case by (simp add: dispatch_check_def service_view_def split: list.splits option.splits)
next
  case (13 res q M)
  then show ?case by (blast intro: settle_answers [OF assms(1-3)])
next
  case 21
  have "A (result_tx q) = Some (Pool.queued_task q) \<and> replies s (result_tx q) = None" if "q \<in> set (task_queue s)" for q
  proof -
    have "q \<in># held_tasks s" using that by (simp add: held_tasks_def)
    with held_unanswered [OF assms(2) this] inv show ?thesis by (auto simp: calls_inv_def held_calls_def)
  qed
  from answer_all [OF queue_distinct [OF assms(2)] this] show ?case
    by (simp add: shutdown_drain_queue_def service_view_def)
qed (simp_all add: pool_ops Let_def service_view_def assms(5))

lemma call_step_view:
  assumes "calls_inv outcome x" and "ticket_inv (snd x)" and "retry_inv cfg (snd x)" and "call_step cfg outcome x y"
  shows "(judging_step cfg outcome)\<^sup>*\<^sup>* (service_view x) (service_view y)"
  using assms(4)
proof cases
  case (call_submit task s t A)
  then have "A (next_channel s) = None" using assms(1) by (auto simp: calls_inv_def)
  moreover have "replies t = replies s" using submit_enter_Inr [OF call_submit(3)] by simp
  ultimately show ?thesis
    using judging_ask [of "\<lparr>asked = A, answers = replies s\<rparr>" "next_channel s" cfg outcome task]
    by (auto simp: call_submit service_view_def)
next
  case (call_other s t A)
  with pool_step_view [of outcome A s cfg t] assms show ?thesis by simp
qed

interpretation service: simulation "(Map.empty, pool_new)" "call_step cfg outcome"
    "\<lambda>x. ticket_inv (snd x) \<and> retry_inv cfg (snd x)" "calls_inv outcome" no_service "judging_step cfg outcome" service_view
  for cfg outcome
  by unfold_locales (simp add: service_view_def no_service_def pool_new_def, blast intro: call_step_view)

text \<open>What the service promises, and so the pool.\<close>

definition answered_rightly :: "pool_config \<Rightarrow> outcome \<Rightarrow> judging_service \<Rightarrow> bool" where
  "answered_rightly cfg outcome a \<longleftrightarrow>
     (\<forall>c r. answers a c = Some r \<longrightarrow> (\<exists>task. asked a c = Some task \<and> allowed_answer cfg outcome task r))"

lemma answered_rightly_step: "answered_rightly cfg outcome a \<Longrightarrow> judging_step cfg outcome a b \<Longrightarrow> answered_rightly cfg outcome b"
  by (erule judging_stepE) (fastforce simp: answered_rightly_def)+

lemma service_answers:
  assumes "call_reach cfg outcome (A, s)" and "replies s c = Some r"
  shows "\<exists>task. A c = Some task \<and> allowed_answer cfg outcome task r"
proof -
  have "answered_rightly cfg outcome no_service" by (simp add: answered_rightly_def no_service_def)
  from service.spec_invariant [OF assms(1), of "answered_rightly cfg outcome", OF this answered_rightly_step] assms(2)
  show ?thesis by (auto simp: answered_rightly_def service_view_def)
qed

text \<open>Every run of the pool is a run with its callers.\<close>

lemma pool_step_channel: "pool_step cfg s t \<Longrightarrow> next_channel t = next_channel s \<or> (\<exists>task. submit_enter task s = Inr t)"
proof (rule pool_step_preserves [where P = "\<lambda>t. next_channel t = next_channel s \<or> (\<exists>task. submit_enter task s = Inr t)"],
    assumption, simp, goal_cases)
  case 7
  show ?case by (simp add: dispatch_check_def split: list.splits option.splits)
next
  case (13 res q M)
  show ?case by (simp add: exec_settle_def split: sum.splits)
qed (auto simp: pool_ops Let_def)

lemma pool_runs_called: "pool_reach cfg s \<Longrightarrow> \<exists>A. call_reach cfg (\<lambda>_ _ _. True) (A, s)"
proof (induction rule: reach.induct)
  case reach_init
  show ?case by (blast intro: reach.reach_init)
next
  case (reach_step s t)
  then obtain A where A: "call_reach cfg (\<lambda>_ _ _. True) (A, s)" by blast
  have "faithful (\<lambda>_ _ _. True) t" by (simp add: faithful_def)
  with pool_step_channel [OF reach_step.hyps(2)] reach_step.hyps(2)
  have "\<exists>B. call_step cfg (\<lambda>_ _ _. True) (A, s) (B, t)" by (blast intro: call_submit call_other)
  with A show ?case by (blast intro: reach.reach_step)
qed

subsection \<open>Properties\<close>

text \<open>C3. The pool refines its contract: in every run, under every interleaving, what its callers observe is a
  run of the judging service, which answers each caller at most once, and only with a verdict reached for
  the task this caller submitted, with \<open>QueueFull\<close>, with \<open>ShuttingDown\<close>, or with exhausted retries after an
  attempt at that task failed.\<close>
theorem pool_refines_judging_service:
  assumes "call_reach cfg outcome (A, s)"
  shows "reach no_service (judging_step cfg outcome) \<lparr>asked = A, answers = replies s\<rparr> \<and>
    (replies s c = None \<or> (\<exists>task. A c = Some task \<and> allowed_answer cfg outcome task (the (replies s c))))"
  using service.simulated [OF assms] service_answers [OF assms, of c] by (cases "replies s c") (auto simp: service_view_def)

theorem pool_refines_judging_service_witness:
  "\<exists>A. reach no_service (judging_step demo_cfg (\<lambda>_ _ _. True)) \<lparr>asked = A, answers = replies demo_spare\<rparr> \<and>
     replies demo_spare 0 = Some (Inr (Collected [])) \<and> A 0 \<noteq> None"
proof -
  obtain A where A: "call_reach demo_cfg (\<lambda>_ _ _. True) (A, demo_spare)" using pool_runs_called [OF demo_spare_reach] by blast
  have "replies demo_spare 0 = Some (Inr (Collected []))"
    by (simp add: demo_spare_def demo_asleep_eq demo_full_eq demo_queued_def run_defs)
  with pool_refines_judging_service [OF A, of 0] show ?thesis by auto
qed

end
