(* ===== verification/Pool_Liveness.thy ===== *)
theory Pool_Liveness
  imports Pool_Service
begin

text \<open>
  The pool gets its work done (\<open>judge_core_manager/src/pool.rs\<close>).  The steps with which the pool works on
  submissions - queueing, dispatching, running, retrying, answering - are separated from those with which
  the world changes around it.  Every run of working steps ends, because each step uses up potential, and
  as long as some agent may take tasks it ends only when everybody has been answered.
\<close>

subsection \<open>The working steps\<close>

inductive work_step :: "pool_config \<Rightarrow> pool_state \<Rightarrow> pool_state \<Rightarrow> bool" for cfg where
  work_enqueue: "entering s = add_mset q M \<Longrightarrow> work_step cfg s (submit_enqueue cfg q M s)"
| work_check: "dispatcher s = AtLoopHead \<Longrightarrow> work_step cfg s (dispatch_check cfg s)"
| work_signal: "dispatcher s = AwaitingSignal \<or> dispatcher s = AwaitingAgent \<Longrightarrow> 0 < task_signals s \<Longrightarrow>
    work_step cfg s (receive_signal s)"
| work_notified: "dispatcher s = AwaitingAgent \<Longrightarrow> agent_available s \<Longrightarrow> work_step cfg s (receive_notification s)"
| work_spawn: "dispatcher s = Chosen r q \<Longrightarrow> work_step cfg s (dispatch_spawn r q s)"
| work_release: "executions s = add_mset (Executing r q) M \<Longrightarrow> work_step cfg s (exec_release r res q M s)"
| work_notify: "executions s = add_mset (Returned due res q) M \<Longrightarrow> work_step cfg s (exec_notify due res q M s)"
| work_settle: "executions s = add_mset (Settling res q) M \<Longrightarrow> work_step cfg s (exec_settle cfg res q M s)"

lemma work_pool_step: "work_step cfg s t \<Longrightarrow> pool_step cfg s t"
  by (induction rule: work_step.induct) (auto intro: pool_step.intros)

lemma work_reach: "(work_step cfg)\<^sup>*\<^sup>* s t \<Longrightarrow> pool_reach cfg s \<Longrightarrow> pool_reach cfg t"
  by (induction rule: rtranclp_induct) (auto intro: reach_step work_pool_step)

subsection \<open>Potential\<close>

text \<open>What a task can still cost: nine steps for each attempt left, and what its place in the pool leads to.\<close>

definition retry_cost :: "pool_config \<Rightarrow> queued_task \<Rightarrow> nat" where
  "retry_cost cfg q = 9 * attempts_left cfg q"

fun exec_cost :: "pool_config \<Rightarrow> execution \<Rightarrow> nat" where
  "exec_cost cfg (Executing _ q) = retry_cost cfg q + 5"
| "exec_cost cfg (Returned _ _ q) = retry_cost cfg q + 4"
| "exec_cost cfg (Settling _ q) = retry_cost cfg q + 1"

fun dispatcher_cost :: "pool_config \<Rightarrow> dispatcher_point \<Rightarrow> nat" where
  "dispatcher_cost cfg AtLoopHead = 1"
| "dispatcher_cost cfg (Chosen _ q) = retry_cost cfg q + 7"
| "dispatcher_cost cfg _ = 0"

definition potential :: "pool_config \<Rightarrow> pool_state \<Rightarrow> nat" where
  "potential cfg s =
     (\<Sum>q\<in>#entering s. retry_cost cfg q + 10) + (\<Sum>q\<leftarrow>task_queue s. retry_cost cfg q + 7) +
     dispatcher_cost cfg (dispatcher s) + (\<Sum>e\<in>#executions s. exec_cost cfg e) +
     2 * task_signals s + (if agent_available s then 2 else 0)"

lemma retry_uses_attempt:
  assumes "retries q < max_retries cfg"
  shows "retry_cost cfg q = retry_cost cfg (q\<lparr>retries := retries q + 1\<rparr>) + 9"
proof -
  have "unat (retries q + 1) = Suc (unat (retries q))" using assms by (simp add: unat_suc_less)
  moreover have "unat (retries q) < unat (max_retries cfg)" using assms by (simp add: word_less_nat_alt)
  ultimately show ?thesis by (simp add: retry_cost_def attempts_left_def)
qed

lemma work_uses_potential: "work_step cfg s t \<Longrightarrow> potential cfg t < potential cfg s"
proof (induction rule: work_step.induct)
  case (work_enqueue s q M)
  then show ?case by (simp add: potential_def submit_enqueue_def)
next
  case (work_check s)
  then show ?case by (auto simp: potential_def dispatch_check_def split: list.splits option.splits)
next
  case (work_settle s res q M)
  show ?case
  proof (cases "\<exists>e. res = Inl e \<and> retries q < max_retries cfg")
    case True
    with work_settle retry_uses_attempt [of q cfg] show ?thesis by (auto simp: potential_def exec_settle_def)
  next
    case False
    with work_settle show ?thesis by (cases res) (simp_all add: potential_def exec_settle_def)
  qed
qed (auto simp: potential_def pool_ops)

lemma work_run_bounded: "(work_step cfg ^^ n) s t \<Longrightarrow> n + potential cfg t \<le> potential cfg s"
proof (induction n arbitrary: t)
  case 0
  then show ?case by simp
next
  case (Suc n)
  then obtain u where "(work_step cfg ^^ n) s u" "work_step cfg u t" by auto
  with Suc.IH [of u] work_uses_potential [of cfg u t] show ?case by simp
qed

lemma work_run_ends: "\<exists>t. (work_step cfg)\<^sup>*\<^sup>* s t \<and> \<not> (\<exists>u. work_step cfg t u)"
proof (induction "potential cfg s" arbitrary: s rule: less_induct)
  case less
  show ?case
  proof (cases "\<exists>u. work_step cfg s u")
    case True
    then obtain u where u: "work_step cfg s u" by blast
    from less [OF work_uses_potential [OF u]] u show ?thesis by (meson converse_rtranclp_into_rtranclp)
  qed blast
qed

subsection \<open>Somebody can always work\<close>

lemma agent_busy_or_idle:
  assumes "pool_reach cfg s" and "r \<in> set (agents s)" and "available (cells s ! r)" and "0 < max_concurrent_per_agent cfg"
  shows "dispatchable cfg (cells s ! r) \<and> active_tasks (cells s ! r) = 0 \<or> (\<exists>q M. executions s = add_mset (Executing r q) M)"
proof (cases "active_tasks (cells s ! r) = 0")
  case True
  with assms(3,4) show ?thesis by (simp add: dispatchable_def available_def)
next
  case False
  have "unat (active_tasks (cells s ! r)) = running_on s r"
    using load.inv_reach [OF assms(1)] wf_agents [OF wf.inv_reach [OF assms(1)] assms(2)] by (simp add: load_inv_def)
  with False have "running_on s r \<noteq> 0" by (metis unsigned_eq_0_iff)
  then obtain e where "e \<in># executions s" "runs_on r e" by (auto simp: running_on_def filter_mset_eq_mempty_iff)
  then show ?thesis by (cases e) (auto dest!: multi_member_split)
qed

lemma work_enabled:
  assumes reach: "pool_reach cfg s" and agent: "r \<in> set (agents s)" "available (cells s ! r)" and "0 < max_concurrent_per_agent cfg"
    and held: "q \<in># held_tasks s"
  shows "\<exists>t. work_step cfg s t"
proof -
  from held consider (entering) "q \<in># entering s" | (queued) "q \<in> set (task_queue s)" | (chosen) r' q' where "dispatcher s = Chosen r' q'"
    | (running) e where "e \<in># executions s"
    by (cases "dispatcher s") (auto simp: held_tasks_def)
  then show ?thesis
  proof cases
    case entering
    then show ?thesis by (blast dest: multi_member_split intro: work_enqueue)
  next
    case chosen
    then show ?thesis by (blast intro: work_spawn)
  next
    case (running e)
    then show ?thesis by (cases e) (blast dest: multi_member_split intro: work_release work_notify work_settle)+
  next
    case queued
    then have queued: "task_queue s \<noteq> []" by auto
    note wake = wake.inv_reach [OF reach]
    show ?thesis
    proof (cases "dispatcher s")
      case AtLoopHead
      then show ?thesis by (blast intro: work_check)
    next
      case AwaitingSignal
      with queued wake have "0 < task_signals s" by (simp add: wake_inv_def)
      with AwaitingSignal show ?thesis by (blast intro: work_signal)
    next
      case (Chosen r' q')
      then show ?thesis by (blast intro: work_spawn)
    next
      case AwaitingAgent
      show ?thesis
      proof (cases "wake_pending s")
        case True
        then consider "agent_available s" | "0 < task_signals s" | e where "e \<in># executions s" "notify_due e"
          by (auto simp: wake_pending_def)
        then show ?thesis
        proof cases
          case (3 e)
          then show ?thesis by (cases e) (auto dest!: multi_member_split intro: work_notify)
        qed (use AwaitingAgent in \<open>blast intro: work_notified work_signal\<close>)+
      next
        case False
        with wake AwaitingAgent agent(1) have "dispatchable cfg (cells s ! r) \<Longrightarrow> active_tasks (cells s ! r) \<noteq> 0"
          by (auto simp: wake_inv_def)
        with agent_busy_or_idle [OF reach agent assms(4)] show ?thesis by (blast intro: work_release)
      qed
    qed
  qed
qed

text \<open>Working changes neither the agents nor the callers.\<close>

lemma work_keeps:
  "work_step cfg s t \<Longrightarrow> agents t = agents s \<and> next_channel t = next_channel s \<and> length (cells t) = length (cells s) \<and>
     (\<forall>r < length (cells s). available (cells t ! r) = available (cells s ! r))"
  by (induction rule: work_step.induct)
     (auto simp: pool_ops dispatch_check_def nth_update_if available_def split: list.splits option.splits sum.splits)

lemma work_run_keeps:
  "(work_step cfg)\<^sup>*\<^sup>* s t \<Longrightarrow> agents t = agents s \<and> next_channel t = next_channel s \<and> length (cells t) = length (cells s) \<and>
     (\<forall>r < length (cells s). available (cells t ! r) = available (cells s ! r))"
  by (induction rule: rtranclp_induct) (auto dest!: work_keeps)

lemma all_answered:
  assumes "pool_reach cfg t" and "held_tasks t = {#}" and "c < next_channel t"
  shows "replies t c \<noteq> None"
  using ticket_inv_count [OF ticket.inv_reach [OF assms(1)], of c] assms(2,3) by (auto simp: tickets_def split: if_splits)

lemma work_ends_answered:
  assumes "pool_reach cfg s" and "r \<in> set (agents s)" and "available (cells s ! r)" and "0 < max_concurrent_per_agent cfg"
    and "(work_step cfg)\<^sup>*\<^sup>* s t" and "\<not> (\<exists>u. work_step cfg t u)"
  shows "held_tasks t = {#}"
proof -
  have r: "r < length (cells s)" by (rule wf_agents [OF wf.inv_reach [OF assms(1)] assms(2)])
  from work_run_keeps [OF assms(5)] assms(2,3) r have "r \<in> set (agents t)" "available (cells t ! r)" by simp_all
  from work_enabled [OF work_reach [OF assms(5,1)] this assms(4)] assms(6) show ?thesis by (metis multiset_nonemptyE)
qed

subsection \<open>Properties\<close>

text \<open>C7. Everybody is answered: in every reachable state in which some agent is healthy and not draining, every
  way in which the pool can go on working - any order of steps, any results of the executions, retries
  included - is at most as long as the potential of the state, and where it cannot go on every caller has
  been answered.  (It is used that every execution comes back, and that an agent may run at least one
  task.)\<close>
theorem pool_answers_everyone:
  assumes "pool_reach cfg s" and "r \<in> set (agents s)" and "available (cells s ! r)" and "0 < max_concurrent_per_agent cfg"
  shows "((work_step cfg ^^ n) s t \<longrightarrow> n \<le> potential cfg s) \<and>
    (\<exists>t. (work_step cfg)\<^sup>*\<^sup>* s t \<and> \<not> (\<exists>u. work_step cfg t u)) \<and>
    ((work_step cfg)\<^sup>*\<^sup>* s t \<and> \<not> (\<exists>u. work_step cfg t u) \<longrightarrow> held_tasks t = {#} \<and> (\<forall>c < next_channel s. replies t c \<noteq> None))"
proof (intro conjI impI)
  assume "(work_step cfg ^^ n) s t"
  from work_run_bounded [OF this] show "n \<le> potential cfg s" by simp
next
  show "\<exists>t. (work_step cfg)\<^sup>*\<^sup>* s t \<and> \<not> (\<exists>u. work_step cfg t u)" by (rule work_run_ends)
next
  assume t: "(work_step cfg)\<^sup>*\<^sup>* s t \<and> \<not> (\<exists>u. work_step cfg t u)"
  with work_ends_answered [OF assms] show "held_tasks t = {#}" by blast
  with t work_run_keeps [of cfg s t] all_answered [OF work_reach [OF _ assms(1)]] show "\<forall>c < next_channel s. replies t c \<noteq> None" by auto
qed

theorem pool_answers_everyone_witness:
  "\<exists>t. (work_step demo_cfg)\<^sup>*\<^sup>* demo_asleep t \<and> held_tasks t = {#} \<and> replies t 0 \<noteq> None \<and> replies t 1 \<noteq> None \<and> replies t 2 \<noteq> None"
proof -
  have agent: "0 \<in> set (agents demo_asleep)" "available (cells demo_asleep ! 0)" "0 < max_concurrent_per_agent demo_cfg"
    and three: "next_channel demo_asleep = 3"
    by (simp_all add: demo_asleep_eq demo_full_eq available_def fresh_handle_def demo_cfg_def)
  note ends = pool_answers_everyone [OF demo_asleep_reach agent]
  from ends obtain t where t: "(work_step demo_cfg)\<^sup>*\<^sup>* demo_asleep t \<and> \<not> (\<exists>u. work_step demo_cfg t u)" by blast
  with ends [of 0 t] three have "held_tasks t = {#}" "\<forall>c < 3. replies t c \<noteq> None" by simp_all
  with t show ?thesis by (intro exI [of _ t]) simp
qed

end
