(* ===== verification/Verdict.thy ===== *)
theory Verdict
  imports Judge_Models
begin

text \<open>
  The agent's handling of one task (\<open>judge_core_agent/src/verdict/mod.rs\<close>).  The trait \<open>Verdict\<close> is
  the record \<open>judge_ops\<close> of its four operations, the contract of its implementations is the locale
  \<open>sound_judge\<close>.  The order in which the spawned cases of a batch complete is the parameter
  \<open>completion\<close>; the properties hold for every order.
\<close>

datatype compile_result = CompileSuccess | CompileTimeout | CompileFailure string

text \<open>The errors carry their text: an I/O error, or an error of the cgroup library.\<close>

datatype verdict_error = VerdictIo (error_text: string) | VerdictCgroup (error_text: string)

text \<open>What joining a spawned case gives: its result, or the message of its panic.\<close>

datatype join_outcome = Finished "verdict_error + case_verdict" | Panicked string

record judge_ops =
  op_prepare :: "string \<Rightarrow> u64 \<Rightarrow> verdict_error + unit"
  op_compile :: "string \<Rightarrow> verdict_error + compile_result"
  op_verdict :: "test_case \<Rightarrow> resources_limit \<Rightarrow> u64 \<Rightarrow> join_outcome"

datatype judge_call = CallPrepare string u64 | CallCompile string | CallVerdict nat u64 | CallCleanup

definition workdir_of :: "u64 \<Rightarrow> string" where
  "workdir_of i = ''/work/'' @ show_nat (unat i)"

definition BATCH_MAX :: nat where "BATCH_MAX = 8"

subsection \<open>Collecting the results\<close>

definition usage_max :: "resources_usage \<Rightarrow> resources_usage \<Rightarrow> resources_usage" where
  "usage_max m u =
     \<lparr>used_cpu_time_ms = max (used_cpu_time_ms m) (used_cpu_time_ms u),
      used_wall_time_ms = max (used_wall_time_ms m) (used_wall_time_ms u),
      used_memory_bytes = max (used_memory_bytes m) (used_memory_bytes u)\<rparr>"

definition usage_opt_max :: "resources_usage option \<Rightarrow> resources_usage \<Rightarrow> resources_usage" where
  "usage_opt_max m u = (case m of None \<Rightarrow> u | Some v \<Rightarrow> usage_max v u)"

datatype progress = Going "resources_usage option" "case_verdict option list" | Done verdict_task_result

text \<open>One turn of the loop over \<open>join_next\<close>; \<open>Done\<close> is an early return.\<close>

fun absorb :: "bool \<Rightarrow> progress \<Rightarrow> nat \<times> join_outcome \<Rightarrow> progress" where
  "absorb stop (Done r) _ = Done r"
| "absorb stop (Going m col) (i, Finished (Inl e)) = Done (Internal (error_text e))"
| "absorb stop (Going m col) (i, Panicked msg) = Done (Internal msg)"
| "absorb stop (Going m col) (i, Finished (Inr v)) =
     (if stop then
        (case v of
           Accepted usage \<Rightarrow> Going (Some (usage_opt_max m usage)) col
         | _ \<Rightarrow> Done (Stopped v))
      else Going m (col[i := Some v]))"

text \<open>The batches: \<open>vid\<close> gives the verdict id drawn for each case.\<close>

function run_batches ::
  "judge_ops \<Rightarrow> (nat \<Rightarrow> (nat \<times> join_outcome) list \<Rightarrow> (nat \<times> join_outcome) list) \<Rightarrow> (nat \<Rightarrow> u64) \<Rightarrow>
   resources_limit \<Rightarrow> bool \<Rightarrow> nat \<Rightarrow> test_case list \<Rightarrow> progress \<Rightarrow> progress \<times> judge_call list" where
  "run_batches ops completion vid limits stop idx cases p =
     (if cases = [] then (p, [])
      else
        let n = min BATCH_MAX (length cases);
            running = map (\<lambda>(i, c). (i, op_verdict ops c limits (vid i))) (zip [idx..<idx + n] (take n cases));
            calls = map (\<lambda>i. CallVerdict i (vid i)) [idx..<idx + n];
            p' = foldl (absorb stop) p (completion idx running)
        in case p' of
             Done r \<Rightarrow> (p', calls)
           | Going _ _ \<Rightarrow>
               (let (q, more) = run_batches ops completion vid limits stop (idx + n) (drop n cases) p'
                in (q, calls @ more)))"
  by pat_completeness auto
termination
  by (relation "measure (\<lambda>(_, _, _, _, _, _, cases, _). length cases)") (auto simp: BATCH_MAX_def)

declare run_batches.simps [simp del]

text \<open>\<open>collected.unwrap().into_iter().map(Option::unwrap)\<close>: \<open>None\<close> is a panic.\<close>

fun unwrap_all :: "'a option list \<Rightarrow> 'a list option" where
  "unwrap_all [] = Some []"
| "unwrap_all (None # _) = None"
| "unwrap_all (Some x # rest) = map_option (Cons x) (unwrap_all rest)"

fun final_result :: "bool \<Rightarrow> progress \<Rightarrow> verdict_task_result option" where
  "final_result stop (Done r) = Some r"
| "final_result stop (Going m col) =
     (if stop then map_option AllPassed m else map_option Collected (unwrap_all col))"

definition zero_usage :: resources_usage where
  "zero_usage = \<lparr>used_cpu_time_ms = 0, used_wall_time_ms = 0, used_memory_bytes = 0\<rparr>"

text \<open>\<open>handle\<close>: the result (\<open>None\<close> is a panic) and the calls it made on the judge, in order.\<close>

definition handle ::
  "judge_ops \<Rightarrow> (nat \<Rightarrow> (nat \<times> join_outcome) list \<Rightarrow> (nat \<times> join_outcome) list) \<Rightarrow> (nat \<Rightarrow> u64) \<Rightarrow>
   u64 \<Rightarrow> verdict_task \<Rightarrow> verdict_task_result option \<times> judge_call list" where
  "handle ops completion vid i task =
     (let workdir = workdir_of i in
      case op_prepare ops workdir i of
        Inl e \<Rightarrow> (Some (Internal (error_text e)), [CallPrepare workdir i])
      | Inr _ \<Rightarrow>
          (let calls = [CallPrepare workdir i, CallCompile (task_source task)] in
           case op_compile ops (task_source task) of
             Inl e \<Rightarrow> (Some (Internal (error_text e)), calls @ [CallCleanup])
           | Inr (CompileFailure msg) \<Rightarrow> (Some (CompilationError msg), calls @ [CallCleanup])
           | Inr CompileTimeout \<Rightarrow> (Some (CompilationError ''Timeout''), calls @ [CallCleanup])
           | Inr CompileSuccess \<Rightarrow>
               if task_cases task = [] then (Some (AllPassed zero_usage), calls @ [CallCleanup])
               else
                 (let stop = stop_on_first_error task;
                      (p, runs) = run_batches ops completion vid (task_limits task) stop 0 (task_cases task)
                                    (Going None (replicate (length (task_cases task)) None))
                  in (final_result stop p, calls @ runs @ [CallCleanup]))))"

subsection \<open>What the loop computes\<close>

text \<open>All cases with their outcomes, in the order of the task.\<close>

definition outcome_of :: "judge_ops \<Rightarrow> (nat \<Rightarrow> u64) \<Rightarrow> resources_limit \<Rightarrow> nat \<times> test_case \<Rightarrow> nat \<times> join_outcome" where
  "outcome_of ops vid limits ic = (fst ic, op_verdict ops (snd ic) limits (vid (fst ic)))"

definition all_runs ::
  "judge_ops \<Rightarrow> (nat \<Rightarrow> u64) \<Rightarrow> resources_limit \<Rightarrow> nat \<Rightarrow> test_case list \<Rightarrow> (nat \<times> join_outcome) list" where
  "all_runs ops vid limits idx cases = map (outcome_of ops vid limits) (zip [idx..<idx + length cases] cases)"

text \<open>A completion order: every spawned case is joined once.\<close>

definition fair_completion :: "(nat \<Rightarrow> (nat \<times> join_outcome) list \<Rightarrow> (nat \<times> join_outcome) list) \<Rightarrow> bool" where
  "fair_completion completion \<longleftrightarrow> (\<forall>k runs. mset (completion k runs) = mset runs)"

lemma absorb_Done [simp]: "foldl (absorb stop) (Done r) os = Done r"
  by (induction os) auto

lemma all_runs_split:
  "n \<le> length cases \<Longrightarrow>
   all_runs ops vid limits idx cases =
     all_runs ops vid limits idx (take n cases) @ all_runs ops vid limits (idx + n) (drop n cases)"
proof -
  assume n: "n \<le> length cases"
  have "[idx..<idx + length cases] = [idx..<idx + n] @ [idx + n..<idx + length cases]"
    using n upt_add_eq_append [of idx "idx + n" "length cases - n"] by simp
  then have "zip [idx..<idx + length cases] cases =
      zip [idx..<idx + n] (take n cases) @ zip [idx + n..<idx + length cases] (drop n cases)"
    using n zip_append [of "[idx..<idx + n]" "take n cases" "[idx + n..<idx + length cases]" "drop n cases"]
    by simp
  then show ?thesis using n by (simp add: all_runs_def)
qed

lemma run_batches_order:
  assumes "fair_completion completion"
  shows "\<exists>os. fst (run_batches ops completion vid limits stop idx cases p) = foldl (absorb stop) p os \<and>
    set os \<subseteq> set (all_runs ops vid limits idx cases) \<and>
    ((\<forall>r. foldl (absorb stop) p os \<noteq> Done r) \<longrightarrow> mset os = mset (all_runs ops vid limits idx cases))"
proof (induction "length cases" arbitrary: cases idx p rule: less_induct)
  case less
  show ?case
  proof (cases "cases = []")
    case True
    then show ?thesis by (intro exI [of _ "[]"]) (simp add: run_batches.simps all_runs_def)
  next
    case False
    define n where "n = min BATCH_MAX (length cases)"
    have n: "0 < n" "n \<le> length cases" using False by (auto simp: n_def BATCH_MAX_def)
    define batch where "batch = all_runs ops vid limits idx (take n cases)"
    have running: "map (\<lambda>(i, c). (i, op_verdict ops c limits (vid i))) (zip [idx..<idx + n] (take n cases)) = batch"
      using n by (auto simp: batch_def all_runs_def outcome_of_def min_def)
    define os1 where "os1 = completion idx batch"
    have os1: "mset os1 = mset batch" using assms by (simp add: fair_completion_def os1_def)
    define p1 where "p1 = foldl (absorb stop) p os1"
    note split = all_runs_split [OF n(2), of ops vid limits idx, folded batch_def]
    show ?thesis
    proof (cases p1)
      case (Done r)
      then have "fst (run_batches ops completion vid limits stop idx cases p) = p1"
        using False running
        by (subst run_batches.simps) (simp add: Let_def n_def [symmetric] os1_def [symmetric] p1_def [symmetric])
      with Done show ?thesis
        using split os1 mset_eq_setD [OF os1] by (intro exI [of _ os1]) (auto simp: p1_def)
    next
      case (Going m col)
      let ?rest = "run_batches ops completion vid limits stop (idx + n) (drop n cases) p1"
      have eq: "fst (run_batches ops completion vid limits stop idx cases p) = fst ?rest"
        using False running Going
        by (subst run_batches.simps)
           (simp add: Let_def n_def [symmetric] os1_def [symmetric] p1_def [symmetric] split: prod.splits)
      have "length (drop n cases) < length cases" using n False by simp
      from less [OF this, of "idx + n" p1] obtain os2 where os2: "fst ?rest = foldl (absorb stop) p1 os2"
        "set os2 \<subseteq> set (all_runs ops vid limits (idx + n) (drop n cases))"
        "(\<forall>r. foldl (absorb stop) p1 os2 \<noteq> Done r) \<longrightarrow> mset os2 = mset (all_runs ops vid limits (idx + n) (drop n cases))"
        by blast
      show ?thesis
        using eq os2 split os1 mset_eq_setD [OF os1] by (intro exI [of _ "os1 @ os2"]) (auto simp: p1_def)
    qed
  qed
qed

text \<open>What makes the loop return early.\<close>

fun stops_with :: "bool \<Rightarrow> join_outcome \<Rightarrow> verdict_task_result option" where
  "stops_with stop (Finished (Inl e)) = Some (Internal (error_text e))"
| "stops_with stop (Panicked msg) = Some (Internal msg)"
| "stops_with stop (Finished (Inr v)) =
     (if stop then (case v of Accepted _ \<Rightarrow> None | _ \<Rightarrow> Some (Stopped v)) else None)"

lemma absorb_stops:
  "absorb stop (Going m col) (i, o') = (case stops_with stop o' of Some r \<Rightarrow> Done r | None \<Rightarrow> absorb stop (Going m col) (i, o'))"
  by (cases "(stop, o')" rule: stops_with.cases) (auto split: case_verdict.splits)

lemma absorb_Going_iff: "(\<exists>m' col'. absorb stop (Going m col) (i, o') = Going m' col') \<longleftrightarrow> stops_with stop o' = None"
  by (cases "(stop, o')" rule: stops_with.cases) (auto split: case_verdict.splits)

lemma foldl_absorb_Done:
  "foldl (absorb stop) (Going m col) os = Done r \<Longrightarrow> \<exists>x \<in> set os. stops_with stop (snd x) = Some r"
proof (induction os arbitrary: m col)
  case (Cons x os)
  obtain i o' where x: "x = (i, o')" by fastforce
  show ?case
  proof (cases "absorb stop (Going m col) x")
    case (Done r')
    then have "stops_with stop o' = Some r'"
      using absorb_stops [of stop m col i o'] absorb_Going_iff [of stop m col i o'] x by (auto split: option.splits)
    with Done Cons.prems x show ?thesis by auto
  next
    case (Going m' col')
    with Cons show ?thesis by fastforce
  qed
qed simp

lemma foldl_absorb_Going:
  "foldl (absorb stop) (Going m col) os = Going m' col' \<Longrightarrow> x \<in> set os \<Longrightarrow> stops_with stop (snd x) = None"
proof (induction os arbitrary: m col)
  case (Cons y os)
  obtain i o' where y: "y = (i, o')" by fastforce
  then obtain m1 col1 where g: "absorb stop (Going m col) (i, o') = Going m1 col1"
    using Cons.prems(1) by (cases "absorb stop (Going m col) y") auto
  then have "stops_with stop o' = None" using absorb_Going_iff [of stop m col i o'] by blast
  with Cons g y show ?case by auto
qed simp


subsection \<open>The collected results\<close>

text \<open>Without early return every case is recorded at its own index.\<close>

lemma foldl_absorb_collect:
  assumes "foldl (absorb False) (Going m col) os = Going m' col'" and "distinct (map fst os)"
    and "\<And>x. x \<in> set os \<Longrightarrow> fst x < length col"
  shows "length col' = length col \<and>
    (\<forall>(i, o') \<in> set os. \<exists>v. o' = Finished (Inr v) \<and> col' ! i = Some v) \<and>
    (\<forall>i < length col. i \<notin> fst ` set os \<longrightarrow> col' ! i = col ! i)"
  using assms
proof (induction os arbitrary: m col)
  case (Cons x os)
  obtain i o' where x: "x = (i, o')" by fastforce
  have "stops_with False o' = None" using foldl_absorb_Going [OF Cons.prems(1), of x] x by simp
  then obtain v where v: "o' = Finished (Inr v)"
    by (cases "(False, o')" rule: stops_with.cases) auto
  have step: "foldl (absorb False) (Going m (col[i := Some v])) os = Going m' col'"
    using Cons.prems(1) x v by simp
  have i: "i < length col" "i \<notin> fst ` set os" using Cons.prems(2) Cons.prems(3) [of x] x by auto
  from Cons.IH [OF step] Cons.prems(2,3) x
  have IH: "length col' = length col" "\<forall>(j, o') \<in> set os. \<exists>w. o' = Finished (Inr w) \<and> col' ! j = Some w"
    "\<forall>j < length col. j \<notin> fst ` set os \<longrightarrow> col' ! j = (col[i := Some v]) ! j"
    by auto
  with i x v show ?case by auto
qed simp

lemma unwrap_all_map_Some: "unwrap_all (map Some xs) = Some xs"
  by (induction xs) auto

text \<open>With early return at the first failure the loop keeps the maxima of the usages.\<close>

definition usage_le :: "resources_usage \<Rightarrow> resources_usage \<Rightarrow> bool" where
  "usage_le u m \<longleftrightarrow> used_cpu_time_ms u \<le> used_cpu_time_ms m \<and> used_wall_time_ms u \<le> used_wall_time_ms m \<and>
     used_memory_bytes u \<le> used_memory_bytes m"

text \<open>\<open>m\<close> is the component-wise maximum of the usages in \<open>U\<close>.\<close>

definition is_max_usage :: "resources_usage set \<Rightarrow> resources_usage \<Rightarrow> bool" where
  "is_max_usage U m \<longleftrightarrow> (\<forall>u \<in> U. usage_le u m) \<and>
     used_cpu_time_ms m \<in> used_cpu_time_ms ` U \<and> used_wall_time_ms m \<in> used_wall_time_ms ` U \<and>
     used_memory_bytes m \<in> used_memory_bytes ` U"

lemma is_max_usage_insert:
  assumes "case m of None \<Rightarrow> U = {} | Some w \<Rightarrow> is_max_usage U w"
  shows "is_max_usage (insert u U) (usage_opt_max m u)"
  using assms
  by (cases m) (auto simp: usage_opt_max_def usage_max_def is_max_usage_def usage_le_def max_def intro: order_trans)

definition accepted_usages :: "(nat \<times> join_outcome) set \<Rightarrow> resources_usage set" where
  "accepted_usages os = {u. \<exists>i. (i, Finished (Inr (Accepted u))) \<in> os}"

lemma foldl_absorb_usage:
  assumes "foldl (absorb True) (Going m col) os = Going m' col'"
    and "case m of None \<Rightarrow> U = {} | Some w \<Rightarrow> is_max_usage U w"
  shows "case m' of None \<Rightarrow> U \<union> accepted_usages (set os) = {} | Some w \<Rightarrow> is_max_usage (U \<union> accepted_usages (set os)) w"
  using assms
proof (induction os arbitrary: m U)
  case Nil
  then show ?case by (auto simp: accepted_usages_def split: option.splits)
next
  case (Cons x os)
  obtain i o' where x: "x = (i, o')" by fastforce
  have "stops_with True o' = None" using foldl_absorb_Going [OF Cons.prems(1), of x] x by simp
  then obtain u where u: "o' = Finished (Inr (Accepted u))"
    by (cases "(True, o')" rule: stops_with.cases) (auto split: case_verdict.splits)
  have "foldl (absorb True) (Going (Some (usage_opt_max m u)) col) os = Going m' col'"
    using Cons.prems(1) x u by simp
  from Cons.IH [OF this, of "insert u U"] is_max_usage_insert [OF Cons.prems(2), of u]
  have "case m' of None \<Rightarrow> insert u U \<union> accepted_usages (set os) = {}
      | Some w \<Rightarrow> is_max_usage (insert u U \<union> accepted_usages (set os)) w" by simp
  moreover have "U \<union> accepted_usages (set (x # os)) = insert u U \<union> accepted_usages (set os)"
    using x u by (auto simp: accepted_usages_def)
  ultimately show ?case by (simp only:)
qed


lemma all_runs_indices [simp]: "map fst (all_runs ops vid limits idx cases) = [idx..<idx + length cases]"
  by (simp add: all_runs_def outcome_of_def comp_def)

lemma all_runs_mem:
  "(i, o') \<in> set (all_runs ops vid limits 0 cases) \<longleftrightarrow>
   i < length cases \<and> o' = op_verdict ops (cases ! i) limits (vid i)"
  by (force simp: all_runs_def outcome_of_def set_zip)

text \<open>The whole loop, from its initial state.\<close>

lemma run_batches_Done:
  assumes "fair_completion completion"
    and "fst (run_batches ops completion vid limits stop 0 cases (Going m col)) = Done r"
  shows "\<exists>i < length cases. stops_with stop (op_verdict ops (cases ! i) limits (vid i)) = Some r"
proof -
  obtain os where "fst (run_batches ops completion vid limits stop 0 cases (Going m col)) = foldl (absorb stop) (Going m col) os"
    "set os \<subseteq> set (all_runs ops vid limits 0 cases)"
    using run_batches_order [OF assms(1)] by blast
  with foldl_absorb_Done [of stop m col os r] assms(2) all_runs_mem [of _ _ ops vid limits cases] show ?thesis by fastforce
qed

lemma stops_with_True_None: "stops_with True o' = None \<longleftrightarrow> (\<exists>u. o' = Finished (Inr (Accepted u)))"
  by (cases "(True, o')" rule: stops_with.cases) (auto split: case_verdict.splits)

lemma stops_with_False_None: "stops_with False o' = None \<longleftrightarrow> (\<exists>v. o' = Finished (Inr v))"
  by (cases "(False, o')" rule: stops_with.cases) auto

lemma run_batches_order_Going:
  assumes "fair_completion completion"
    and "fst (run_batches ops completion vid limits stop 0 cases p) = Going m' col'"
  shows "\<exists>os. foldl (absorb stop) p os = Going m' col' \<and> set os = set (all_runs ops vid limits 0 cases) \<and>
     distinct (map fst os)"
proof -
  obtain os where os: "foldl (absorb stop) p os = Going m' col'" "mset os = mset (all_runs ops vid limits 0 cases)"
    using run_batches_order [OF assms(1), of ops vid limits stop 0 cases p] assms(2) by auto
  then have "mset (map fst os) = mset [0..<length cases]"
    using all_runs_indices [of ops vid limits 0 cases] by (metis add_0 mset_map)
  then have "distinct (map fst os)" by (metis distinct_upt mset_eq_imp_distinct_iff)
  with os mset_eq_setD [OF os(2)] show ?thesis by blast
qed

text \<open>Every case finished without stopping the loop; what the loop has collected then.\<close>

lemma run_batches_collected:
  assumes "fair_completion completion"
    and "fst (run_batches ops completion vid limits False 0 cases (Going m (replicate (length cases) None))) = Going m' col'"
  shows "\<exists>vs. col' = map Some vs \<and> length vs = length cases \<and>
    (\<forall>i < length cases. op_verdict ops (cases ! i) limits (vid i) = Finished (Inr (vs ! i)))"
proof -
  let ?col = "replicate (length cases) None"
  obtain os where os: "foldl (absorb False) (Going m ?col) os = Going m' col'"
    "set os = set (all_runs ops vid limits 0 cases)" "distinct (map fst os)"
    using run_batches_order_Going [OF assms] by blast
  have "fst x < length ?col" if "x \<in> set os" for x
    using that all_runs_mem [of "fst x" "snd x" ops vid limits cases] by (simp add: os(2))
  from foldl_absorb_collect [OF os(1,3) this]
  have len: "length col' = length cases" and all: "\<forall>(i, o') \<in> set os. \<exists>v. o' = Finished (Inr v) \<and> col' ! i = Some v"
    by simp_all
  have each: "\<exists>v. op_verdict ops (cases ! i) limits (vid i) = Finished (Inr v) \<and> col' ! i = Some v" if "i < length cases" for i
    using bspec [OF all, of "(i, op_verdict ops (cases ! i) limits (vid i))"] that by (simp add: os(2) all_runs_mem)
  have "col' = map Some (map the col')" by (rule nth_equalityI) (use each len in force)+
  moreover have "op_verdict ops (cases ! i) limits (vid i) = Finished (Inr (map the col' ! i))" if "i < length cases" for i
    using each [OF that] len that by auto
  ultimately show ?thesis using len by (intro exI [of _ "map the col'"]) simp
qed

lemma run_batches_maxima:
  assumes "fair_completion completion" and "cases \<noteq> []"
    and "fst (run_batches ops completion vid limits True 0 cases (Going None col)) = Going m' col'"
  shows "\<exists>w. m' = Some w \<and>
    is_max_usage {u. \<exists>i < length cases. op_verdict ops (cases ! i) limits (vid i) = Finished (Inr (Accepted u))} w \<and>
    (\<forall>i < length cases. \<exists>u. op_verdict ops (cases ! i) limits (vid i) = Finished (Inr (Accepted u)))"
proof -
  obtain os where os: "foldl (absorb True) (Going None col) os = Going m' col'"
    "set os = set (all_runs ops vid limits 0 cases)"
    using run_batches_order_Going [OF assms(1,3)] by blast
  have acc: "accepted_usages (set os) = {u. \<exists>i < length cases. op_verdict ops (cases ! i) limits (vid i) = Finished (Inr (Accepted u))}"
    unfolding accepted_usages_def os(2) by (auto simp: all_runs_mem)
  have each: "\<exists>u. op_verdict ops (cases ! i) limits (vid i) = Finished (Inr (Accepted u))" if "i < length cases" for i
    using foldl_absorb_Going [OF os(1), of "(i, op_verdict ops (cases ! i) limits (vid i))"] that
    by (simp add: os(2) all_runs_mem stops_with_True_None)
  have ne: "accepted_usages (set os) \<noteq> {}" using each [of 0] assms(2) unfolding acc by auto
  have "case m' of None \<Rightarrow> {} \<union> accepted_usages (set os) = {} | Some w \<Rightarrow> is_max_usage ({} \<union> accepted_usages (set os)) w"
    by (rule foldl_absorb_usage [OF os(1)]) simp
  then obtain w where "m' = Some w" "is_max_usage (accepted_usages (set os)) w"
    using ne by (cases m') auto
  then show ?thesis using each unfolding acc by blast
qed


subsection \<open>The result of a task\<close>

lemma handle_running:
  assumes "op_prepare ops (workdir_of i) i = Inr ()" and "op_compile ops (task_source task) = Inr CompileSuccess"
    and "task_cases task \<noteq> []"
  shows "fst (handle ops completion vid i task) =
    final_result (stop_on_first_error task)
      (fst (run_batches ops completion vid (task_limits task) (stop_on_first_error task) 0 (task_cases task)
        (Going None (replicate (length (task_cases task)) None))))"
  using assms by (simp add: handle_def Let_def split: prod.splits)

text \<open>The calls of the loop are case runs only.\<close>

lemma run_batches_calls: "set (snd (run_batches ops completion vid limits stop idx cases p)) \<subseteq> {CallVerdict i v | i v. True}"
proof (induction ops completion vid limits stop idx cases p rule: run_batches.induct)
  case (1 ops completion vid limits stop idx cases p)
  show ?case
  proof (cases "cases = []")
    case False
    note IH = 1 [OF False refl refl refl refl]
    show ?thesis
      using False IH by (subst run_batches.simps) (auto simp: Let_def split: progress.splits prod.splits)
  qed (simp add: run_batches.simps)
qed

text \<open>The result of the loop in either mode: \<open>final_result\<close> never meets the panic.\<close>

lemma final_result_Some:
  assumes "fair_completion completion" and "cases \<noteq> []"
  shows "\<exists>r. final_result stop (fst (run_batches ops completion vid limits stop 0 cases
     (Going None (replicate (length cases) None)))) = Some r"
proof (cases "fst (run_batches ops completion vid limits stop 0 cases (Going None (replicate (length cases) None)))")
  case (Going m' col')
  show ?thesis
  proof (cases stop)
    case True
    then show ?thesis using run_batches_maxima [OF assms Going [unfolded eqTrueI [OF True]]] Going by auto
  next
    case False
    then obtain vs where "col' = map Some vs"
      using run_batches_collected [OF assms(1) Going [unfolded iffD2 [OF eq_False False]]] by blast
    with False Going show ?thesis by (simp add: unwrap_all_map_Some)
  qed
qed simp

text \<open>
  The contract of the trait's implementations: a case that is reported as accepted passed, in the sense
  of the implementation.
\<close>

locale sound_judge =
  fixes verdict :: "test_case \<Rightarrow> resources_limit \<Rightarrow> u64 \<Rightarrow> join_outcome"
    and passes :: "test_case \<Rightarrow> resources_limit \<Rightarrow> u64 \<Rightarrow> resources_usage \<Rightarrow> bool"
  assumes accepted_passes: "verdict c limits i = Finished (Inr (Accepted u)) \<Longrightarrow> passes c limits i u"
begin

lemma all_passed:
  assumes "fair_completion completion" and "op_verdict ops = verdict"
    and "fst (handle ops completion vid i task) = Some (AllPassed m)" and "n < length (task_cases task)"
    and "stop_on_first_error task"
  shows "\<exists>u. passes (task_cases task ! n) (task_limits task) (vid n) u \<and> usage_le u m"
proof -
  from assms(4) have ne: "task_cases task \<noteq> []" by auto
  from assms(3) ne have ok: "op_prepare ops (workdir_of i) i = Inr ()" "op_compile ops (task_source task) = Inr CompileSuccess"
    by (auto simp: handle_def Let_def split: sum.splits compile_result.splits)
  let ?p = "fst (run_batches ops completion vid (task_limits task) True 0 (task_cases task)
     (Going None (replicate (length (task_cases task)) None)))"
  have fin: "final_result True ?p = Some (AllPassed m)"
    using handle_running [OF ok ne, of completion vid] assms(3,5) by simp
  show ?thesis
  proof (cases ?p)
    case (Done r)
    with run_batches_Done [OF assms(1) Done] fin obtain k where
      "stops_with True (op_verdict ops (task_cases task ! k) (task_limits task) (vid k)) = Some (AllPassed m)" by auto
    then show ?thesis
      by (cases "(True, op_verdict ops (task_cases task ! k) (task_limits task) (vid k))" rule: stops_with.cases)
         (auto split: case_verdict.splits)
  next
    case (Going m' col')
    from run_batches_maxima [OF assms(1) ne Going] Going fin
    have max: "is_max_usage {u. \<exists>i < length (task_cases task).
         op_verdict ops (task_cases task ! i) (task_limits task) (vid i) = Finished (Inr (Accepted u))} m"
      and acc: "\<forall>i < length (task_cases task). \<exists>u. op_verdict ops (task_cases task ! i) (task_limits task) (vid i) = Finished (Inr (Accepted u))"
      by auto
    from acc assms(4) obtain u where u: "op_verdict ops (task_cases task ! n) (task_limits task) (vid n) = Finished (Inr (Accepted u))"
      by blast
    then have "usage_le u m" using max assms(4) unfolding is_max_usage_def by blast
    moreover have "passes (task_cases task ! n) (task_limits task) (vid n) u"
      using accepted_passes u assms(2) by simp
    ultimately show ?thesis by blast
  qed
qed

end

subsection \<open>Properties\<close>

text \<open>A judge for concrete runs: a program that copies its input.\<close>

definition demo_usage :: resources_usage where
  "demo_usage = \<lparr>used_cpu_time_ms = 3, used_wall_time_ms = 5, used_memory_bytes = 7\<rparr>"

definition demo_ops :: judge_ops where
  "demo_ops =
     \<lparr>op_prepare = \<lambda>_ _. Inr (), op_compile = \<lambda>_. Inr CompileSuccess,
      op_verdict = \<lambda>c _ _. Finished (Inr (if case_input c = case_output c then Accepted demo_usage
                                           else WrongAnswer c (case_input c) []))\<rparr>"

definition demo_judge_task :: "bool \<Rightarrow> verdict_task" where
  "demo_judge_task stop =
     \<lparr>task_source = ''s'', task_cases = [\<lparr>case_input = ''1'', case_output = ''1''\<rparr>, \<lparr>case_input = ''1'', case_output = ''2''\<rparr>],
      task_limits = \<lparr>limit_cpu_time_ms = 1, limit_wall_time_ms = 1, limit_memory_bytes = 1, limit_output_bytes = 1\<rparr>,
      task_language = Cpp, stop_on_first_error = stop\<rparr>"

lemma fair_rev: "fair_completion (\<lambda>_. rev)"
  by (simp add: fair_completion_def)

text \<open>C19. \<open>handle\<close> never panics, whatever the judge does and in whatever order the cases of a batch
  complete, and the working directory is released exactly once: after a successful preparation the
  last call, and no earlier one, is the cleanup; after a failed one nothing else is called.\<close>
theorem handle_cleans_up:
  "fair_completion completion \<Longrightarrow>
   fst (handle ops completion vid i task) \<noteq> None \<and>
   (case op_prepare ops (workdir_of i) i of
      Inl _ \<Rightarrow> snd (handle ops completion vid i task) = [CallPrepare (workdir_of i) i]
    | Inr _ \<Rightarrow> last (snd (handle ops completion vid i task)) = CallCleanup \<and>
        CallCleanup \<notin> set (butlast (snd (handle ops completion vid i task))))"
  using final_result_Some [of completion "task_cases task" "stop_on_first_error task" ops vid "task_limits task"]
    run_batches_calls [of ops completion vid "task_limits task" "stop_on_first_error task" 0 "task_cases task"
      "Going None (replicate (length (task_cases task)) None)"]
  by (auto simp: handle_def Let_def butlast_append split: sum.splits compile_result.splits prod.splits)

theorem handle_cleans_up_witness:
  "last (snd (handle demo_ops (\<lambda>_. rev) of_nat 7 (demo_judge_task True))) = CallCleanup"
  using handle_cleans_up [OF fair_rev, of demo_ops of_nat 7 "demo_judge_task True"] by (simp add: demo_ops_def)

text \<open>C6. A task that does not stop on the first error gets one verdict per case, in the order of the cases,
  although the cases run in concurrent batches of eight and complete in any order.\<close>
theorem collected_in_order:
  assumes "fair_completion completion" and "op_prepare ops (workdir_of i) i = Inr ()"
    and "op_compile ops (task_source task) = Inr CompileSuccess" and "\<not> stop_on_first_error task"
    and "task_cases task \<noteq> []" and "length vs = length (task_cases task)"
    and "\<And>n. n < length vs \<Longrightarrow> op_verdict ops (task_cases task ! n) (task_limits task) (vid n) = Finished (Inr (vs ! n))"
  shows "fst (handle ops completion vid i task) = Some (Collected vs)"
proof -
  let ?p = "fst (run_batches ops completion vid (task_limits task) False 0 (task_cases task)
     (Going None (replicate (length (task_cases task)) None)))"
  have eq: "fst (handle ops completion vid i task) = final_result False ?p"
    using handle_running [OF assms(2,3,5)] assms(4) by simp
  show ?thesis
  proof (cases ?p)
    case (Done r)
    with run_batches_Done [OF assms(1) Done] assms(6,7) show ?thesis by (metis option.distinct(1) stops_with_False_None)
  next
    case (Going m' col')
    from run_batches_collected [OF assms(1) Going] obtain ws where ws: "col' = map Some ws" "length ws = length (task_cases task)"
      "\<forall>n < length (task_cases task). op_verdict ops (task_cases task ! n) (task_limits task) (vid n) = Finished (Inr (ws ! n))"
      by blast
    have "ws = vs" using ws(2,3) assms(6,7) by (intro nth_equalityI) auto
    with eq Going ws(1) show ?thesis by (simp add: unwrap_all_map_Some)
  qed
qed

theorem collected_in_order_witness:
  "fst (handle demo_ops (\<lambda>_. rev) of_nat 7 (demo_judge_task False)) =
   Some (Collected [Accepted demo_usage, WrongAnswer \<lparr>case_input = ''1'', case_output = ''2''\<rparr> ''1'' []])"
  by (rule collected_in_order [OF fair_rev])
     (auto simp: demo_ops_def demo_judge_task_def less_Suc_eq nth_Cons split: nat.splits)

text \<open>A task that stops on the first error is passed exactly when every case is accepted, with the
  component-wise maximum of the cases' resource usages; otherwise the result is the verdict of some case
  that was not accepted, or the error of a case that could not be judged.\<close>
theorem stop_on_first_result:
  assumes "fair_completion completion" and "op_prepare ops (workdir_of i) i = Inr ()"
    and "op_compile ops (task_source task) = Inr CompileSuccess" and "stop_on_first_error task"
    and "task_cases task \<noteq> []"
  shows "\<exists>r. fst (handle ops completion vid i task) = Some r \<and>
    (case r of
       AllPassed m \<Rightarrow>
         (\<forall>n < length (task_cases task). \<exists>u. op_verdict ops (task_cases task ! n) (task_limits task) (vid n) = Finished (Inr (Accepted u))) \<and>
         is_max_usage {u. \<exists>n < length (task_cases task).
            op_verdict ops (task_cases task ! n) (task_limits task) (vid n) = Finished (Inr (Accepted u))} m
     | other \<Rightarrow> \<exists>n < length (task_cases task).
         stops_with True (op_verdict ops (task_cases task ! n) (task_limits task) (vid n)) = Some other)"
proof -
  let ?p = "fst (run_batches ops completion vid (task_limits task) True 0 (task_cases task)
     (Going None (replicate (length (task_cases task)) None)))"
  have eq: "fst (handle ops completion vid i task) = final_result True ?p"
    using handle_running [OF assms(2,3,5)] assms(4) by simp
  show ?thesis
  proof (cases ?p)
    case (Done r)
    from run_batches_Done [OF assms(1) Done] obtain n where n: "n < length (task_cases task)"
      "stops_with True (op_verdict ops (task_cases task ! n) (task_limits task) (vid n)) = Some r" by blast
    have "\<And>m. r \<noteq> AllPassed m"
      using n(2) by (cases "(True, op_verdict ops (task_cases task ! n) (task_limits task) (vid n))" rule: stops_with.cases)
                    (auto split: case_verdict.splits)
    with eq Done n show ?thesis by (cases r) auto
  next
    case (Going m' col')
    from run_batches_maxima [OF assms(1,5) Going] eq Going show ?thesis by auto
  qed
qed

end
