(* ===== verification/Agent_Limits.thy ===== *)
theory Agent_Limits
  imports Judge_Models
begin

text \<open>
  The limits the agent puts on a judged program: the cgroup guard and its reading of the kernel's
  accounting (\<open>judge_core_agent/src/limit/cgroup.rs\<close>), the system call filter
  (\<open>limit/seccomp.rs\<close>) and \<open>truncate_str\<close> (\<open>lib.rs\<close>).  The kernel is a parameter: what the files of
  a cgroup contain.
\<close>

subsection \<open>Text of the kernel\<close>

definition is_space :: "char \<Rightarrow> bool" where
  "is_space c \<longleftrightarrow> c = CHR '' '' \<or> (9 \<le> (of_char c :: nat) \<and> (of_char c :: nat) \<le> 13)"

fun split_by :: "(char \<Rightarrow> bool) \<Rightarrow> string \<Rightarrow> string list" where
  "split_by P [] = [[]]"
| "split_by P (c # cs) =
     (if P c then [] # split_by P cs
      else case split_by P cs of w # ws \<Rightarrow> (c # w) # ws | [] \<Rightarrow> [[c]])"

text \<open>\<open>lines\<close> and \<open>split_whitespace\<close>; trimming a line does not change its words.\<close>

definition text_lines :: "string \<Rightarrow> string list" where
  "text_lines s = split_by (\<lambda>c. c = CHR 0x0A) s"

definition text_words :: "string \<Rightarrow> string list" where
  "text_words s = filter (\<lambda>w. w \<noteq> []) (split_by is_space s)"

text \<open>\<open>parse::<u64>\<close>: digits, with an optional plus sign, that fit 64 bits.\<close>

definition parse_u64 :: "string \<Rightarrow> u64 option" where
  "parse_u64 s =
     (let ds = (case s of c # rest \<Rightarrow> if c = CHR ''+'' then rest else s | [] \<Rightarrow> [])
      in if ds \<noteq> [] \<and> list_all is_digit ds \<and> read_nat ds < 2 ^ 64 then Some (of_nat (read_nat ds)) else None)"

text \<open>\<open>parse_cpu_stat\<close>: milliseconds of CPU time; \<open>None\<close> is one of its panics.\<close>

fun cpu_stat_lines :: "string list \<Rightarrow> u64 option" where
  "cpu_stat_lines [] = None"
| "cpu_stat_lines (line # rest) =
     (case text_words line of
        [] \<Rightarrow> cpu_stat_lines rest
      | [key, num] \<Rightarrow>
          if key = ''usage_usec'' then map_option (\<lambda>v. v div 1000) (parse_u64 num) else cpu_stat_lines rest
      | _ \<Rightarrow> None)"

definition parse_cpu_stat :: "string \<Rightarrow> u64 option" where
  "parse_cpu_stat stat = cpu_stat_lines (text_lines stat)"

subsection \<open>The guard\<close>

record cgroup_guard =
  cg_id :: string
  cg_memory_limit :: int
  cg_tasks :: "u64 list"
  cg_start_time :: "nat option"

text \<open>What the controllers of the cgroup report.\<close>

record cgroup_reading =
  max_usage_in_bytes :: u64
  cpu_stat_text :: string
  oom_kill_count :: u64

text \<open>\<open>limit.memory_bytes as i64\<close>: limits from \<open>2^63\<close> on become negative.\<close>

definition cgroup_new :: "string \<Rightarrow> resources_limit \<Rightarrow> cgroup_guard" where
  "cgroup_new i limit =
     \<lparr>cg_id = i, cg_memory_limit = sint (limit_memory_bytes limit), cg_tasks = [], cg_start_time = None\<rparr>"

definition apply_current_process :: "u64 \<Rightarrow> nat \<Rightarrow> cgroup_guard \<Rightarrow> cgroup_guard" where
  "apply_current_process own_pid now g = g\<lparr>cg_start_time := Some now, cg_tasks := cg_tasks g @ [own_pid]\<rparr>"

definition cgroup_add_task :: "u64 \<Rightarrow> nat \<Rightarrow> cgroup_guard \<Rightarrow> cgroup_guard" where
  "cgroup_add_task pid now g =
     g\<lparr>cg_start_time := (case cg_start_time g of None \<Rightarrow> Some now | Some t \<Rightarrow> Some t),
       cg_tasks := cg_tasks g @ [pid]\<rparr>"

definition was_oom_killed :: "cgroup_reading \<Rightarrow> bool" where
  "was_oom_killed r \<longleftrightarrow> 0 < oom_kill_count r"

text \<open>\<open>usage\<close> at time \<open>now\<close> (milliseconds); \<open>None\<close> is a panic: an unreadable file, or no start time.\<close>

definition cgroup_usage :: "cgroup_reading \<Rightarrow> nat \<Rightarrow> cgroup_guard \<Rightarrow> resources_usage option" where
  "cgroup_usage r now g =
     (case parse_cpu_stat (cpu_stat_text r) of
        None \<Rightarrow> None
      | Some cpu \<Rightarrow>
          map_option (\<lambda>start. \<lparr>used_cpu_time_ms = cpu, used_wall_time_ms = of_nat (now - start),
                               used_memory_bytes = max_usage_in_bytes r\<rparr>) (cg_start_time g))"

subsection \<open>System calls\<close>

definition cpp_allowed_syscalls :: "string list" where
  "cpp_allowed_syscalls =
     [''read'', ''write'', ''openat'', ''close'', ''fstat'', ''newfstatat'', ''lseek'', ''mmap'', ''munmap'',
      ''mprotect'', ''brk'', ''pread64'', ''pwrite64'', ''exit_group'', ''exit'', ''arch_prctl'',
      ''set_tid_address'', ''set_robust_list'', ''futex'', ''rt_sigaction'', ''rt_sigprocmask'',
      ''sigaltstack'', ''getrandom'', ''clock_gettime'', ''gettimeofday'', ''time'', ''getpid'', ''getppid'',
      ''sched_getaffinity'', ''access'', ''faccessat'', ''getcwd'', ''readlink'', ''readlinkat'', ''ioctl'',
      ''fcntl'', ''dup'', ''dup2'', ''pipe'', ''pipe2'', ''statx'', ''execve'']"

datatype scmp_action = ScmpAllow | ScmpErrno nat

definition EPERM :: nat where "EPERM = 1"

record scmp_filter =
  default_action :: scmp_action
  scmp_arch :: string
  scmp_rules :: "(string \<times> scmp_action) list"

text \<open>\<open>resolve\<close>: whether the library knows a system call of that name (\<open>from_name\<close>).\<close>

fun add_rules :: "(string \<Rightarrow> bool) \<Rightarrow> string list \<Rightarrow> scmp_filter \<Rightarrow> string + scmp_filter" where
  "add_rules resolve [] f = Inr f"
| "add_rules resolve (name # names) f =
     (if resolve name then add_rules resolve names (f\<lparr>scmp_rules := scmp_rules f @ [(name, ScmpAllow)]\<rparr>)
      else Inl name)"

definition cpp_seccomp_filter :: "(string \<Rightarrow> bool) \<Rightarrow> string + scmp_filter" where
  "cpp_seccomp_filter resolve =
     add_rules resolve cpp_allowed_syscalls
       \<lparr>default_action = ScmpErrno EPERM, scmp_arch = ''x86_64'', scmp_rules = []\<rparr>"

fun seccomp_filter :: "(string \<Rightarrow> bool) \<Rightarrow> language \<Rightarrow> string + scmp_filter" where
  "seccomp_filter resolve Cpp = cpp_seccomp_filter resolve"

definition filter_action :: "scmp_filter \<Rightarrow> string \<Rightarrow> scmp_action" where
  "filter_action f name = (case map_of (scmp_rules f) name of Some a \<Rightarrow> a | None \<Rightarrow> default_action f)"

subsection \<open>Text of programs\<close>

text \<open>Whether a byte string is UTF-8, as \<open>str::from_utf8\<close> decides it.\<close>

definition utf8_tail :: "nat \<Rightarrow> bool" where
  "utf8_tail b \<longleftrightarrow> 128 \<le> b \<and> b \<le> 191"

fun utf8_codes :: "nat list \<Rightarrow> bool" where
  "utf8_codes [] = True"
| "utf8_codes (a # rest) =
     (if a < 128 then utf8_codes rest
      else if 194 \<le> a \<and> a \<le> 223 then
        (case rest of b # r \<Rightarrow> utf8_tail b \<and> utf8_codes r | _ \<Rightarrow> False)
      else if 224 \<le> a \<and> a \<le> 239 then
        (case rest of
           b # c # r \<Rightarrow> utf8_tail b \<and> utf8_tail c \<and> (a = 224 \<longrightarrow> 160 \<le> b) \<and> (a = 237 \<longrightarrow> b \<le> 159) \<and> utf8_codes r
         | _ \<Rightarrow> False)
      else if 240 \<le> a \<and> a \<le> 244 then
        (case rest of
           b # c # d # r \<Rightarrow> utf8_tail b \<and> utf8_tail c \<and> utf8_tail d \<and>
             (a = 240 \<longrightarrow> 144 \<le> b) \<and> (a = 244 \<longrightarrow> b \<le> 143) \<and> utf8_codes r
         | _ \<Rightarrow> False)
      else False)"

definition utf8_ok :: "string \<Rightarrow> bool" where
  "utf8_ok s = utf8_codes (map of_char s)"

text \<open>\<open>truncate_str\<close>: slicing inside a character panics (\<open>None\<close>).\<close>

definition truncate_str :: "string \<Rightarrow> nat \<Rightarrow> string option" where
  "truncate_str s n =
     (if length s \<le> n then Some s
      else if utf8_tail (of_char (s ! n)) then None
      else Some (take n s))"

subsection \<open>Lemmas\<close>

lemma split_by_append:
  "\<forall>c \<in> set w. \<not> P c \<Longrightarrow> P d \<Longrightarrow> split_by P (w @ d # s) = w # split_by P s"
  by (induction w) auto

lemma split_by_none: "\<forall>c \<in> set w. \<not> P c \<Longrightarrow> split_by P w = [w]"
  by (induction w) auto

text \<open>One line of a cgroup file of key-value pairs.\<close>

definition stat_line :: "string \<times> string \<Rightarrow> string" where
  "stat_line kv = fst kv @ '' '' @ snd kv @ [CHR 0x0A]"

definition stat_entry_ok :: "string \<times> string \<Rightarrow> bool" where
  "stat_entry_ok kv \<longleftrightarrow> fst kv \<noteq> [] \<and> snd kv \<noteq> [] \<and> list_all (\<lambda>c. \<not> is_space c) (fst kv @ snd kv)"

lemma not_space_newline: "\<not> is_space c \<Longrightarrow> c \<noteq> CHR 0x0A"
  by (auto simp: is_space_def)

lemma text_lines_stat_line:
  assumes "stat_entry_ok (k, v)"
  shows "text_lines (stat_line (k, v) @ s) = (k @ '' '' @ v) # text_lines s"
proof -
  have "\<forall>c \<in> set k \<union> set v. c \<noteq> CHR 0x0A"
    using assms not_space_newline by (simp add: stat_entry_ok_def list_all_iff)
  then have "\<forall>c \<in> set (k @ '' '' @ v). \<not> (c = CHR 0x0A)" by auto
  then have "split_by (\<lambda>c. c = CHR 0x0A) ((k @ '' '' @ v) @ CHR 0x0A # s) = (k @ '' '' @ v) # split_by (\<lambda>c. c = CHR 0x0A) s"
    by (rule split_by_append) simp
  then show ?thesis by (simp add: text_lines_def stat_line_def)
qed

lemma text_words_pair:
  assumes "stat_entry_ok (k, v)"
  shows "text_words (k @ CHR '' '' # v) = [k, v]"
proof -
  have "\<forall>c \<in> set k. \<not> is_space c" "\<forall>c \<in> set v. \<not> is_space c" "is_space CHR '' ''" "k \<noteq> []" "v \<noteq> []"
    using assms by (auto simp: stat_entry_ok_def list_all_iff is_space_def)
  then show ?thesis by (simp add: text_words_def split_by_append split_by_none)
qed

lemma digit_not_space: "is_digit c \<Longrightarrow> \<not> is_space c \<and> c \<noteq> CHR ''+''"
  by (auto simp: is_digit_def is_space_def)

lemma parse_u64_show: "n < 2 ^ 64 \<Longrightarrow> parse_u64 (show_nat n) = Some (of_nat n)"
proof -
  assume n: "n < 2 ^ 64"
  obtain c cs where cs: "show_nat n = c # cs" using show_nat_digits [of n] by (cases "show_nat n") auto
  have all: "list_all is_digit (show_nat n)" using show_nat_digits by (simp add: list_all_iff)
  then have "c \<noteq> CHR ''+''" using cs digit_not_space [of c] by simp
  then have "(case show_nat n of c # rest \<Rightarrow> if c = CHR ''+'' then rest else show_nat n | [] \<Rightarrow> []) = show_nat n"
    using cs by simp
  moreover have "show_nat n \<noteq> []" using cs by simp
  ultimately show ?thesis using all n by (simp only: parse_u64_def Let_def) simp
qed

lemma usage_entry_ok: "stat_entry_ok (''usage_usec'', show_nat usec)"
proof -
  have "list_all (\<lambda>c. \<not> is_space c) ''usage_usec''" by (simp add: is_space_def)
  moreover have "list_all (\<lambda>c. \<not> is_space c) (show_nat usec)"
    using show_nat_digits [of usec] digit_not_space by (simp add: list_all_iff)
  ultimately show ?thesis using show_nat_digits [of usec] by (simp add: stat_entry_ok_def)
qed

subsection \<open>Properties\<close>

text \<open>The CPU time the guard reports is the kernel's: for every cgroup file of key-value lines with an
  entry \<open>usage_usec\<close>, whatever lines precede and follow it, \<open>parse_cpu_stat\<close> returns that value in
  milliseconds and does not panic.\<close>
theorem cpu_stat_roundtrip:
  assumes "list_all stat_entry_ok before" and "''usage_usec'' \<notin> fst ` set before" and "usec < 2 ^ 64"
  shows "parse_cpu_stat (concat (map stat_line before) @ stat_line (''usage_usec'', show_nat usec) @ after) =
    Some (of_nat usec div 1000)"
  using assms(1,2) unfolding parse_cpu_stat_def
proof (induction before)
  case Nil
  show ?case
    using usage_entry_ok [of usec] text_lines_stat_line [of "''usage_usec''" "show_nat usec" after]
      text_words_pair [of "''usage_usec''" "show_nat usec"] parse_u64_show [OF assms(3)] by simp
next
  case (Cons kv before)
  obtain k v where kv: "kv = (k, v)" by fastforce
  with Cons show ?case by (auto simp: text_lines_stat_line text_words_pair)
qed

text \<open>The filter a judged program runs under allows exactly the listed system calls and answers every
  other one with \<open>EPERM\<close>; in particular no process or thread can be created, no signal sent to another
  process and no socket opened.\<close>
theorem seccomp_filter_exact:
  assumes "\<And>name. name \<in> set cpp_allowed_syscalls \<Longrightarrow> resolve name"
  shows "\<exists>f. seccomp_filter resolve Cpp = Inr f \<and>
    (\<forall>name. filter_action f name = (if name \<in> set cpp_allowed_syscalls then ScmpAllow else ScmpErrno EPERM)) \<and>
    list_all (\<lambda>name. filter_action f name = ScmpErrno EPERM)
      [''fork'', ''vfork'', ''clone'', ''clone3'', ''kill'', ''tkill'', ''tgkill'', ''ptrace'', ''socket'', ''connect'',
       ''bind'', ''unshare'', ''setns'', ''mount'', ''chroot'', ''execveat'', ''open'', ''unlink'', ''rename'']"
proof -
  have add: "(\<And>name. name \<in> set names \<Longrightarrow> resolve name) \<Longrightarrow>
      add_rules resolve names f = Inr (f\<lparr>scmp_rules := scmp_rules f @ map (\<lambda>name. (name, ScmpAllow)) names\<rparr>)" for names f
    by (induction names arbitrary: f) simp_all
  let ?f = "\<lparr>default_action = ScmpErrno EPERM, scmp_arch = ''x86_64'',
             scmp_rules = map (\<lambda>name. (name, ScmpAllow)) cpp_allowed_syscalls\<rparr>"
  have exact: "filter_action ?f name = (if name \<in> set cpp_allowed_syscalls then ScmpAllow else ScmpErrno EPERM)" for name
    by (simp add: filter_action_def map_of_map_restrict)
  have "seccomp_filter resolve Cpp = Inr ?f" using add [OF assms] by (simp add: cpp_seccomp_filter_def)
  moreover have "list_all (\<lambda>name. filter_action ?f name = ScmpErrno EPERM)
      [''fork'', ''vfork'', ''clone'', ''clone3'', ''kill'', ''tkill'', ''tgkill'', ''ptrace'', ''socket'', ''connect'',
       ''bind'', ''unshare'', ''setns'', ''mount'', ''chroot'', ''execveat'', ''open'', ''unlink'', ''rename'']"
    unfolding exact by (simp add: cpp_allowed_syscalls_def)
  ultimately show ?thesis using exact by blast
qed

end
