(* ===== verification/Cpp_Judge.thy ===== *)
theory Cpp_Judge
  imports Verdict Agent_Limits
begin

text \<open>
  Judging C++ programs (\<open>judge_core_agent/src/verdict/cpp.rs\<close>), the implementation of the trait
  \<open>Verdict\<close>.  What the compiler, the linker and the judged program do is a parameter: a
  \<open>tool_run\<close> and a \<open>program_run\<close> record what the operating system reports of a process, \<open>cpp_compile\<close>
  and \<open>cpp_verdict\<close> what the code makes of it.
\<close>

subsection \<open>Compiling\<close>

datatype tool_run =
    SpawnFailed string
  | WaitFailed string
  | TimedOut "string + unit"
  | ToolExited bool "string + string"

record compile_run =
  source_written :: "string + unit"
  compiler_run :: tool_run
  linker_run :: tool_run

definition COMPILE_SECS :: nat where "COMPILE_SECS = 10"
definition LINK_SECS :: nat where "LINK_SECS = 5"

definition compiler_args :: "string \<Rightarrow> string list" where
  "compiler_args work_dir =
     [''ccache'', ''g++'', ''-std=c++23'', ''-w'', ''-O2'', ''-c'', work_dir @ ''/source.cpp'', ''-o'', work_dir @ ''/source.o'']"

definition linker_args :: "string \<Rightarrow> string list" where
  "linker_args work_dir = [''g++'', ''-static'', work_dir @ ''/source.o'', ''-o'', work_dir @ ''/executable'']"

text \<open>One tool: success, or the result \<open>compile\<close> returns with.\<close>

fun tool_result :: "tool_run \<Rightarrow> verdict_error + compile_result" where
  "tool_result (SpawnFailed e) = Inl (VerdictIo e)"
| "tool_result (WaitFailed e) = Inl (VerdictIo e)"
| "tool_result (TimedOut (Inl e)) = Inl (VerdictIo e)"
| "tool_result (TimedOut (Inr _)) = Inr CompileTimeout"
| "tool_result (ToolExited True _) = Inr CompileSuccess"
| "tool_result (ToolExited False (Inl e)) = Inl (VerdictIo e)"
| "tool_result (ToolExited False (Inr stderr)) = Inr (CompileFailure stderr)"

definition cpp_compile :: "compile_run \<Rightarrow> verdict_error + compile_result" where
  "cpp_compile run =
     (case source_written run of
        Inl e \<Rightarrow> Inl (VerdictIo e)
      | Inr _ \<Rightarrow>
          (case tool_result (compiler_run run) of
             Inr CompileSuccess \<Rightarrow> tool_result (linker_run run)
           | other \<Rightarrow> other))"

subsection \<open>Running a case\<close>

datatype exit_status = ExitCode i32 | ExitSignal i32

definition exit_success :: "exit_status \<Rightarrow> bool" where
  "exit_success st \<longleftrightarrow> st = ExitCode 0"

datatype stdin_result = StdinWritten | StdinBrokenPipe | StdinFailed string

text \<open>Which branch of \<open>select!\<close> was taken, or the error of waiting for or killing the child.\<close>

datatype child_outcome = Exited exit_status | OutputExceeded | WallTimeout | OutcomeFailed string

record program_run =
  cgroup_created :: "string + unit"
  child_spawned :: "string + u64"
  cgroup_joined :: "string + unit"
  spawned_at :: nat
  stdin_result :: stdin_result
  child_outcome :: child_outcome
  stdout_bytes :: string
  stderr_bytes :: string
  usage_read_at :: nat
  reading :: cgroup_reading

text \<open>\<open>take(output_limit + 1)\<close>, then \<open>read_to_string\<close>; the sum is computed on \<open>u64\<close>.\<close>

definition UTF8_ERROR :: string where "UTF8_ERROR = ''stream did not contain valid UTF-8''"

definition read_capped :: "u64 \<Rightarrow> string \<Rightarrow> string + string" where
  "read_capped output_limit bytes =
     (let buf = take (unat (output_limit + 1)) bytes in if utf8_ok buf then Inr buf else Inl UTF8_ERROR)"

definition over_limit :: "u64 \<Rightarrow> string \<Rightarrow> bool" where
  "over_limit output_limit s \<longleftrightarrow> unat output_limit < length s"

text \<open>The verdict of a program that exited by itself; \<open>Panicked\<close> where the accounting panics.\<close>

definition exited_verdict ::
  "test_case \<Rightarrow> resources_limit \<Rightarrow> program_run \<Rightarrow> cgroup_guard \<Rightarrow> exit_status \<Rightarrow> string \<Rightarrow> string \<Rightarrow> join_outcome" where
  "exited_verdict c limit run cg status stdout stderr =
     (if exit_success status then
        (case cgroup_usage (reading run) (usage_read_at run) cg of
           None \<Rightarrow> Panicked ''panic''
         | Some usage \<Rightarrow>
             if limit_cpu_time_ms limit < used_cpu_time_ms usage
             then Finished (Inr (Killed CpuTimeLimitExceeded stdout stderr))
             else if over_limit (limit_output_bytes limit) stdout \<or> over_limit (limit_output_bytes limit) stderr
             then Finished (Inr (Killed OutputLimitExceeded stdout stderr))
             else if case_output c = stdout then Finished (Inr (Accepted usage))
             else Finished (Inr (WrongAnswer c stdout stderr)))
      else
        (case status of
           ExitCode code \<Rightarrow> Finished (Inr (RuntimeError stderr code))
         | ExitSignal signal \<Rightarrow>
             Finished (Inr (Killed (if was_oom_killed (reading run) then MemoryLimitExceeded else Signaled signal)
                              stdout stderr))))"

definition cpp_verdict :: "program_run \<Rightarrow> test_case \<Rightarrow> resources_limit \<Rightarrow> u64 \<Rightarrow> join_outcome" where
  "cpp_verdict run c limit i =
     (case cgroup_created run of
        Inl e \<Rightarrow> Finished (Inl (VerdictCgroup e))
      | Inr _ \<Rightarrow>
     (case child_spawned run of
        Inl e \<Rightarrow> Finished (Inl (VerdictIo e))
      | Inr pid \<Rightarrow>
     (case cgroup_joined run of
        Inl e \<Rightarrow> Finished (Inl (VerdictCgroup e))
      | Inr _ \<Rightarrow>
          (let cg = cgroup_add_task pid (spawned_at run) (cgroup_new (''verdict-cpp-'' @ show_nat (unat i)) limit) in
           case stdin_result run of
             StdinFailed e \<Rightarrow> Finished (Inl (VerdictIo e))
           | _ \<Rightarrow>
     (case child_outcome run of
        OutcomeFailed e \<Rightarrow> Finished (Inl (VerdictIo e))
      | outcome \<Rightarrow>
     (case read_capped (limit_output_bytes limit) (stdout_bytes run) of
        Inl e \<Rightarrow> Finished (Inl (VerdictIo e))
      | Inr stdout \<Rightarrow>
     (case read_capped (limit_output_bytes limit) (stderr_bytes run) of
        Inl e \<Rightarrow> Finished (Inl (VerdictIo e))
      | Inr stderr \<Rightarrow>
          (case outcome of
             OutputExceeded \<Rightarrow> Finished (Inr (Killed OutputLimitExceeded stdout stderr))
           | WallTimeout \<Rightarrow> Finished (Inr (Killed WallTimeLimitExceeded stdout stderr))
           | Exited status \<Rightarrow> exited_verdict c limit run cg status stdout stderr))))))))"

text \<open>The trait's operations: the workdir is created or not, and each verdict id has its run.\<close>

definition cpp_ops :: "(string \<Rightarrow> string + unit) \<Rightarrow> (string \<Rightarrow> compile_run) \<Rightarrow> (u64 \<Rightarrow> program_run) \<Rightarrow> judge_ops" where
  "cpp_ops dir_created compile_of run_of =
     \<lparr>op_prepare = \<lambda>workdir _. (case dir_created workdir of Inl e \<Rightarrow> Inl (VerdictIo e) | Inr _ \<Rightarrow> Inr ()),
      op_compile = \<lambda>source. cpp_compile (compile_of source),
      op_verdict = \<lambda>c limit i. cpp_verdict (run_of i) c limit i\<rparr>"

subsection \<open>Accepted programs\<close>

text \<open>What an accepted program did, unless the output limit is the largest \<open>u64\<close>.\<close>

definition cpp_passes :: "(u64 \<Rightarrow> program_run) \<Rightarrow> test_case \<Rightarrow> resources_limit \<Rightarrow> u64 \<Rightarrow> resources_usage \<Rightarrow> bool" where
  "cpp_passes run_of c limit i u \<longleftrightarrow>
     child_outcome (run_of i) = Exited (ExitCode 0) \<and> used_cpu_time_ms u \<le> limit_cpu_time_ms limit \<and>
     parse_cpu_stat (cpu_stat_text (reading (run_of i))) = Some (used_cpu_time_ms u) \<and>
     (limit_output_bytes limit \<noteq> - 1 \<longrightarrow>
        stdout_bytes (run_of i) = case_output c \<and> \<not> over_limit (limit_output_bytes limit) (stdout_bytes (run_of i)))"

lemma unat_succ_not_max:
  fixes l :: u64
  assumes "l \<noteq> - 1"
  shows "unat (l + 1) = Suc (unat l)"
proof -
  have "l < - 1" using assms by (simp add: word_order.not_eq_extremum)
  from unat_suc_less [OF this] show ?thesis by simp
qed

lemma read_capped_exact:
  assumes "read_capped l bytes = Inr s" and "\<not> over_limit l s" and "l \<noteq> - 1"
  shows "s = bytes"
  using assms by (auto simp: read_capped_def over_limit_def Let_def unat_succ_not_max split: if_splits)

lemma cpp_verdict_accepted:
  assumes "cpp_verdict (run_of i) c limit i = Finished (Inr (Accepted u))"
  shows "cpp_passes run_of c limit i u"
proof -
  from assms obtain pid out err where out: "read_capped (limit_output_bytes limit) (stdout_bytes (run_of i)) = Inr out"
    and exited: "child_outcome (run_of i) = Exited (ExitCode 0)"
    and v: "exited_verdict c limit (run_of i) (cgroup_add_task pid (spawned_at (run_of i))
       (cgroup_new (''verdict-cpp-'' @ show_nat (unat i)) limit)) (ExitCode 0) out err = Finished (Inr (Accepted u))"
    by (auto simp: cpp_verdict_def exited_verdict_def exit_success_def Let_def
          split: sum.splits stdin_result.splits child_outcome.splits exit_status.splits if_splits)
  from v have "used_cpu_time_ms u \<le> limit_cpu_time_ms limit" "parse_cpu_stat (cpu_stat_text (reading (run_of i))) = Some (used_cpu_time_ms u)"
    "out = case_output c" "\<not> over_limit (limit_output_bytes limit) out"
    by (auto simp: exited_verdict_def exit_success_def cgroup_usage_def not_less split: option.splits if_splits)
  with exited read_capped_exact [OF out] show ?thesis by (auto simp: cpp_passes_def)
qed

interpretation cpp: sound_judge "\<lambda>c limit i. cpp_verdict (run_of i) c limit i" "cpp_passes run_of" for run_of
  by unfold_locales (rule cpp_verdict_accepted)

subsection \<open>Properties\<close>

definition demo_limit :: "u64 \<Rightarrow> resources_limit" where
  "demo_limit output = \<lparr>limit_cpu_time_ms = 1000, limit_wall_time_ms = 2000, limit_memory_bytes = 4096, limit_output_bytes = output\<rparr>"

definition demo_program :: "child_outcome \<Rightarrow> string \<Rightarrow> program_run" where
  "demo_program outcome out =
     \<lparr>cgroup_created = Inr (), child_spawned = Inr 42, cgroup_joined = Inr (), spawned_at = 0,
      stdin_result = StdinWritten, child_outcome = outcome, stdout_bytes = out, stderr_bytes = [],
      usage_read_at = 7,
      reading = \<lparr>max_usage_in_bytes = 100, cpu_stat_text = ''usage_usec 2000'', oom_kill_count = 0\<rparr>\<rparr>"

definition demo_compiles :: compile_run where
  "demo_compiles =
     \<lparr>source_written = Inr (), compiler_run = ToolExited True (Inr []), linker_run = ToolExited True (Inr [])\<rparr>"

definition demo_cpp :: "child_outcome \<Rightarrow> string \<Rightarrow> judge_ops" where
  "demo_cpp outcome out = cpp_ops (\<lambda>_. Inr ()) (\<lambda>_. demo_compiles) (\<lambda>_. demo_program outcome out)"

definition one_case :: "u64 \<Rightarrow> string \<Rightarrow> verdict_task" where
  "one_case output_limit expected =
     \<lparr>task_source = ''s'', task_cases = [\<lparr>case_input = [], case_output = expected\<rparr>],
      task_limits = demo_limit output_limit, task_language = Cpp, stop_on_first_error = True\<rparr>"

lemma demo_usage_read: "parse_cpu_stat ''usage_usec 2000'' = Some 2"
  by (simp add: parse_cpu_stat_def text_lines_def text_words_def is_space_def parse_u64_def is_digit_def
        digit_value_def read_nat_def)

text \<open>The one-case task comes down to its case.\<close>

lemma handle_one_case:
  "fst (handle (demo_cpp outcome out) (\<lambda>_ runs. runs) of_nat 1 (one_case output_limit expected)) =
   final_result True (absorb True (Going None [None])
     (0, cpp_verdict (demo_program outcome out) \<lparr>case_input = [], case_output = expected\<rparr> (demo_limit output_limit) 0))"
proof -
  have "op_prepare (demo_cpp outcome out) w 1 = Inr ()" "op_compile (demo_cpp outcome out) src = Inr CompileSuccess" for w src
    by (simp_all add: demo_cpp_def cpp_ops_def cpp_compile_def demo_compiles_def)
  from handle_running [OF this, of "one_case output_limit expected"] show ?thesis
    by (subst (asm) run_batches.simps)
       (simp add: one_case_def demo_cpp_def cpp_ops_def BATCH_MAX_def Let_def run_batches.simps split: progress.splits)
qed

text \<open>A C++ task that is reported as passed was solved: every program run exited with code 0, stayed
  within the CPU limit by the kernel's accounting, wrote exactly the expected output and no more than
  the output limit, whatever the order in which the runs completed; the reported usage bounds that of
  every case.  (An output limit of the largest \<open>u64\<close> is excluded, see below.)\<close>
theorem passed_programs_correct:
  assumes "fair_completion completion" and "stop_on_first_error task"
    and "fst (handle (cpp_ops dir_created compile_of run_of) completion vid i task) = Some (AllPassed m)"
    and "n < length (task_cases task)" and "limit_output_bytes (task_limits task) \<noteq> - 1"
  shows "child_outcome (run_of (vid n)) = Exited (ExitCode 0) \<and>
    stdout_bytes (run_of (vid n)) = case_output (task_cases task ! n) \<and>
    \<not> over_limit (limit_output_bytes (task_limits task)) (stdout_bytes (run_of (vid n))) \<and>
    (\<exists>cpu. parse_cpu_stat (cpu_stat_text (reading (run_of (vid n)))) = Some cpu \<and>
       cpu \<le> limit_cpu_time_ms (task_limits task) \<and> cpu \<le> used_cpu_time_ms m)"
proof -
  have "op_verdict (cpp_ops dir_created compile_of run_of) = (\<lambda>c limit i. cpp_verdict (run_of i) c limit i)"
    by (simp add: cpp_ops_def)
  from cpp.all_passed [OF assms(1) this assms(3,4,2)] assms(5) show ?thesis
    by (auto simp: cpp_passes_def usage_le_def)
qed

text \<open>A submission can make the judge itself fail, in three ways: a program that prints one byte that is
  not UTF-8 gives \<open>Internal\<close> and not a wrong answer; a program whose output is cut by the output limit
  inside a character gives \<open>Internal\<close> and not \<open>OutputLimitExceeded\<close>; and a program that dies of the
  closed pipe before the limit is noticed is reported as killed by signal 13.\<close>
theorem program_output_breaks_judge:
  "fst (handle (demo_cpp (Exited (ExitCode 0)) [CHR 0xFF]) (\<lambda>_ runs. runs) of_nat 1 (one_case 10 ''ok'')) =
     Some (Internal UTF8_ERROR) \<and>
   fst (handle (demo_cpp OutputExceeded [CHR 0xC3, CHR 0xA9, CHR 0xC3, CHR 0xA9]) (\<lambda>_ runs. runs) of_nat 1 (one_case 2 ''ok'')) =
     Some (Internal UTF8_ERROR) \<and>
   fst (handle (demo_cpp (Exited (ExitSignal 13)) ''12345'') (\<lambda>_ runs. runs) of_nat 1 (one_case 2 ''ok'')) =
     Some (Stopped (Killed (Signaled 13) ''123'' []))"
  unfolding handle_one_case
  by (simp add: cpp_verdict_def demo_program_def demo_limit_def read_capped_def utf8_ok_def exited_verdict_def
        exit_success_def was_oom_killed_def Let_def utf8_tail_def)

text \<open>With the largest \<open>u64\<close> as the output limit, \<open>output_limit + 1\<close> wraps to zero and nothing of the
  output is read: the right answer is rejected, and any output is accepted for an empty answer.\<close>
theorem output_limit_wraps:
  "fst (handle (demo_cpp (Exited (ExitCode 0)) ''ok'') (\<lambda>_ runs. runs) of_nat 1 (one_case (- 1) ''ok'')) =
     Some (Stopped (WrongAnswer \<lparr>case_input = [], case_output = ''ok''\<rparr> [] [])) \<and>
   fst (handle (demo_cpp (Exited (ExitCode 0)) ''bad'') (\<lambda>_ runs. runs) of_nat 1 (one_case (- 1) [])) =
     Some (AllPassed \<lparr>used_cpu_time_ms = 2, used_wall_time_ms = 7, used_memory_bytes = 100\<rparr>)"
  unfolding handle_one_case
  by (simp add: cpp_verdict_def demo_program_def demo_limit_def read_capped_def utf8_ok_def exited_verdict_def
        exit_success_def cgroup_usage_def demo_usage_read cgroup_add_task_def cgroup_new_def over_limit_def
        usage_opt_max_def)

end
