(* ===== verification/Agent.thy ===== *)
theory Agent
  imports Cpp_Judge Pool_Properties
begin

text \<open>
  The agent process (\<open>judge_core_agent/src/main.rs\<close>) and the standalone judge
  (\<open>judge_core_standalone/src/main.rs\<close>), and the whole path of a task: the manager's \<open>execute_task\<close>
  over a connection whose other end is the agent's handler.
\<close>

subsection \<open>A connection\<close>

text \<open>\<open>judge i task\<close> is the verdict of \<open>handle\<close> for the task's language, \<open>None\<close> a panic.\<close>

definition agent_connection ::
  "(u8 list \<Rightarrow> verdict_task frame option) \<Rightarrow> (verdict_task_result frame \<Rightarrow> u8 list option) \<Rightarrow>
   (u64 \<Rightarrow> verdict_task \<Rightarrow> verdict_task_result option) \<Rightarrow> stream \<Rightarrow> (protocol_error + stream) option" where
  "agent_connection de ser judge s =
     (case receive de s of
        Inl e \<Rightarrow> Some (Inl e)
      | Inr (None, s1) \<Rightarrow> Some (Inr s1)
      | Inr (Some (i, task), s1) \<Rightarrow>
          (case judge i task of
             None \<Rightarrow> None
           | Some res \<Rightarrow> send ser s1 i res))"

definition judge_task ::
  "judge_ops \<Rightarrow> (nat \<Rightarrow> (nat \<times> join_outcome) list \<Rightarrow> (nat \<times> join_outcome) list) \<Rightarrow> (nat \<Rightarrow> u64) \<Rightarrow>
   u64 \<Rightarrow> verdict_task \<Rightarrow> verdict_task_result option" where
  "judge_task cpp completion vid i task = (case task_language task of Cpp \<Rightarrow> fst (handle cpp completion vid i task))"

text \<open>The agent at the other end of a manager's stream: it is sent what the manager wrote, and the
  manager will read what it answers.\<close>

definition agent_end :: "stream \<Rightarrow> stream" where
  "agent_end s = \<lparr>incoming = outgoing s, outgoing = [], writable = True\<rparr>"

definition agent_answer ::
  "(u8 list \<Rightarrow> verdict_task frame option) \<Rightarrow> (verdict_task_result frame \<Rightarrow> u8 list option) \<Rightarrow>
   (u64 \<Rightarrow> verdict_task \<Rightarrow> verdict_task_result option) \<Rightarrow> stream \<Rightarrow> stream option" where
  "agent_answer de ser judge s =
     (case agent_connection de ser judge (agent_end s) of
        Some (Inr t) \<Rightarrow> Some (s\<lparr>incoming := incoming s @ outgoing t\<rparr>)
      | _ \<Rightarrow> Some s)"

subsection \<open>Standalone\<close>

text \<open>The task id comes from a process-wide counter.\<close>

definition standalone_task ::
  "(u64 \<Rightarrow> verdict_task \<Rightarrow> verdict_task_result option) \<Rightarrow> verdict_task \<Rightarrow> u64 \<Rightarrow>
   verdict_response success_response option \<times> u64" where
  "standalone_task judge task counter =
     (map_option (\<lambda>res. \<lparr>response_data = result_into_response res, response_message = ''task completed''\<rparr>)
        (judge counter task), counter + 1)"

lemma receive_last_frame:
  assumes "de bs = Some f" and "bs \<noteq> []" and "length bs < 2 ^ 32" and "incoming s = frame_bytes bs"
  shows "receive de s = Inr (Some f, s\<lparr>incoming := []\<rparr>)"
  using receive_frame [where de = de and bs = bs and f = f and s = s and rest = "[]"] assms by simp

definition fresh_stream :: stream where
  "fresh_stream = \<lparr>incoming = [], outgoing = [], writable = True\<rparr>"

lemma execute_task_round_trip:
  assumes "codec_ok ser_task de_task (i, task)" and "judge i task = Some res" and "codec_ok ser_res de_res (i, res)"
  shows "execute_task ser_task de_res (Connected fresh_stream) (agent_answer de_task ser_res judge) i task cfg = Some (Inr res)"
proof -
  from send_codec_ok [OF assms(1), of fresh_stream] obtain bs where
    bs: "ser_task (i, task) = Some bs"
    and sent: "send ser_task fresh_stream i task = Some (Inr (fresh_stream\<lparr>outgoing := frame_bytes bs\<rparr>))"
    by (auto simp: fresh_stream_def)
  have bs_ok: "de_task bs = Some (i, task)" "bs \<noteq> []" "length bs < 2 ^ 32"
    using assms(1) bs by (simp_all add: codec_ok_def)
  let ?s1 = "fresh_stream\<lparr>outgoing := frame_bytes bs\<rparr>"
  have "incoming (agent_end ?s1) = frame_bytes bs" by (simp add: agent_end_def)
  from receive_last_frame [where de = de_task and bs = bs, OF bs_ok this]
  have got: "receive de_task (agent_end ?s1) = Inr (Some (i, task), (agent_end ?s1)\<lparr>incoming := []\<rparr>)" .
  from send_codec_ok [OF assms(3), of "(agent_end ?s1)\<lparr>incoming := []\<rparr>"] obtain rs where
    rs: "ser_res (i, res) = Some rs"
    and reply: "send ser_res ((agent_end ?s1)\<lparr>incoming := []\<rparr>) i res =
      Some (Inr ((agent_end ?s1)\<lparr>incoming := [], outgoing := frame_bytes rs\<rparr>))"
    by (auto simp: agent_end_def)
  have rs_ok: "de_res rs = Some (i, res)" "rs \<noteq> []" "length rs < 2 ^ 32"
    using assms(3) rs by (simp_all add: codec_ok_def)
  have answer: "agent_answer de_task ser_res judge ?s1 = Some (?s1\<lparr>incoming := frame_bytes rs\<rparr>)"
    using got reply assms(2) by (simp add: agent_answer_def agent_connection_def fresh_stream_def)
  have "incoming (?s1\<lparr>incoming := frame_bytes rs\<rparr>) = frame_bytes rs" by simp
  from receive_last_frame [where de = de_res and bs = rs, OF rs_ok this] sent answer show ?thesis by (simp add: execute_task_def)
qed

subsection \<open>Properties\<close>

text \<open>C22. A task that is dispatched to an agent comes back with the verdict that agent reached for exactly
  this task and frame id: over a connection that works, \<open>execute_task\<close> on the manager and the
  connection handler on the agent compose to the agent's verdict.  Of the serialiser it is used that
  the two frames decode to what was encoded, are not empty and fit a 32-bit length.\<close>
theorem task_round_trip:
  assumes "codec_ok ser_task de_task (i, task)" and "judge i task = Some res" and "codec_ok ser_res de_res (i, res)"
  shows "execute_task ser_task de_res (Connected fresh_stream) (agent_answer de_task ser_res judge) i task cfg = Some (Inr res)"
  using assms by (rule execute_task_round_trip)

theorem task_round_trip_witness:
  "execute_task (\<lambda>f. if f = (7, demo_task) then Some [1] else None) (\<lambda>bs. if bs = [2] then Some (7, Collected []) else None)
     (Connected fresh_stream)
     (agent_answer (\<lambda>bs. if bs = [1] then Some (7, demo_task) else None)
        (\<lambda>f. if f = (7, Collected []) then Some [2] else None) (\<lambda>_ _. Some (Collected [])))
     7 demo_task demo_cfg = Some (Inr (Collected []))"
  by (rule task_round_trip) (simp_all add: codec_ok_def)

text \<open>A heartbeat is answered: what the manager's probe writes makes the agent's handler answer at once,
  without judging anything, and the probe accepts the answer.\<close>
theorem heartbeat_answered:
  "\<exists>s1 t. heartbeat_request fresh_stream = Inr s1 \<and>
     agent_connection de ser judge (agent_end s1) = Some (Inr t) \<and>
     result_ok (heartbeat_response (s1\<lparr>incoming := outgoing t\<rparr>))"
proof -
  let ?s1 = "fresh_stream\<lparr>outgoing := be_bytes HEARTBEAT_MAGIC\<rparr>"
  have "heartbeat_request fresh_stream = Inr ?s1"
    by (simp add: heartbeat_request_def write_bytes_def fresh_stream_def)
  moreover have "incoming (agent_end ?s1) = be_bytes HEARTBEAT_MAGIC @ []" by (simp add: agent_end_def)
  then have "receive de (agent_end ?s1) =
      Inr (None, (agent_end ?s1)\<lparr>incoming := [], outgoing := be_bytes HEARTBEAT_MAGIC\<rparr>)"
    by (subst receive_heartbeat) (simp_all add: agent_end_def)
  then have "agent_connection de ser judge (agent_end ?s1) =
      Some (Inr ((agent_end ?s1)\<lparr>incoming := [], outgoing := be_bytes HEARTBEAT_MAGIC\<rparr>))"
    by (simp add: agent_connection_def)
  moreover have "result_ok (heartbeat_response (?s1\<lparr>incoming := be_bytes HEARTBEAT_MAGIC\<rparr>))"
    using read_u32_be_bytes [of "?s1\<lparr>incoming := be_bytes HEARTBEAT_MAGIC\<rparr>" HEARTBEAT_MAGIC "[]"]
    by (simp add: heartbeat_response_def)
  ultimately show ?thesis by fastforce
qed

text \<open>A retry reuses the frame id, and the agent names the working directory after it: in this reachable
  state the task that timed out on an agent is executed again on the same agent, in the directory the
  first attempt, which nobody stopped, is still using and will remove.\<close>
theorem retry_shares_workdir:
  "let s = dispatch_now demo_cfg (finish_now demo_cfg 0 (Inl (TaskTimeout 30)) (demo_queued 0) {#} demo_running);
       q = (demo_queued 0)\<lparr>retries := 1\<rparr>
   in pool_reach demo_cfg s \<and> Executing 0 q \<in># executions s \<and>
      workdir_of (queued_frame_id q) = workdir_of (queued_frame_id (demo_queued 0))"
proof -
  have "pool_reach demo_cfg (finish_now demo_cfg 0 (Inl (TaskTimeout 30)) (demo_queued 0) {#} demo_running)"
    by (rule reach_finish_now [OF demo_running_reach]) (simp add: demo_running_eq)
  then have "pool_reach demo_cfg
      (dispatch_now demo_cfg (finish_now demo_cfg 0 (Inl (TaskTimeout 30)) (demo_queued 0) {#} demo_running))"
    by (rule reach_dispatch_now) (simp add: demo_running_eq demo_queued_def demo_cfg_def run_defs)
  then show ?thesis by (simp add: demo_running_eq demo_queued_def demo_cfg_def run_defs)
qed

end
