(* ===== verification/Manager_Http.thy ===== *)
theory Manager_Http
  imports Pool_Properties
begin

text \<open>
  The manager's HTTP interface (\<open>judge_core_manager/src/router.rs\<close>) and the client that talks to it
  (\<open>judge_core_sdk/src/lib.rs\<close>).  Bodies are of a type \<open>'b\<close>; JSON is the parameter that encodes and
  decodes them.  \<open>display\<close> is the text of an error.
\<close>

subsection \<open>The server\<close>

record 'b http_response =
  resp_status :: nat
  resp_body :: 'b

definition body_limit :: nat where "body_limit = 10 * 1024 * 1024"

datatype manager_route = MetricszHandler | AcceptablezHandler | TaskHandler

definition manager_routes :: "(string \<times> string \<times> manager_route) list" where
  "manager_routes =
     [(METRICS_URL, ''GET'', MetricszHandler), (ACCEPTABLE_URL, ''GET'', AcceptablezHandler),
      (TASK_URL, ''POST'', TaskHandler)]"

fun error_status :: "pool_error \<Rightarrow> nat \<times> string" where
  "error_status QueueFull = (503, ERR_QUEUE_FULL)"
| "error_status (MaxRetriesExceeded _) = (503, ERR_MAX_RETRIES_EXCEEDED)"
| "error_status AgentUnavailable = (503, ERR_AGENT_UNAVAILABLE)"
| "error_status ShuttingDown = (503, ERR_SHUTTING_DOWN)"
| "error_status (TaskTimeout _) = (504, ERR_TASK_TIMEOUT)"
| "error_status ConnectionFailed = (500, ERR_CONNECTION_FAILED)"
| "error_status (ProtocolFailed _) = (500, ERR_PROTOCOL_ERROR)"
| "error_status (ProvisionFailed _) = (500, ERR_PROVISION_ERROR)"
| "error_status (AgentBusy _) = (500, ERR_AGENT_BUSY)"

definition app_error_response :: "(error_response \<Rightarrow> 'b) \<Rightarrow> (pool_error \<Rightarrow> string) \<Rightarrow> pool_error \<Rightarrow> 'b http_response" where
  "app_error_response enc_err display e =
     (let (status, code) = error_status e
      in \<lparr>resp_status = status, resp_body = enc_err \<lparr>error_code = code, error_message = display e\<rparr>\<rparr>)"

definition metricsz_handler :: "(pool_metrics success_response \<Rightarrow> 'b) \<Rightarrow> pool_state \<Rightarrow> 'b http_response" where
  "metricsz_handler enc s =
     \<lparr>resp_status = 200,
      resp_body = enc \<lparr>response_data = pool_metrics_of s, response_message = ''metrics retrieved''\<rparr>\<rparr>"

definition acceptable_now :: "pool_metrics \<Rightarrow> bool" where
  "acceptable_now m \<longleftrightarrow> queue_size m < 1000 \<and> 0 < healthy_agent_count m"

definition acceptablez_handler :: "(acceptablez_response success_response \<Rightarrow> 'b) \<Rightarrow> pool_state \<Rightarrow> 'b http_response" where
  "acceptablez_handler enc s =
     (let m = pool_metrics_of s
      in \<lparr>resp_status = 200,
          resp_body = enc \<lparr>response_data = \<lparr>acceptable = acceptable_now m, acceptable_metrics = m\<rparr>,
                           response_message = ''acceptable status retrieved''\<rparr>\<rparr>)"

text \<open>The end of \<open>submit\<close>: a channel closed without an answer is \<open>AgentUnavailable\<close>.\<close>

definition await_reply :: "task_reply option \<Rightarrow> task_reply" where
  "await_reply r = (case r of None \<Rightarrow> Inl AgentUnavailable | Some reply \<Rightarrow> reply)"

definition task_handler ::
  "(verdict_response success_response \<Rightarrow> 'b) \<Rightarrow> (error_response \<Rightarrow> 'b) \<Rightarrow> (pool_error \<Rightarrow> string) \<Rightarrow>
   task_reply \<Rightarrow> 'b http_response" where
  "task_handler enc enc_err display reply =
     (case reply of
        Inl e \<Rightarrow> app_error_response enc_err display e
      | Inr result \<Rightarrow>
          \<lparr>resp_status = 200,
           resp_body = enc \<lparr>response_data = result_into_response result, response_message = ''task completed''\<rparr>\<rparr>)"

subsection \<open>The client\<close>

datatype sdk_error =
    UsingStandaloneMode
  | SdkQueueFull
  | SdkMaxRetriesExceeded
  | SdkAgentUnavailable
  | SdkShuttingDown
  | SdkTaskTimeout
  | SdkConnectionFailed
  | SdkProtocolError
  | SdkProvisionError
  | SdkAgentBusy
  | SdkRequest

record judge_core_client =
  standalone_mode :: bool
  base_url :: string

definition merge_url :: "judge_core_client \<Rightarrow> string \<Rightarrow> string" where
  "merge_url client url = base_url client @ url"

definition assert_not_standalone :: "judge_core_client \<Rightarrow> sdk_error + unit" where
  "assert_not_standalone client = (if standalone_mode client then Inl UsingStandaloneMode else Inr ())"

text \<open>The error for a response's code; \<open>None\<close> is the panic on an unknown one.\<close>

definition sdk_error_of_code :: "string \<Rightarrow> sdk_error option" where
  "sdk_error_of_code code =
     (if code = ERR_QUEUE_FULL then Some SdkQueueFull
      else if code = ERR_MAX_RETRIES_EXCEEDED then Some SdkMaxRetriesExceeded
      else if code = ERR_AGENT_UNAVAILABLE then Some SdkAgentUnavailable
      else if code = ERR_SHUTTING_DOWN then Some SdkShuttingDown
      else if code = ERR_TASK_TIMEOUT then Some SdkTaskTimeout
      else if code = ERR_CONNECTION_FAILED then Some SdkConnectionFailed
      else if code = ERR_PROTOCOL_ERROR then Some SdkProtocolError
      else if code = ERR_PROVISION_ERROR then Some SdkProvisionError
      else if code = ERR_AGENT_BUSY then Some SdkAgentBusy
      else None)"

definition parse_success ::
  "('b \<Rightarrow> 'a success_response option) \<Rightarrow> ('b \<Rightarrow> error_response option) \<Rightarrow> 'b http_response \<Rightarrow> (sdk_error + 'a) option" where
  "parse_success dec dec_err response =
     (if 200 \<le> resp_status response \<and> resp_status response < 300 then
        (case dec (resp_body response) of
           None \<Rightarrow> Some (Inl SdkRequest)
         | Some body \<Rightarrow> Some (Inr (response_data body)))
      else
        (case dec_err (resp_body response) of
           None \<Rightarrow> Some (Inl SdkRequest)
         | Some body \<Rightarrow> map_option Inl (sdk_error_of_code (error_code body))))"

text \<open>\<open>http\<close> performs a request: method, URL, body of the request; \<open>None\<close> is a transport error.\<close>

definition client_metrics ::
  "(string \<Rightarrow> string \<Rightarrow> 'b http_response option) \<Rightarrow> ('b \<Rightarrow> pool_metrics success_response option) \<Rightarrow>
   ('b \<Rightarrow> error_response option) \<Rightarrow> judge_core_client \<Rightarrow> (sdk_error + pool_metrics) option" where
  "client_metrics http dec dec_err client =
     (case assert_not_standalone client of
        Inl e \<Rightarrow> Some (Inl e)
      | Inr _ \<Rightarrow>
          (case http ''GET'' (merge_url client METRICS_URL) of
             None \<Rightarrow> Some (Inl SdkRequest)
           | Some response \<Rightarrow> parse_success dec dec_err response))"

definition client_acceptable ::
  "(string \<Rightarrow> string \<Rightarrow> 'b http_response option) \<Rightarrow> ('b \<Rightarrow> acceptablez_response success_response option) \<Rightarrow>
   ('b \<Rightarrow> error_response option) \<Rightarrow> judge_core_client \<Rightarrow> (sdk_error + acceptablez_response) option" where
  "client_acceptable http dec dec_err client =
     (case assert_not_standalone client of
        Inl e \<Rightarrow> Some (Inl e)
      | Inr _ \<Rightarrow>
          (case http ''GET'' (merge_url client ACCEPTABLE_URL) of
             None \<Rightarrow> Some (Inl SdkRequest)
           | Some response \<Rightarrow> parse_success dec dec_err response))"

definition task_submit ::
  "(string \<Rightarrow> string \<Rightarrow> verdict_task \<Rightarrow> 'b http_response option) \<Rightarrow> ('b \<Rightarrow> verdict_response success_response option) \<Rightarrow>
   ('b \<Rightarrow> error_response option) \<Rightarrow> judge_core_client \<Rightarrow> verdict_task \<Rightarrow> (sdk_error + verdict_task_result) option" where
  "task_submit http dec dec_err client task =
     (case http ''POST'' (merge_url client TASK_URL) task of
        None \<Rightarrow> Some (Inl SdkRequest)
      | Some response \<Rightarrow>
          map_option (\<lambda>r. case r of Inl e \<Rightarrow> Inl e | Inr verdict \<Rightarrow> Inr (result_of_response verdict))
            (parse_success dec dec_err response))"

text \<open>The error the client is meant to see for each pool error.\<close>

fun sdk_error_for :: "pool_error \<Rightarrow> sdk_error" where
  "sdk_error_for QueueFull = SdkQueueFull"
| "sdk_error_for (MaxRetriesExceeded _) = SdkMaxRetriesExceeded"
| "sdk_error_for AgentUnavailable = SdkAgentUnavailable"
| "sdk_error_for ShuttingDown = SdkShuttingDown"
| "sdk_error_for (TaskTimeout _) = SdkTaskTimeout"
| "sdk_error_for ConnectionFailed = SdkConnectionFailed"
| "sdk_error_for (ProtocolFailed _) = SdkProtocolError"
| "sdk_error_for (ProvisionFailed _) = SdkProvisionError"
| "sdk_error_for (AgentBusy _) = SdkAgentBusy"

lemma sdk_error_of_status: "sdk_error_of_code (snd (error_status e)) = Some (sdk_error_for e)"
  by (cases e) (simp_all add: sdk_error_of_code_def error_code_defs)

lemma error_status_not_ok: "\<not> (200 \<le> fst (error_status e) \<and> fst (error_status e) < 300)"
  by (cases e) simp_all

lemma task_submit_reply:
  fixes enc :: "verdict_response success_response \<Rightarrow> 'b" and enc_err :: "error_response \<Rightarrow> 'b"
  assumes "\<And>x. dec (enc x) = Some x" and "\<And>x. dec_err (enc_err x) = Some x"
  shows "task_submit (\<lambda>_ _ _. Some (task_handler enc enc_err display reply)) dec dec_err client task =
    Some (case reply of Inl e \<Rightarrow> Inl (sdk_error_for e) | Inr result \<Rightarrow> Inr result)"
proof (cases reply)
  case (Inl e)
  obtain st code where e: "error_status e = (st, code)" by fastforce
  then have "sdk_error_of_code code = Some (sdk_error_for e)" "\<not> (200 \<le> st \<and> st < 300)"
    using sdk_error_of_status [of e] error_status_not_ok [of e] by auto
  with Inl e assms show ?thesis
    by (auto simp: task_submit_def task_handler_def app_error_response_def parse_success_def)
next
  case (Inr result)
  with assms show ?thesis by (simp add: task_submit_def task_handler_def parse_success_def)
qed

subsection \<open>Properties\<close>

text \<open>C23. Client and server agree: whatever the pool answers a submission, the client that posted it
  returns exactly that result, or the client error of the same kind, and never meets the panic on an
  unknown error code.  Of JSON it is used that both kinds of body decode to what was encoded.\<close>
theorem client_server_agree:
  fixes enc :: "verdict_response success_response \<Rightarrow> 'b" and enc_err :: "error_response \<Rightarrow> 'b"
  assumes "\<And>x. dec (enc x) = Some x" and "\<And>x. dec_err (enc_err x) = Some x"
  shows "task_submit (\<lambda>_ _ _. Some (task_handler enc enc_err display reply)) dec dec_err client task =
    Some (case reply of Inl e \<Rightarrow> Inl (sdk_error_for e) | Inr result \<Rightarrow> Inr result)"
  using assms by (rule task_submit_reply)

text \<open>A body type for concrete runs.\<close>

datatype demo_body = OkBody "verdict_response success_response" | ErrBody error_response

theorem client_server_agree_witness:
  "task_submit (\<lambda>_ _ _. Some (task_handler OkBody ErrBody (\<lambda>_. ''e'') (Inl QueueFull)))
     (\<lambda>b. case b of OkBody x \<Rightarrow> Some x | ErrBody _ \<Rightarrow> None) (\<lambda>b. case b of ErrBody x \<Rightarrow> Some x | OkBody _ \<Rightarrow> None)
     \<lparr>standalone_mode = False, base_url = ''http://m''\<rparr> demo_task =
   Some (case Inl QueueFull of Inl e \<Rightarrow> Inl (sdk_error_for e) | Inr result \<Rightarrow> Inr result)"
  by (rule client_server_agree) simp_all

text \<open>The manager answers a task that its pool has answered with status 200 or 503 only: the statuses 500
  and 504 of the error table cannot occur on \<open>/task\<close>, because single failed attempts are retried and
  then reported as exhausted retries.\<close>
theorem task_status_200_or_503:
  "pool_reach cfg s \<Longrightarrow> replies s c = Some reply \<Longrightarrow>
   resp_status (task_handler enc enc_err display (await_reply (replies s c))) = (if result_ok reply then 200 else 503)"
proof -
  assume reach: "pool_reach cfg s" and r: "replies s c = Some reply"
  have "reply_ok cfg reply" using retry.inv_reach [OF reach] r by (simp add: retry_inv_def ranI)
  from reply_ok_cases [OF this] r show ?thesis
    by (auto simp: task_handler_def await_reply_def app_error_response_def)
qed

text \<open>\<open>/acceptablez\<close> compares the queue with 1000 and not with the configured \<open>max_queue_size\<close>: this
  reachable pool reports that it accepts tasks and refuses the next one because its queue is full.\<close>
theorem acceptable_but_queue_full:
  "let s = submit_now demo_cfg demo_task (submit_now demo_cfg demo_task (submit_now demo_cfg demo_task demo_full))
   in pool_reach demo_cfg s \<and> acceptable_now (pool_metrics_of s) \<and>
      replies (submit_now demo_cfg demo_task s) (next_channel s) = Some (Inl QueueFull)"
  unfolding Let_def
  by (intro conjI reach_submit_now demo_full_reach)
     (simp_all add: demo_full_eq demo_cfg_def fresh_handle_def acceptable_now_def pool_metrics_of_def submit_now_def
        submit_enter_def submit_enqueue_def)

end
