(* ===== verification/Judging.thy ===== *)
theory Judging
  imports Agent Pool_Service Manager_Http
begin

text \<open>
  Judging from the client's call to the program's run: the client (\<open>judge_core_sdk\<close>) posts a task to the
  manager, whose pool sends it to agents until an attempt gives a verdict, and every agent judges it with
  the C++ judge.  The theory composes the models of these parts.
\<close>

subsection \<open>One attempt at a task\<close>

record wire =
  ser_task :: "verdict_task frame \<Rightarrow> u8 list option"
  de_task :: "u8 list \<Rightarrow> verdict_task frame option"
  ser_result :: "verdict_task_result frame \<Rightarrow> u8 list option"
  de_result :: "u8 list \<Rightarrow> verdict_task_result frame option"

text \<open>What is used of \<open>postcard\<close>: a frame that it serialises decodes to itself.\<close>

definition wire_law :: "wire \<Rightarrow> bool" where
  "wire_law w \<longleftrightarrow>
     (\<forall>f bs. ser_task w f = Some bs \<longrightarrow> de_task w bs = Some f) \<and>
     (\<forall>f bs. ser_result w f = Some bs \<longrightarrow> de_result w bs = Some f)"

text \<open>How one attempt went: connecting to the agent, whether the manager's timeout elapsed first, and what the
  agent's tools and the judged program did.  \<open>attempt_log\<close> is the record of what happened: which attempt was made at which
  task under which frame id.\<close>

record cpp_attempt =
  connected :: connect_outcome
  late :: bool
  workdir_made :: "string \<Rightarrow> string + unit"
  compiles :: "string \<Rightarrow> compile_run"
  runs :: "u64 \<Rightarrow> program_run"
  finish_order :: "nat \<Rightarrow> (nat \<times> join_outcome) list \<Rightarrow> (nat \<times> join_outcome) list"
  run_ids :: "nat \<Rightarrow> u64"

type_synonym attempt_log = "(u64 \<times> verdict_task \<times> cpp_attempt) set"

definition attempt_verdict :: "cpp_attempt \<Rightarrow> u64 \<Rightarrow> verdict_task \<Rightarrow> verdict_task_result option" where
  "attempt_verdict a = judge_task (cpp_ops (workdir_made a) (compiles a) (runs a)) (finish_order a) (run_ids a)"

definition attempt_reply :: "wire \<Rightarrow> pool_config \<Rightarrow> cpp_attempt \<Rightarrow> u64 \<Rightarrow> verdict_task \<Rightarrow> task_reply option" where
  "attempt_reply w cfg a i task =
     execute_task (ser_task w) (de_result w) (connected a)
       (if late a then (\<lambda>_. None) else agent_answer (de_task w) (ser_result w) (attempt_verdict a)) i task cfg"

definition possible_attempt :: "cpp_attempt \<Rightarrow> bool" where
  "possible_attempt a \<longleftrightarrow> fair_completion (finish_order a) \<and> (\<forall>s. connected a = Connected s \<longrightarrow> s = fresh_stream)"

text \<open>What the pool can be told about a task is the reply of an attempt that was made at it.\<close>

definition cpp_outcome :: "wire \<Rightarrow> pool_config \<Rightarrow> attempt_log \<Rightarrow> outcome" where
  "cpp_outcome w cfg made i task res \<longleftrightarrow>
     (\<exists>a. (i, task, a) \<in> made \<and> possible_attempt a \<and> attempt_reply w cfg a i task = Some res)"

text \<open>The source of the task compiled and the program solved the task's cases.\<close>

definition solved :: "cpp_attempt \<Rightarrow> verdict_task \<Rightarrow> bool" where
  "solved a task \<longleftrightarrow> cpp_compile (compiles a (task_source task)) = Inr CompileSuccess \<and>
     (\<forall>n < length (task_cases task).
        child_outcome (runs a (run_ids a n)) = Exited (ExitCode 0) \<and>
        stdout_bytes (runs a (run_ids a n)) = case_output (task_cases task ! n))"

subsection \<open>What comes back is what the agent found\<close>

lemma send_written:
  assumes "send ser s i x = Some (Inr s1)"
  obtains bs where "ser (i, x) = Some bs" and "length bs < 2 ^ 32" and "s1 = s\<lparr>outgoing := outgoing s @ frame_bytes bs\<rparr>"
  using assms by (auto simp: send_def write_bytes_def frame_bytes_def split: option.splits if_splits)

lemma receive_written:
  assumes "de bs = Some f" and "length bs < 2 ^ 32" and "incoming s = frame_bytes bs" and "receive de s = Inr (Some f', s')"
  shows "f' = f"
proof (cases "bs = []")
  case True
  with assms(3) have "read_u32 s = Inr (HEARTBEAT_MAGIC, s\<lparr>incoming := []\<rparr>)"
    by (intro read_u32_be_bytes) (simp add: frame_bytes_def HEARTBEAT_MAGIC_def)
  with assms(4) show ?thesis by (simp add: receive_def split: sum.splits)
next
  case False
  from receive_last_frame [where de = de and bs = bs, OF assms(1) False assms(2,3)] assms(4) show ?thesis by simp
qed

lemma receive_nothing: "incoming s = [] \<Longrightarrow> receive de s = Inl ProtocolIo"
  by (simp add: receive_def read_u32_def read_exact_def)

lemma agent_answer_written:
  assumes "agent_answer de ser judge s = Some s2" and "incoming s = []" and "outgoing s = frame_bytes bs"
    and "de bs = Some (i, task)" and "length bs < 2 ^ 32" and "receive de' s2 = Inr (Some f, s3)"
    and "\<And>res rs. ser (i, res) = Some rs \<Longrightarrow> de' rs = Some (i, res)"
  shows "\<exists>v. judge i task = Some v \<and> f = (i, v)"
proof -
  have "incoming (agent_end s) = frame_bytes bs" "outgoing (agent_end s) = []" using assms(3) by (simp_all add: agent_end_def)
  note agent = this
  from assms(1,2,6) obtain t where conn: "agent_connection de ser judge (agent_end s) = Some (Inr t)"
    and s2: "s2 = s\<lparr>incoming := outgoing t\<rparr>"
    by (auto simp: agent_answer_def receive_nothing split: option.splits sum.splits)
  show ?thesis
  proof (cases "bs = []")
    case True
    with agent(1) have in0: "incoming (agent_end s) = be_bytes HEARTBEAT_MAGIC @ []" by (simp add: frame_bytes_def HEARTBEAT_MAGIC_def)
    have "writable (agent_end s)" by (simp add: agent_end_def)
    from receive_heartbeat [OF in0 this, of de] conn have "outgoing t = be_bytes HEARTBEAT_MAGIC"
      by (auto simp: agent_connection_def agent_end_def)
    with s2 have "incoming s2 = be_bytes HEARTBEAT_MAGIC @ []" by simp
    from read_u32_be_bytes [OF this] assms(6) show ?thesis by (simp add: receive_def split: sum.splits)
  next
    case False
    from receive_last_frame [where de = de and bs = bs, OF assms(4) False assms(5) agent(1)] conn obtain v where v: "judge i task = Some v"
      and sent: "send ser ((agent_end s)\<lparr>incoming := []\<rparr>) i v = Some (Inr t)"
      by (auto simp: agent_connection_def split: option.splits)
    from sent obtain rs where rs: "ser (i, v) = Some rs" "length rs < 2 ^ 32" "incoming s2 = frame_bytes rs"
      by (rule send_written) (auto simp: s2 agent_end_def)
    from receive_written [OF assms(7) [OF rs(1)] rs(2,3) assms(6)] v show ?thesis by simp
  qed
qed

lemma execute_task_verdict:
  assumes "execute_task ser de' (Connected fresh_stream) (agent_answer de ser' judge) i task cfg = Some (Inr v)"
    and "\<And>bs. ser (i, task) = Some bs \<Longrightarrow> de bs = Some (i, task)"
    and "\<And>res rs. ser' (i, res) = Some rs \<Longrightarrow> de' rs = Some (i, res)"
  shows "judge i task = Some v"
proof -
  from assms(1) obtain s1 s2 f s3 where sent: "send ser fresh_stream i task = Some (Inr s1)"
    and answer: "agent_answer de ser' judge s1 = Some s2" and got: "receive de' s2 = Inr (Some f, s3)" and v: "snd f = v"
    by (auto simp: execute_task_def split: option.splits sum.splits prod.splits)
  from sent obtain bs where bs: "ser (i, task) = Some bs" "length bs < 2 ^ 32"
    "s1 = fresh_stream\<lparr>outgoing := outgoing fresh_stream @ frame_bytes bs\<rparr>" by (rule send_written)
  have "incoming s1 = []" "outgoing s1 = frame_bytes bs" by (simp_all add: bs(3) fresh_stream_def)
  from agent_answer_written [OF answer this assms(2) [OF bs(1)] bs(2) got assms(3)] v show ?thesis by auto
qed

lemma cpp_outcome_verdict:
  assumes "cpp_outcome w cfg made i task (Inr v)" and "wire_law w"
  shows "\<exists>a. (i, task, a) \<in> made \<and> possible_attempt a \<and> attempt_verdict a i task = Some v"
proof -
  from assms(1) obtain a where a: "possible_attempt a" "attempt_reply w cfg a i task = Some (Inr v)" "(i, task, a) \<in> made"
    by (auto simp: cpp_outcome_def)
  then have conn: "connected a = Connected fresh_stream" and "\<not> late a"
    by (auto simp: possible_attempt_def attempt_reply_def execute_task_def split: connect_outcome.splits option.splits sum.splits if_splits)
  with a(2) have "execute_task (ser_task w) (de_result w) (Connected fresh_stream)
      (agent_answer (de_task w) (ser_result w) (attempt_verdict a)) i task cfg = Some (Inr v)"
    by (simp add: attempt_reply_def)
  from execute_task_verdict [OF this] assms(2) a(1,3) show ?thesis by (auto simp: wire_law_def)
qed

lemma attempt_solved:
  assumes "possible_attempt a" and "attempt_verdict a i task = Some (AllPassed m)" and "stop_on_first_error task"
    and "limit_output_bytes (task_limits task) \<noteq> - 1"
  shows "solved a task"
proof -
  have passed: "fst (handle (cpp_ops (workdir_made a) (compiles a) (runs a)) (finish_order a) (run_ids a) i task) = Some (AllPassed m)"
    using assms(2) by (simp add: attempt_verdict_def judge_task_def split: language.splits)
  have "op_verdict (cpp_ops (workdir_made a) (compiles a) (runs a)) = (\<lambda>c limit i. cpp_verdict (runs a i) c limit i)"
    by (simp add: cpp_ops_def)
  note ran = cpp.all_passed [OF _ this passed _ assms(3)]
  have "cpp_compile (compiles a (task_source task)) = Inr CompileSuccess"
    using passed by (auto simp: handle_def cpp_ops_def Let_def split: sum.splits compile_result.splits)
  with ran assms(1,4) show ?thesis
    by (auto simp: solved_def possible_attempt_def cpp_passes_def)
qed

subsection \<open>The client's answer\<close>

record 'b json =
  enc_verdict :: "verdict_response success_response \<Rightarrow> 'b"
  dec_verdict :: "'b \<Rightarrow> verdict_response success_response option"
  enc_error :: "error_response \<Rightarrow> 'b"
  dec_error :: "'b \<Rightarrow> error_response option"
  show_error :: "pool_error \<Rightarrow> string"

definition json_law :: "'b json \<Rightarrow> bool" where
  "json_law js \<longleftrightarrow>
     (\<forall>x. dec_verdict js (enc_verdict js x) = Some x) \<and> (\<forall>x. dec_error js (enc_error js x) = Some x)"

text \<open>\<open>task_submit\<close> on a manager whose pool has answered the call's channel with \<open>reply\<close> or closed it; \<open>lost\<close> says
  whether the connection to the manager failed.\<close>

definition submit_to :: "'b json \<Rightarrow> judge_core_client \<Rightarrow> bool \<Rightarrow> task_reply option \<Rightarrow> verdict_task \<Rightarrow>
    (sdk_error + verdict_task_result) option" where
  "submit_to js client lost reply =
     task_submit (\<lambda>_ _ _. if lost then None else Some (task_handler (enc_verdict js) (enc_error js) (show_error js) (await_reply reply)))
       (dec_verdict js) (dec_error js) client"

text \<open>The answers the client can get for a task: the call is one of the callers of some run of the manager's
  pool, whose agents judge with the C++ judge and make the attempts of the log.\<close>

definition client_judges ::
  "wire \<Rightarrow> pool_config \<Rightarrow> attempt_log \<Rightarrow> 'b json \<Rightarrow> judge_core_client \<Rightarrow> verdict_task \<Rightarrow> sdk_error + verdict_task_result \<Rightarrow> bool" where
  "client_judges w cfg made js client task result \<longleftrightarrow>
     (\<exists>A s c lost. call_reach cfg (cpp_outcome w cfg made) (A, s) \<and> A c = Some task \<and>
        submit_to js client lost (replies s c) task = Some result)"

lemma submit_to_verdict:
  assumes "submit_to js client lost reply task = Some (Inr v)" and "json_law js"
  shows "reply = Some (Inr v)"
proof -
  have up: "\<not> lost" using assms(1) by (auto simp: submit_to_def task_submit_def)
  have "submit_to js client False reply task = Some (case await_reply reply of Inl e \<Rightarrow> Inl (sdk_error_for e) | Inr r \<Rightarrow> Inr r)"
    using task_submit_reply [of "dec_verdict js" "enc_verdict js" "dec_error js" "enc_error js" "show_error js" "await_reply reply" client task]
      assms(2) by (simp add: submit_to_def json_law_def)
  with assms(1) up show ?thesis by (simp add: await_reply_def split: option.splits sum.splits)
qed

text \<open>A task the client reports as passed was solved, in one of the attempts made at it.\<close>

lemma client_passed_solved:
  assumes "client_judges w cfg made js client task (Inr (AllPassed m))" and "wire_law w" and "json_law js"
    and "stop_on_first_error task" and "limit_output_bytes (task_limits task) \<noteq> - 1"
  shows "\<exists>i a. (i, task, a) \<in> made \<and> solved a task"
proof -
  from assms(1) obtain A s c lost where run: "call_reach cfg (cpp_outcome w cfg made) (A, s)" and asked: "A c = Some task"
    and "submit_to js client lost (replies s c) task = Some (Inr (AllPassed m))"
    by (auto simp: client_judges_def)
  from submit_to_verdict [OF this(3) assms(3)] have "replies s c = Some (Inr (AllPassed m))" .
  from service_answers [OF run this] asked obtain i where "cpp_outcome w cfg made i task (Inr (AllPassed m))" by auto
  from cpp_outcome_verdict [OF this assms(2)] obtain a where made: "(i, task, a) \<in> made"
    and "possible_attempt a" "attempt_verdict a i task = Some (AllPassed m)" by blast
  from made attempt_solved [OF this(2,3) assms(4,5)] show ?thesis by blast
qed

subsection \<open>A concrete judging\<close>

definition demo_judged_task :: verdict_task where
  "demo_judged_task =
     \<lparr>task_source = ''int main() {}'',
      task_cases = [\<lparr>case_input = ''1 2'', case_output = ''3''\<rparr>, \<lparr>case_input = ''40 2'', case_output = ''42''\<rparr>],
      task_limits = \<lparr>limit_cpu_time_ms = 1000, limit_wall_time_ms = 2000, limit_memory_bytes = 65536, limit_output_bytes = 1024\<rparr>,
      task_language = Cpp, stop_on_first_error = True\<rparr>"

definition demo_passed :: verdict_task_result where
  "demo_passed = AllPassed \<lparr>used_cpu_time_ms = 2, used_wall_time_ms = 7, used_memory_bytes = 100\<rparr>"

definition demo_wire :: wire where
  "demo_wire =
     \<lparr>ser_task = \<lambda>f. if f = (1, demo_judged_task) then Some [1] else None,
      de_task = \<lambda>bs. if bs = [1] then Some (1, demo_judged_task) else None,
      ser_result = \<lambda>f. if f = (1, demo_passed) then Some [2] else None,
      de_result = \<lambda>bs. if bs = [2] then Some (1, demo_passed) else None\<rparr>"

definition demo_json :: "demo_body json" where
  "demo_json =
     \<lparr>enc_verdict = OkBody, dec_verdict = \<lambda>b. (case b of OkBody x \<Rightarrow> Some x | ErrBody _ \<Rightarrow> None),
      enc_error = ErrBody, dec_error = \<lambda>b. (case b of ErrBody x \<Rightarrow> Some x | OkBody _ \<Rightarrow> None), show_error = \<lambda>_. ''e''\<rparr>"

definition demo_attempt :: cpp_attempt where
  "demo_attempt =
     \<lparr>connected = Connected fresh_stream, late = False, workdir_made = \<lambda>_. Inr (), compiles = \<lambda>_. demo_compiles,
      runs = \<lambda>i. demo_program (Exited (ExitCode 0)) (if i = 0 then ''3'' else ''42''),
      finish_order = \<lambda>_ rs. rev rs, run_ids = of_nat\<rparr>"

definition demo_log :: attempt_log where
  "demo_log = {(1, demo_judged_task, demo_attempt)}"

definition demo_client :: judge_core_client where
  "demo_client = \<lparr>standalone_mode = False, base_url = ''http://m''\<rparr>"

lemma demo_laws: "wire_law demo_wire" "json_law demo_json"
  by (auto simp: wire_law_def demo_wire_def json_law_def demo_json_def split: if_splits)

lemma demo_run_accepted:
  "out = ''3'' \<or> out = ''42'' \<Longrightarrow>
     cpp_verdict (demo_program (Exited (ExitCode 0)) out) \<lparr>case_input = inp, case_output = out\<rparr> (task_limits demo_judged_task) i =
       Finished (Inr (Accepted \<lparr>used_cpu_time_ms = 2, used_wall_time_ms = 7, used_memory_bytes = 100\<rparr>))"
  by (auto simp: cpp_verdict_def demo_judged_task_def demo_program_def read_capped_def utf8_ok_def exited_verdict_def exit_success_def
      cgroup_usage_def demo_usage_read cgroup_add_task_def cgroup_new_def over_limit_def)

lemma demo_attempt_verdict: "attempt_verdict demo_attempt 1 demo_judged_task = Some demo_passed"
proof -
  let ?ops = "cpp_ops (workdir_made demo_attempt) (compiles demo_attempt) (runs demo_attempt)"
  let ?n = "length (task_cases demo_judged_task)"
  have "op_prepare ?ops (workdir_of 1) 1 = Inr ()" "op_compile ?ops (task_source demo_judged_task) = Inr CompileSuccess"
    "task_cases demo_judged_task \<noteq> []"
    by (simp_all add: demo_attempt_def cpp_ops_def cpp_compile_def demo_compiles_def demo_judged_task_def)
  note running = handle_running [OF this]
  have v: "op_verdict ?ops \<lparr>case_input = inp, case_output = if k = 0 then ''3'' else ''42''\<rparr> (task_limits demo_judged_task) k =
      Finished (Inr (Accepted \<lparr>used_cpu_time_ms = 2, used_wall_time_ms = 7, used_memory_bytes = 100\<rparr>))" for inp k
    by (simp add: cpp_ops_def demo_attempt_def demo_run_accepted)
  have "fst (run_batches ?ops (finish_order demo_attempt) (run_ids demo_attempt) (task_limits demo_judged_task) True 0
      (task_cases demo_judged_task) (Going None (replicate ?n None))) = Going (Some \<lparr>used_cpu_time_ms = 2, used_wall_time_ms = 7, used_memory_bytes = 100\<rparr>) [None, None]"
    using v [of "''1 2''" 0] v [of "''40 2''" 1]
    by (subst run_batches.simps) (simp add: demo_judged_task_def BATCH_MAX_def Let_def demo_attempt_def run_batches.simps usage_opt_max_def usage_max_def)
  moreover have "stop_on_first_error demo_judged_task" "task_language demo_judged_task = Cpp" by (simp_all add: demo_judged_task_def)
  ultimately show ?thesis
    by (simp add: attempt_verdict_def judge_task_def running demo_passed_def)
qed

lemma demo_outcome: "cpp_outcome demo_wire demo_cfg demo_log 1 demo_judged_task (Inr demo_passed)"
proof -
  have "attempt_reply demo_wire demo_cfg demo_attempt 1 demo_judged_task = Some (Inr demo_passed)"
    using execute_task_round_trip [of "ser_task demo_wire" "de_task demo_wire" 1 demo_judged_task "attempt_verdict demo_attempt" demo_passed
        "ser_result demo_wire" "de_result demo_wire" demo_cfg] demo_attempt_verdict
    by (simp add: attempt_reply_def demo_attempt_def codec_ok_def demo_wire_def)
  moreover have "possible_attempt demo_attempt" by (simp add: possible_attempt_def demo_attempt_def fair_completion_def)
  ultimately show ?thesis unfolding cpp_outcome_def demo_log_def by blast
qed

lemma call_reach_other:
  "call_reach cfg outcome (A, s) \<Longrightarrow> pool_step cfg s t \<Longrightarrow> next_channel t = next_channel s \<Longrightarrow> faithful outcome t \<Longrightarrow>
     call_reach cfg outcome (A, t)"
  by (blast intro: reach_step call_other)

lemma client_judgesI:
  "call_reach cfg (cpp_outcome w cfg made) (A, s) \<Longrightarrow> A c = Some task \<Longrightarrow> submit_to js client lost (replies s c) task = Some result \<Longrightarrow>
     client_judges w cfg made js client task result"
  unfolding client_judges_def by blast

text \<open>A pool with one agent that is asked for one task and answers it.\<close>

definition demo_pool ::
  "u32 \<Rightarrow> u64 \<Rightarrow> nat \<Rightarrow> nat \<Rightarrow> queued_task multiset \<Rightarrow> dispatcher_point \<Rightarrow> queued_task list \<Rightarrow> execution multiset \<Rightarrow>
     (nat \<rightharpoonup> task_reply) \<Rightarrow> pool_state" where
  "demo_pool busy frame channel signals en disp queue ex rs =
     \<lparr>cells = [(fresh_handle ''a'' ''p'' 0)\<lparr>active_tasks := busy\<rparr>], agents = [0], task_queue = queue, next_frame_id = frame,
      task_signals = signals, agent_available = True, pool_shutting_down = False, next_channel = channel,
      replies = rs, entering = en, dispatcher = disp, executions = ex,
      probing = {#}, probed = {#}, drain = DrainIdle, shutdown_at = NotShutDown, destroyed = []\<rparr>"

lemma demo_call:
  assumes "outcome 1 task (Inr v)"
  shows "\<exists>s. call_reach demo_cfg outcome ([0 \<mapsto> task], s) \<and> replies s 0 = Some (Inr v)"
proof -
  let ?q = "\<lparr>queued_frame_id = 1, queued_task = task, retries = 0, result_tx = 0\<rparr>"
  let ?s1 = "demo_pool 0 1 0 0 {#} AtLoopHead [] {#} Map.empty"
  let ?s2 = "demo_pool 0 2 1 0 {#?q#} AtLoopHead [] {#} Map.empty"
  let ?s3 = "demo_pool 0 2 1 1 {#} AtLoopHead [?q] {#} Map.empty"
  let ?s4 = "demo_pool 0 2 1 1 {#} (Chosen 0 ?q) [] {#} Map.empty"
  let ?s5 = "demo_pool 1 2 1 1 {#} AtLoopHead [] {#Executing 0 ?q#} Map.empty"
  let ?s6 = "demo_pool 0 2 1 1 {#} AtLoopHead [] {#Returned True (Inr v) ?q#} Map.empty"
  let ?s7 = "demo_pool 0 2 1 1 {#} AtLoopHead [] {#Settling (Inr v) ?q#} Map.empty"
  let ?s8 = "demo_pool 0 2 1 1 {#} AtLoopHead [] {#} [0 \<mapsto> Inr v]"
  note run = run_defs demo_pool_def demo_cfg_def
  have faithful: "faithful outcome ?s1" "faithful outcome ?s3" "faithful outcome ?s4" "faithful outcome ?s5"
    "faithful outcome ?s6" "faithful outcome ?s7" "faithful outcome ?s8"
    using assms by (simp_all add: faithful_def demo_pool_def)
  have steps: "pool_step demo_cfg pool_new ?s1" "submit_enter task ?s1 = Inr ?s2" "pool_step demo_cfg ?s2 ?s3"
    "pool_step demo_cfg ?s3 ?s4" "pool_step demo_cfg ?s4 ?s5" "pool_step demo_cfg ?s5 ?s6" "pool_step demo_cfg ?s6 ?s7"
    "pool_step demo_cfg ?s7 ?s8"
  proof -
    show "pool_step demo_cfg pool_new ?s1"
      using step_create_agent [of demo_cfg pool_new "Inr (''a'', ''p'')" 0] by (simp add: create_agent_def run)
    show "submit_enter task ?s1 = Inr ?s2" by (simp add: run)
    show "pool_step demo_cfg ?s2 ?s3" using step_submit_enqueue [of ?s2 ?q "{#}" demo_cfg] by (simp add: run)
    show "pool_step demo_cfg ?s3 ?s4" using step_check [of ?s3 demo_cfg] by (simp add: run)
    show "pool_step demo_cfg ?s4 ?s5" using step_spawn [of ?s4 0 ?q demo_cfg] by (simp add: run)
    show "pool_step demo_cfg ?s5 ?s6" using step_release [of ?s5 0 ?q "{#}" demo_cfg "Inr v"] by (simp add: run)
    show "pool_step demo_cfg ?s6 ?s7" using step_notify [of ?s6 True "Inr v" ?q "{#}" demo_cfg] by (simp add: run)
    show "pool_step demo_cfg ?s7 ?s8" using step_settle [of ?s7 "Inr v" ?q "{#}" demo_cfg] by (simp add: run)
  qed
  have channels: "next_channel (demo_pool b f c sg en d q ex rs) = c" for b f c sg en d q ex rs by (simp add: demo_pool_def)
  have "next_channel pool_new = 0" by (simp add: pool_new_def)
  from call_reach_other [OF reach_init steps(1) _ faithful(1)] this have r1: "call_reach demo_cfg outcome (Map.empty, ?s1)"
    by (simp add: channels)
  from reach_step [OF r1 call_submit [OF steps(2)]] have r2: "call_reach demo_cfg outcome ([0 \<mapsto> task], ?s2)" by (simp add: channels)
  note r3 = call_reach_other [OF r2 steps(3) _ faithful(2), unfolded channels, OF refl]
  note r4 = call_reach_other [OF r3 steps(4) _ faithful(3), unfolded channels, OF refl]
  note r5 = call_reach_other [OF r4 steps(5) _ faithful(4), unfolded channels, OF refl]
  note r6 = call_reach_other [OF r5 steps(6) _ faithful(5), unfolded channels, OF refl]
  note r7 = call_reach_other [OF r6 steps(7) _ faithful(6), unfolded channels, OF refl]
  note r8 = call_reach_other [OF r7 steps(8) _ faithful(7), unfolded channels, OF refl]
  have "replies ?s8 0 = Some (Inr v)" by (simp add: demo_pool_def)
  with r8 show ?thesis by blast
qed

lemma demo_client_judges:
  "client_judges demo_wire demo_cfg demo_log demo_json demo_client task
     (if task = demo_judged_task then Inr demo_passed else Inl SdkRequest)"
proof (cases "task = demo_judged_task")
  case True
  from demo_call [of "cpp_outcome demo_wire demo_cfg demo_log", OF demo_outcome] obtain s where
    run: "call_reach demo_cfg (cpp_outcome demo_wire demo_cfg demo_log) ([0 \<mapsto> demo_judged_task], s)" "replies s 0 = Some (Inr demo_passed)" by blast
  have "submit_to demo_json demo_client False (Some (Inr demo_passed)) demo_judged_task = Some (Inr demo_passed)"
    using task_submit_reply [of "dec_verdict demo_json" "enc_verdict demo_json" "dec_error demo_json" "enc_error demo_json"]
    by (simp add: submit_to_def demo_json_def await_reply_def)
  with client_judgesI [OF run(1), of 0 demo_judged_task demo_json demo_client False] run(2) True show ?thesis by simp
next
  case False
  let ?s = "pool_new\<lparr>next_frame_id := 2, next_channel := 1,
     entering := {#\<lparr>queued_frame_id = 1, queued_task = task, retries = 0, result_tx = 0\<rparr>#}\<rparr>"
  have asks: "call_step demo_cfg (cpp_outcome demo_wire demo_cfg demo_log) (Map.empty, pool_new) ([0 \<mapsto> task], ?s)"
    using call_submit [of task pool_new] by (simp add: run_defs)
  have "call_reach demo_cfg (cpp_outcome demo_wire demo_cfg demo_log) ([0 \<mapsto> task], ?s)"
    by (rule reach_step, rule reach_init, rule asks)
  then obtain s where run: "call_reach demo_cfg (cpp_outcome demo_wire demo_cfg demo_log) ([0 \<mapsto> task], s)" by blast
  have "submit_to demo_json demo_client True (replies s 0) task = Some (Inl SdkRequest)"
    by (simp add: submit_to_def task_submit_def)
  from client_judgesI [OF run _ this] False show ?thesis by simp
qed

end
