(* ===== verification/Auth_Token.thy ===== *)
theory Auth_Token
  imports OJ_Prelude
begin

text \<open>
  Tokens and password hashes of the \<open>auth\<close> crate (\<open>token.rs\<close>, \<open>hash.rs\<close>).  The JWT, Argon2, key and
  UUID libraries are the record \<open>auth_lib\<close> of the functions the code calls; what is relied on of them
  is \<open>jwt_law\<close>, \<open>argon_law\<close> and \<open>uuid_law\<close>.  Points of time are seconds since 1970.
\<close>

type_synonym uuid = "128 word"

definition ISSUER :: string where "ISSUER = ''auth''"
definition AUDIENCE :: string where "AUDIENCE = ''onlinejudge''"

datatype token_type = Access | Refresh

record claims =
  claim_aud :: string
  claim_exp :: u64
  claim_iat :: u64
  claim_iss :: string
  claim_nbf :: u64
  claim_sub :: string
  claim_typ :: token_type

text \<open>The validation settings: the audiences and issuers that are accepted.\<close>

record validation =
  valid_aud :: "string list"
  valid_iss :: "string list"

definition JWKS_VALIDATION :: validation where
  "JWKS_VALIDATION = \<lparr>valid_aud = [AUDIENCE], valid_iss = [ISSUER]\<rparr>"

text \<open>
  A decoding key is made from a PEM file or from DER bytes.  \<open>jwt_decode\<close> is given the validation, the
  token, the key and the current time; \<open>argon_hash\<close> also draws a salt.
\<close>

datatype decoding_key = PemKey string | DerKey string

record auth_lib =
  jwt_encode :: "claims \<Rightarrow> string \<Rightarrow> string option"
  jwt_decode :: "validation \<Rightarrow> string \<Rightarrow> decoding_key \<Rightarrow> u64 \<Rightarrow> claims option"
  jwt_kid :: "string \<Rightarrow> string option option"
  der_of_raw :: "string \<Rightarrow> string option"
  argon_hash :: "string \<Rightarrow> nat \<Rightarrow> string option"
  argon_verify :: "string \<Rightarrow> string \<Rightarrow> bool option"
  uuid_parse :: "string \<Rightarrow> uuid option"
  uuid_show :: "uuid \<Rightarrow> string"
  new_uuid :: "nat \<Rightarrow> uuid"

definition saturating_add :: "u64 \<Rightarrow> u64 \<Rightarrow> u64" where
  "saturating_add x y = (if unat x + unat y < 2 ^ 64 then x + y else - 1)"

lemma unat_saturating_add: "unat (saturating_add x y) = min (unat x + unat y) (2 ^ 64 - 1)"
proof (cases "unat x + unat y < 2 ^ 64")
  case True
  then have "unat (x + y) = unat x + unat y" by (intro unat_add_exact) simp
  with True show ?thesis by (simp add: saturating_add_def)
next
  case False
  then show ?thesis by (simp add: saturating_add_def unsigned_minus_1_eq_mask mask_eq_exp_minus_1)
qed

definition claims_for :: "string \<Rightarrow> token_type \<Rightarrow> u64 \<Rightarrow> u64 \<Rightarrow> claims" where
  "claims_for sub typ expiration_secs now =
     \<lparr>claim_aud = AUDIENCE, claim_exp = saturating_add now expiration_secs, claim_iat = now,
      claim_iss = ISSUER, claim_nbf = now, claim_sub = sub, claim_typ = typ\<rparr>"

definition token_generate :: "auth_lib \<Rightarrow> string \<Rightarrow> token_type \<Rightarrow> string \<Rightarrow> u64 \<Rightarrow> u64 \<Rightarrow> string option" where
  "token_generate lib sub typ private_key_pem expiration_secs now =
     jwt_encode lib (claims_for sub typ expiration_secs now) private_key_pem"

definition decode_typed :: "auth_lib \<Rightarrow> string \<Rightarrow> token_type \<Rightarrow> decoding_key \<Rightarrow> u64 \<Rightarrow> claims option" where
  "decode_typed lib token typ key now =
     (case jwt_decode lib JWKS_VALIDATION token key now of
        None \<Rightarrow> None
      | Some c \<Rightarrow> if claim_typ c \<noteq> typ then None else Some c)"

definition token_verify :: "auth_lib \<Rightarrow> string \<Rightarrow> token_type \<Rightarrow> string \<Rightarrow> u64 \<Rightarrow> claims option" where
  "token_verify lib token typ public_key_pem now = decode_typed lib token typ (PemKey public_key_pem) now"

definition raw_to_der :: "auth_lib \<Rightarrow> string \<Rightarrow> string option" where
  "raw_to_der lib raw_key = (if length raw_key = 32 then der_of_raw lib raw_key else None)"

definition verify_with_raw_key :: "auth_lib \<Rightarrow> string \<Rightarrow> token_type \<Rightarrow> string \<Rightarrow> u64 \<Rightarrow> claims option" where
  "verify_with_raw_key lib token typ raw_key now =
     (case raw_to_der lib raw_key of
        None \<Rightarrow> None
      | Some der \<Rightarrow> decode_typed lib token typ (DerKey der) now)"

text \<open>\<open>hash::hash\<close> and \<open>hash::verify\<close> (an unreadable hash is an error, \<open>None\<close>).\<close>

definition hash_plain :: "auth_lib \<Rightarrow> string \<Rightarrow> nat \<Rightarrow> string option" where
  "hash_plain lib plain salt = argon_hash lib plain salt"

definition hash_verify :: "auth_lib \<Rightarrow> string \<Rightarrow> string \<Rightarrow> bool option" where
  "hash_verify lib plain hashed = argon_verify lib plain hashed"

text \<open>\<open>hash::verify(..).unwrap_or(false)\<close>.\<close>

definition hash_matches :: "auth_lib \<Rightarrow> string \<Rightarrow> string \<Rightarrow> bool" where
  "hash_matches lib plain hashed \<longleftrightarrow> hash_verify lib plain hashed = Some True"

subsection \<open>What is relied on of the libraries\<close>

text \<open>
  A JWT signed with the private key decodes under the matching key to its claims, if the claims are for
  an accepted audience and issuer and the token has not expired; the library allows a leeway of 60
  seconds.
\<close>

definition jwt_law :: "auth_lib \<Rightarrow> string \<Rightarrow> decoding_key \<Rightarrow> bool" where
  "jwt_law lib private_key_pem key \<longleftrightarrow>
     (\<forall>c t v now. jwt_encode lib c private_key_pem = Some t \<longrightarrow>
        jwt_decode lib v t key now =
          (if claim_aud c \<in> set (valid_aud v) \<and> claim_iss c \<in> set (valid_iss v) \<and> unat now \<le> unat (claim_exp c) + 60
           then Some c else None))"

definition argon_law :: "auth_lib \<Rightarrow> bool" where
  "argon_law lib \<longleftrightarrow>
     (\<forall>plain salt h. argon_hash lib plain salt = Some h \<longrightarrow> (\<forall>p. argon_verify lib p h = Some (p = plain)))"

definition uuid_law :: "auth_lib \<Rightarrow> bool" where
  "uuid_law lib \<longleftrightarrow> (\<forall>u. uuid_parse lib (uuid_show lib u) = Some u)"

lemma decode_generated:
  assumes "jwt_law lib pem key" and "token_generate lib sub typ pem ttl now = Some t"
  shows "decode_typed lib t typ' key later =
    (if typ' = typ \<and> unat later \<le> unat (saturating_add now ttl) + 60 then Some (claims_for sub typ ttl now) else None)"
proof -
  have "jwt_decode lib JWKS_VALIDATION t key later =
      (if unat later \<le> unat (saturating_add now ttl) + 60 then Some (claims_for sub typ ttl now) else None)"
    using assms(1)[unfolded jwt_law_def, rule_format, OF assms(2)[unfolded token_generate_def], of JWKS_VALIDATION later]
    by (simp add: claims_for_def JWKS_VALIDATION_def)
  then show ?thesis by (simp add: decode_typed_def claims_for_def)
qed

lemma hash_matches_hash:
  "argon_law lib \<Longrightarrow> hash_plain lib plain salt = Some h \<Longrightarrow> hash_matches lib p h \<longleftrightarrow> p = plain"
  by (simp add: argon_law_def hash_plain_def hash_matches_def hash_verify_def)


subsection \<open>A concrete library\<close>

text \<open>Three tokens of user 7; a hash is the plaintext, a UUID its number.\<close>

definition demo_claims :: "string \<Rightarrow> claims option" where
  "demo_claims t =
     (if t = ''A'' then Some (claims_for ''7'' Access 100 50)
      else if t = ''R'' then Some (claims_for ''7'' Refresh 1000 50)
      else if t = ''B'' then Some (claims_for ''7'' Access 100 60)
      else None)"

definition demo_lib :: auth_lib where
  "demo_lib =
     \<lparr>jwt_encode = \<lambda>c _. List.find (\<lambda>t. demo_claims t = Some c) [''A'', ''R'', ''B''],
      jwt_decode = \<lambda>v t _ now.
        (case demo_claims t of
           None \<Rightarrow> None
         | Some c \<Rightarrow>
             if claim_aud c \<in> set (valid_aud v) \<and> claim_iss c \<in> set (valid_iss v) \<and> unat now \<le> unat (claim_exp c) + 60
             then Some c else None),
      jwt_kid = \<lambda>_. Some None, der_of_raw = \<lambda>raw. Some raw,
      argon_hash = \<lambda>plain _. Some plain, argon_verify = \<lambda>plain h. Some (plain = h),
      uuid_parse = \<lambda>s. Some (of_nat (read_nat s)), uuid_show = \<lambda>u. show_nat (unat u), new_uuid = of_nat\<rparr>"

lemma demo_lib_laws: "jwt_law demo_lib pem key" "argon_law demo_lib" "uuid_law demo_lib"
proof -
  show "jwt_law demo_lib pem key"
    unfolding jwt_law_def demo_lib_def by (auto dest!: find_Some_split)
qed (simp_all add: argon_law_def uuid_law_def demo_lib_def)

end
