(* ===== verification/Auth_Router.thy ===== *)
theory Auth_Router
  imports Auth_Token
begin

text \<open>
  The authorization server (\<open>auth/src/router.rs\<close>) with its tables (\<open>models/users.rs\<close>,
  \<open>models/refresh_tokens.rs\<close>).  A table is its list of rows; the \<open>n\<close>-th database call fails if
  \<open>db_up\<close> says so.  Drawn UUIDs and salts are counted in the state.  A handler takes the current time
  and returns its response and the new state.  The time is the second in which the handler starts (a token has whole
  seconds) and, for \<open>Utc::now()\<close>, the nanoseconds that have passed since then.  A handler that panics closes the
  connection without a response; its result is an error with the status 0.
\<close>

subsection \<open>Tables\<close>

record user_row =
  user_id :: uuid
  username :: string
  nickname :: "string option"
  email :: string
  email_verified :: bool
  password_hash :: string
  user_created_at :: u64
  user_updated_at :: u64

record refresh_row =
  token_row_id :: uuid
  token_user :: uuid
  token_hash :: string
  token_created_at :: int
  token_expired_at :: int

record auth_state =
  users :: "user_row list"
  refresh_tokens :: "refresh_row list"
  db_calls :: nat
  drawn :: nat

record auth_app =
  private_key_pem :: string
  public_key_pem :: string
  access_token_ttl_secs :: u64
  refresh_token_ttl_secs :: u64
  db_up :: "nat \<Rightarrow> bool"
  clock_ns :: "nat \<Rightarrow> nat"

text \<open>\<open>Utc::now()\<close>, in nanoseconds since 1970, when \<open>n\<close> database calls have been made.\<close>

definition instant :: "auth_app \<Rightarrow> u64 \<Rightarrow> nat \<Rightarrow> int" where
  "instant app now n = int (unat now) * 10 ^ 9 + int (clock_ns app n)"

text \<open>A query: \<open>None\<close> is a database error.\<close>

definition db_query :: "auth_app \<Rightarrow> (auth_state \<Rightarrow> 'a) \<Rightarrow> auth_state \<Rightarrow> 'a option \<times> auth_state" where
  "db_query app q s = (if db_up app (db_calls s) then Some (q s) else None, s\<lparr>db_calls := db_calls s + 1\<rparr>)"

definition find_user :: "(user_row \<Rightarrow> bool) \<Rightarrow> auth_state \<Rightarrow> user_row option" where
  "find_user P s = List.find P (users s)"

definition tokens_of :: "uuid \<Rightarrow> auth_state \<Rightarrow> refresh_row list" where
  "tokens_of uid s = filter (\<lambda>r. token_user r = uid) (refresh_tokens s)"

text \<open>An insertion fails on a duplicate primary key or unique column.\<close>

definition insert_user :: "auth_app \<Rightarrow> user_row \<Rightarrow> auth_state \<Rightarrow> bool \<times> auth_state" where
  "insert_user app u s =
     (let ok = db_up app (db_calls s) \<and>
        (\<forall>v \<in> set (users s). user_id v \<noteq> user_id u \<and> username v \<noteq> username u \<and> email v \<noteq> email u)
      in (ok, s\<lparr>db_calls := db_calls s + 1, users := (if ok then users s @ [u] else users s)\<rparr>))"

definition insert_refresh :: "auth_app \<Rightarrow> refresh_row \<Rightarrow> auth_state \<Rightarrow> bool \<times> auth_state" where
  "insert_refresh app r s =
     (let ok = db_up app (db_calls s) \<and> (\<forall>v \<in> set (refresh_tokens s). token_row_id v \<noteq> token_row_id r)
      in (ok, s\<lparr>db_calls := db_calls s + 1, refresh_tokens := (if ok then refresh_tokens s @ [r] else refresh_tokens s)\<rparr>))"

definition delete_refresh :: "auth_app \<Rightarrow> uuid \<Rightarrow> auth_state \<Rightarrow> bool \<times> auth_state" where
  "delete_refresh app i s =
     (let ok = db_up app (db_calls s)
      in (ok, s\<lparr>db_calls := db_calls s + 1,
               refresh_tokens := (if ok then filter (\<lambda>r. token_row_id r \<noteq> i) (refresh_tokens s) else refresh_tokens s)\<rparr>))"

text \<open>A fresh UUID or salt.\<close>

definition draw :: "auth_state \<Rightarrow> nat \<times> auth_state" where
  "draw s = (drawn s, s\<lparr>drawn := drawn s + 1\<rparr>)"

definition new_user_row :: "auth_lib \<Rightarrow> nat \<Rightarrow> string \<Rightarrow> string \<Rightarrow> string \<Rightarrow> u64 \<Rightarrow> user_row" where
  "new_user_row lib n name mail hashed now =
     \<lparr>user_id = new_uuid lib n, username = name, nickname = None, email = mail, email_verified = False,
      password_hash = hashed, user_created_at = now, user_updated_at = now\<rparr>"

subsection \<open>Responses\<close>

datatype token_request = PasswordGrant string string | RefreshGrant string

datatype token_operation_error = InvalidRequest | InvalidGrant | UnsupportedGrantType | ServerError

datatype token_response =
    PasswordTokens string u64 string
  | RefreshedToken string u64

datatype introspection = Active string token_type | Inactive

datatype register_error = UsernameTaken | EmailTaken | InvalidRegisterRequest | RegisterServerError

definition invalid_grant :: "nat \<times> token_operation_error" where "invalid_grant = (400, InvalidGrant)"
definition internal_error :: "nat \<times> token_operation_error" where "internal_error = (500, ServerError)"
definition no_response :: "nat \<times> token_operation_error" where "no_response = (0, ServerError)"
definition username_taken :: "nat \<times> register_error" where "username_taken = (409, UsernameTaken)"
definition email_taken :: "nat \<times> register_error" where "email_taken = (409, EmailTaken)"
definition invalid_register_request :: "nat \<times> register_error" where "invalid_register_request = (400, InvalidRegisterRequest)"
definition register_server_error :: "nat \<times> register_error" where "register_server_error = (500, RegisterServerError)"
definition register_no_response :: "nat \<times> register_error" where "register_no_response = (0, RegisterServerError)"

subsection \<open>Issuing tokens\<close>

text \<open>
  \<open>t + chrono::Duration::seconds(ttl as i64)\<close>: \<open>None\<close> is the panic of a duration of more than \<open>i64::MAX\<close>
  milliseconds or of a date before the year -262143 or after the year 262142.
\<close>

definition add_seconds :: "int \<Rightarrow> u64 \<Rightarrow> int option" where
  "add_seconds t ttl =
     (let e = t + sint ttl * 10 ^ 9
      in if \<bar>sint ttl\<bar> \<le> 9223372036854775 \<and> - 8334601228800 * 10 ^ 9 \<le> e \<and> e < 8210266876800 * 10 ^ 9 then Some e else None)"

text \<open>
  The sequence that the password grant and the registration share: both tokens, the hash of the refresh
  token, its row.
\<close>

datatype issue_result = Issued string string | IssueFailed | IssuePanicked

definition issue_tokens :: "auth_lib \<Rightarrow> auth_app \<Rightarrow> u64 \<Rightarrow> uuid \<Rightarrow> auth_state \<Rightarrow> issue_result \<times> auth_state" where
  "issue_tokens lib app now uid s =
     (let sub = uuid_show lib uid in
      case token_generate lib sub Access (private_key_pem app) (access_token_ttl_secs app) now of
        None \<Rightarrow> (IssueFailed, s)
      | Some access \<Rightarrow>
     (case token_generate lib sub Refresh (private_key_pem app) (refresh_token_ttl_secs app) now of
        None \<Rightarrow> (IssueFailed, s)
      | Some refresh \<Rightarrow>
          (let (salt, s1) = draw s in
     case hash_plain lib refresh salt of
        None \<Rightarrow> (IssueFailed, s1)
      | Some h \<Rightarrow>
          (let utc = instant app now (db_calls s1); (n, s2) = draw s1 in
     case add_seconds utc (refresh_token_ttl_secs app) of
        None \<Rightarrow> (IssuePanicked, s2)
      | Some expired \<Rightarrow>
          (let (ok, s3) = insert_refresh app
                 \<lparr>token_row_id = new_uuid lib n, token_user = uid, token_hash = h, token_created_at = utc,
                  token_expired_at = expired\<rparr> s2
           in (if ok then Issued access refresh else IssueFailed, s3))))))"

subsection \<open>The handlers\<close>

definition password_grant ::
  "auth_lib \<Rightarrow> auth_app \<Rightarrow> u64 \<Rightarrow> string \<Rightarrow> string \<Rightarrow> auth_state \<Rightarrow>
   ((nat \<times> token_operation_error) + token_response) \<times> auth_state" where
  "password_grant lib app now name pwd s =
     (case db_query app (find_user (\<lambda>u. username u = name)) s of
        (None, s1) \<Rightarrow> (Inl internal_error, s1)
      | (Some None, s1) \<Rightarrow> (Inl invalid_grant, s1)
      | (Some (Some user), s1) \<Rightarrow>
          if \<not> hash_matches lib pwd (password_hash user) then (Inl invalid_grant, s1)
          else
            (case issue_tokens lib app now (user_id user) s1 of
               (IssueFailed, s2) \<Rightarrow> (Inl internal_error, s2)
             | (IssuePanicked, s2) \<Rightarrow> (Inl no_response, s2)
             | (Issued access refresh, s2) \<Rightarrow>
                 (Inr (PasswordTokens access (access_token_ttl_secs app) refresh), s2)))"

definition stored_token :: "auth_lib \<Rightarrow> string \<Rightarrow> refresh_row list \<Rightarrow> refresh_row option" where
  "stored_token lib token rows = List.find (\<lambda>r. hash_matches lib token (token_hash r)) rows"

definition refresh_grant ::
  "auth_lib \<Rightarrow> auth_app \<Rightarrow> u64 \<Rightarrow> string \<Rightarrow> auth_state \<Rightarrow>
   ((nat \<times> token_operation_error) + token_response) \<times> auth_state" where
  "refresh_grant lib app now token s =
     (case token_verify lib token Refresh (public_key_pem app) now of
        None \<Rightarrow> (Inl invalid_grant, s)
      | Some c \<Rightarrow>
     (case uuid_parse lib (claim_sub c) of
        None \<Rightarrow> (Inl invalid_grant, s)
      | Some uid \<Rightarrow>
     (case db_query app (tokens_of uid) s of
        (None, s1) \<Rightarrow> (Inl internal_error, s1)
      | (Some rows, s1) \<Rightarrow>
     (case stored_token lib token rows of
        None \<Rightarrow> (Inl invalid_grant, s1)
      | Some stored \<Rightarrow>
          if token_expired_at stored < instant app now (db_calls s1) then (Inl invalid_grant, s1)
          else
            (case token_generate lib (claim_sub c) Access (private_key_pem app) (access_token_ttl_secs app) now of
               None \<Rightarrow> (Inl internal_error, s1)
             | Some access \<Rightarrow> (Inr (RefreshedToken access (access_token_ttl_secs app)), s1))))))"

fun token_handler ::
  "auth_lib \<Rightarrow> auth_app \<Rightarrow> u64 \<Rightarrow> token_request \<Rightarrow> auth_state \<Rightarrow>
   ((nat \<times> token_operation_error) + token_response) \<times> auth_state" where
  "token_handler lib app now (PasswordGrant name pwd) s = password_grant lib app now name pwd s"
| "token_handler lib app now (RefreshGrant token) s = refresh_grant lib app now token s"

text \<open>Revocation answers 200 in every case.\<close>

definition revoke_handler :: "auth_lib \<Rightarrow> auth_app \<Rightarrow> u64 \<Rightarrow> string \<Rightarrow> auth_state \<Rightarrow> nat \<times> auth_state" where
  "revoke_handler lib app now token s =
     (case token_verify lib token Refresh (public_key_pem app) now of
        None \<Rightarrow> (200, s)
      | Some c \<Rightarrow>
     (case uuid_parse lib (claim_sub c) of
        None \<Rightarrow> (200, s)
      | Some uid \<Rightarrow>
     (case db_query app (tokens_of uid) s of
        (None, s1) \<Rightarrow> (200, s1)
      | (Some rows, s1) \<Rightarrow>
     (case stored_token lib token rows of
        None \<Rightarrow> (200, s1)
      | Some stored \<Rightarrow> (200, snd (delete_refresh app (token_row_id stored) s1))))))"

definition introspect_user :: "auth_lib \<Rightarrow> auth_app \<Rightarrow> claims \<Rightarrow> token_type \<Rightarrow> auth_state \<Rightarrow> introspection \<times> auth_state" where
  "introspect_user lib app c hint s =
     (case uuid_parse lib (claim_sub c) of
        None \<Rightarrow> (Inactive, s)
      | Some uid \<Rightarrow>
          (case db_query app (find_user (\<lambda>u. user_id u = uid)) s of
             (Some (Some user), s1) \<Rightarrow> (Active (username user) hint, s1)
           | (_, s1) \<Rightarrow> (Inactive, s1)))"

definition introspect_handler ::
  "auth_lib \<Rightarrow> auth_app \<Rightarrow> u64 \<Rightarrow> string \<Rightarrow> token_type \<Rightarrow> auth_state \<Rightarrow> introspection \<times> auth_state" where
  "introspect_handler lib app now token hint s =
     (case token_verify lib token hint (public_key_pem app) now of
        None \<Rightarrow> (Inactive, s)
      | Some c \<Rightarrow>
          if hint = Refresh then
            (case uuid_parse lib (claim_sub c) of
               None \<Rightarrow> (Inactive, s)
             | Some uid \<Rightarrow>
                 (case db_query app (tokens_of uid) s of
                    (None, s1) \<Rightarrow> (Inactive, s1)
                  | (Some rows, s1) \<Rightarrow>
                      if \<exists>r \<in> set rows. hash_matches lib token (token_hash r) then introspect_user lib app c hint s1
                      else (Inactive, s1)))
          else introspect_user lib app c hint s)"

text \<open>\<open>s.trim().is_empty()\<close>: only white space, in the sense of Unicode, as UTF-8 bytes.\<close>

definition wide_space :: "nat \<Rightarrow> nat \<Rightarrow> nat \<Rightarrow> bool" where
  "wide_space a b c \<longleftrightarrow>
     (a, b, c) \<in> {(225, 154, 128), (226, 129, 159), (227, 128, 128), (226, 128, 168), (226, 128, 169), (226, 128, 175)} \<or>
     (a = 226 \<and> b = 128 \<and> 128 \<le> c \<and> c \<le> 138)"

fun blank_codes :: "nat list \<Rightarrow> bool" where
  "blank_codes [] = True"
| "blank_codes [a] = (a = 32 \<or> (9 \<le> a \<and> a \<le> 13))"
| "blank_codes [a, b] =
     (if a = 32 \<or> (9 \<le> a \<and> a \<le> 13) then blank_codes [b] else a = 194 \<and> (b = 133 \<or> b = 160))"
| "blank_codes (a # b # c # rest) =
     (if a = 32 \<or> (9 \<le> a \<and> a \<le> 13) then blank_codes (b # c # rest)
      else if a = 194 \<and> (b = 133 \<or> b = 160) then blank_codes (c # rest)
      else wide_space a b c \<and> blank_codes rest)"

definition blank :: "string \<Rightarrow> bool" where
  "blank s = blank_codes (map of_char s)"

definition register_handler ::
  "auth_lib \<Rightarrow> auth_app \<Rightarrow> u64 \<Rightarrow> string \<Rightarrow> string \<Rightarrow> string \<Rightarrow> auth_state \<Rightarrow>
   ((nat \<times> register_error) + (string \<times> string)) \<times> auth_state" where
  "register_handler lib app now name pwd mail s =
     (if blank name \<or> blank pwd \<or> blank mail then (Inl invalid_register_request, s)
      else if length pwd < 8 then (Inl invalid_register_request, s)
      else
     (case db_query app (find_user (\<lambda>u. username u = name)) s of
        (None, s1) \<Rightarrow> (Inl register_server_error, s1)
      | (Some (Some _), s1) \<Rightarrow> (Inl username_taken, s1)
      | (Some None, s1) \<Rightarrow>
     (case db_query app (find_user (\<lambda>u. email u = mail)) s1 of
        (None, s2) \<Rightarrow> (Inl register_server_error, s2)
      | (Some (Some _), s2) \<Rightarrow> (Inl email_taken, s2)
      | (Some None, s2) \<Rightarrow>
          (let (salt, s3) = draw s2 in
     case hash_plain lib pwd salt of
        None \<Rightarrow> (Inl register_server_error, s3)
      | Some h \<Rightarrow>
          (let (n, s4) = draw s3; user = new_user_row lib n name mail h now; (ok, s5) = insert_user app user s4 in
           if \<not> ok then
             (case db_query app (find_user (\<lambda>u. username u = name)) s5 of
                (Some (Some _), s6) \<Rightarrow> (Inl username_taken, s6)
              | (_, s6) \<Rightarrow>
                  (case db_query app (find_user (\<lambda>u. email u = mail)) s6 of
                     (Some (Some _), s7) \<Rightarrow> (Inl email_taken, s7)
                   | (_, s7) \<Rightarrow> (Inl register_server_error, s7)))
           else
             (case issue_tokens lib app now (user_id user) s5 of
                (IssueFailed, s6) \<Rightarrow> (Inl register_server_error, s6)
              | (IssuePanicked, s6) \<Rightarrow> (Inl register_no_response, s6)
              | (Issued access refresh, s6) \<Rightarrow> (Inr (access, refresh), s6)))))))"


subsection \<open>The JWKS endpoint\<close>

record jwk =
  jwk_kty :: string
  jwk_crv :: string
  jwk_use :: string
  jwk_alg :: string
  jwk_kid :: string
  jwk_x :: string

text \<open>The PEM parser, SHA-256 and base64 are parameters.\<close>

record key_codec =
  pem_contents :: "string \<Rightarrow> string option"
  sha256_raw :: "string \<Rightarrow> string"
  b64_encode :: "string \<Rightarrow> string"
  b64_decode :: "string \<Rightarrow> string option"

definition extract_ed25519_public_key :: "key_codec \<Rightarrow> string \<Rightarrow> string option" where
  "extract_ed25519_public_key kc pem =
     (case pem_contents kc pem of
        None \<Rightarrow> None
      | Some der \<Rightarrow> if 32 \<le> length der then Some (drop (length der - 32) der) else None)"

definition jwks_handler :: "key_codec \<Rightarrow> auth_app \<Rightarrow> nat + jwk list" where
  "jwks_handler kc app =
     (case extract_ed25519_public_key kc (public_key_pem app) of
        None \<Rightarrow> Inl 500
      | Some raw \<Rightarrow>
          Inr [\<lparr>jwk_kty = ''OKP'', jwk_crv = ''Ed25519'', jwk_use = ''sig'', jwk_alg = ''EdDSA'',
                jwk_kid = b64_encode kc (sha256_raw kc raw), jwk_x = b64_encode kc raw\<rparr>])"

subsection \<open>Lemmas\<close>

lemma stored_token_Some:
  "stored_token lib token rows = Some r \<Longrightarrow> r \<in> set rows \<and> hash_matches lib token (token_hash r)"
  unfolding stored_token_def by (rule find_Some_split)

lemma stored_token_None: "stored_token lib token rows = None \<longleftrightarrow> (\<forall>r \<in> set rows. \<not> hash_matches lib token (token_hash r))"
  by (auto simp: stored_token_def find_None_iff)

text \<open>What \<open>issue_tokens\<close> leaves behind.\<close>

lemma issue_tokens_Some:
  assumes "issue_tokens lib app now uid s = (Issued access refresh, t)"
  shows "token_generate lib (uuid_show lib uid) Access (private_key_pem app) (access_token_ttl_secs app) now = Some access \<and>
    token_generate lib (uuid_show lib uid) Refresh (private_key_pem app) (refresh_token_ttl_secs app) now = Some refresh \<and>
    users t = users s \<and>
    (\<exists>row h salt. refresh_tokens t = refresh_tokens s @ [row] \<and> token_user row = uid \<and>
       hash_plain lib refresh salt = Some h \<and> token_hash row = h \<and>
       add_seconds (instant app now (db_calls s)) (refresh_token_ttl_secs app) = Some (token_expired_at row))"
  using assms
  by (auto simp: issue_tokens_def insert_refresh_def draw_def Let_def split: option.splits if_splits)

lemma issue_tokens_users: "users (snd (issue_tokens lib app now uid s)) = users s"
  by (auto simp: issue_tokens_def insert_refresh_def draw_def Let_def split: option.splits)

text \<open>A lifetime that is no negative \<open>i64\<close> ends that many seconds after the row was made, and far below the bounds of \<open>u64\<close>.\<close>

lemma nanos_le:
  fixes a b c :: nat
  shows "(int a + int b) * 10 ^ 9 \<le> e \<Longrightarrow> e < 8210266876800 * 10 ^ 9 \<Longrightarrow> a + b < 2 ^ 63"
    and "int c * 10 ^ 9 \<le> (int a + int b) * 10 ^ 9 \<Longrightarrow> c \<le> a + b"
  by simp_all

lemma add_seconds_Some:
  assumes "add_seconds (instant app now n) ttl = Some e" and "unat ttl < 2 ^ 63"
  shows "(int (unat now) + int (unat ttl)) * 10 ^ 9 \<le> e" and "unat now + unat ttl < 2 ^ 63"
proof -
  have ttl: "sint ttl = int (unat ttl)" using assms(2) by (intro sint_small) simp
  from assms(1) have e: "e = instant app now n + sint ttl * 10 ^ 9" "e < 8210266876800 * 10 ^ 9"
    by (auto simp: add_seconds_def Let_def split: if_splits)
  then show le: "(int (unat now) + int (unat ttl)) * 10 ^ 9 \<le> e" by (simp add: ttl instant_def)
  from nanos_le(1) [OF this e(2)] show "unat now + unat ttl < 2 ^ 63" .
qed

text \<open>Users are unique in every column the tables declare so.\<close>

definition unique_users :: "auth_state \<Rightarrow> bool" where
  "unique_users s \<longleftrightarrow> distinct (map user_id (users s)) \<and> distinct (map username (users s)) \<and> distinct (map email (users s))"

lemma insert_user_unique: "unique_users s \<Longrightarrow> unique_users (snd (insert_user app u s))"
  by (auto simp: unique_users_def insert_user_def Let_def)

lemma db_query_state: "snd (db_query app q s) = s\<lparr>db_calls := db_calls s + 1\<rparr>"
  by (simp add: db_query_def)

lemma db_query_eq:
  "db_query app q s = (r, t) \<longleftrightarrow> t = s\<lparr>db_calls := db_calls s + 1\<rparr> \<and> r = (if db_up app (db_calls s) then Some (q s) else None)"
  by (auto simp: db_query_def)

text \<open>A registration inserts at most one row into the users.\<close>

lemma register_users:
  assumes "register_handler lib app now name pwd mail s = (r, t)"
  shows "users t = users s \<or>
    (\<exists>n h. users t = users s @ [new_user_row lib n name mail h now] \<and>
       (\<forall>v \<in> set (users s). user_id v \<noteq> new_uuid lib n \<and> username v \<noteq> name \<and> email v \<noteq> mail))"
  using assms
  by (auto simp: register_handler_def db_query_eq insert_user_def draw_def Let_def new_user_row_def
        dest!: arg_cong [where f = "\<lambda>p. users (snd p)"] simp: issue_tokens_users
        split: if_splits option.splits prod.splits issue_result.splits) metis+

subsection \<open>Properties\<close>

definition demo_app :: auth_app where
  "demo_app =
     \<lparr>private_key_pem = ''priv'', public_key_pem = ''pub'', access_token_ttl_secs = 100, refresh_token_ttl_secs = 1000,
      db_up = \<lambda>_. True, clock_ns = \<lambda>n. 1000 * n\<rparr>"

definition demo_users :: auth_state where
  "demo_users =
     \<lparr>users = [\<lparr>user_id = 7, username = ''alice'', nickname = None, email = ''a@b'', email_verified = False,
                password_hash = ''correct horse'', user_created_at = 0, user_updated_at = 0\<rparr>],
      refresh_tokens = [], db_calls = 0, drawn = 0\<rparr>"

lemmas auth_run_defs =
  password_grant_def refresh_grant_def revoke_handler_def issue_tokens_def insert_refresh_def delete_refresh_def
  db_query_def find_user_def tokens_of_def stored_token_def draw_def hash_matches_def hash_verify_def hash_plain_def
  instant_def add_seconds_def token_generate_def token_verify_def decode_typed_def invalid_grant_def internal_error_def

lemma demo_lib_run:
  "token_generate demo_lib ''7'' Access pem 100 50 = Some ''A''"
  "token_generate demo_lib ''7'' Refresh pem 1000 50 = Some ''R''"
  "token_generate demo_lib ''7'' Access pem 100 60 = Some ''B''"
  "token_verify demo_lib ''R'' Refresh pem 60 = Some (claims_for ''7'' Refresh 1000 50)"
  "uuid_show demo_lib 7 = ''7''" "uuid_parse demo_lib ''7'' = Some 7" "show_nat 7 = ''7''"
  "hash_plain demo_lib p n = Some p" "hash_matches demo_lib p h = (p = h)" "new_uuid demo_lib n = of_nat n"
  by (simp_all add: demo_lib_def demo_claims_def claims_for_def saturating_add_def token_generate_def token_verify_def
        decode_typed_def JWKS_VALIDATION_def uuid_law_def hash_plain_def hash_matches_def hash_verify_def show_nat.simps
        digit_char_def read_nat_def digit_value_def char_of_def bit_Suc_0_iff)


text \<open>What a successful login knows.\<close>

lemma password_grant_Inr:
  assumes "password_grant lib app now name pwd s = (Inr (PasswordTokens access ttl refresh), t)"
  shows "\<exists>user s1. user \<in> set (users s) \<and> username user = name \<and> hash_matches lib pwd (password_hash user) \<and>
    refresh_tokens s1 = refresh_tokens s \<and> issue_tokens lib app now (user_id user) s1 = (Issued access refresh, t)"
proof -
  from assms obtain user where user: "find_user (\<lambda>u. username u = name) s = Some user" "hash_matches lib pwd (password_hash user)"
    and iss: "issue_tokens lib app now (user_id user) (s\<lparr>db_calls := db_calls s + 1\<rparr>) = (Issued access refresh, t)"
    by (auto simp: password_grant_def db_query_eq split: option.splits if_splits prod.splits issue_result.splits)
  from find_Some_split [OF user(1)[unfolded find_user_def]] user(2) iss show ?thesis
    by (intro exI [of _ user] exI [of _ "s\<lparr>db_calls := db_calls s + 1\<rparr>"]) simp
qed

lemma login_row:
  assumes "argon_law lib" and "password_grant lib app now name pwd s = (Inr (PasswordTokens access ttl refresh), t)"
  shows "\<exists>user row n. user \<in> set (users s) \<and> username user = name \<and> hash_matches lib pwd (password_hash user) \<and>
    token_generate lib (uuid_show lib (user_id user)) Refresh (private_key_pem app) (refresh_token_ttl_secs app) now = Some refresh \<and>
    refresh_tokens t = refresh_tokens s @ [row] \<and> token_user row = user_id user \<and>
    hash_matches lib refresh (token_hash row) \<and>
    add_seconds (instant app now n) (refresh_token_ttl_secs app) = Some (token_expired_at row)"
proof -
  from password_grant_Inr [OF assms(2)] obtain user s1 where user: "user \<in> set (users s)" "username user = name"
    "hash_matches lib pwd (password_hash user)"
    and s1: "refresh_tokens s1 = refresh_tokens s" and iss: "issue_tokens lib app now (user_id user) s1 = (Issued access refresh, t)"
    by blast
  from issue_tokens_Some [OF iss] user s1 hash_matches_hash [OF assms(1)] show ?thesis by fastforce
qed

text \<open>The stored row a fresh refresh token finds, in any later state that still has it.\<close>

lemma stored_token_last:
  assumes "\<forall>r \<in> set rows. \<not> hash_matches lib token (token_hash r)" and "hash_matches lib token (token_hash row)"
  shows "stored_token lib token (rows @ row # rest) = Some row"
  using assms by (induction rows) (auto simp: stored_token_def)

text \<open>C9. A login that succeeds names a user of the table whose password it was given, and its refresh token works: as long as
  the check of its row is made within its lifetime from the second of the login on (a lifetime below \<open>2 ^ 63\<close> seconds), it buys
  access tokens, which are accepted as access tokens of that user and
  not as refresh tokens.  Supposed are a database that is up, a library that signs the new token, and that no row stored before the
  login matches the new refresh token.\<close>
theorem refresh_after_login:
  assumes "jwt_law lib (private_key_pem app) (PemKey (public_key_pem app))" and "argon_law lib" and "uuid_law lib"
    and "\<And>n. db_up app n"
    and "password_grant lib app now name pwd s = (Inr (PasswordTokens access ttl refresh), t)"
    and "\<forall>r \<in> set (refresh_tokens s). \<not> hash_matches lib refresh (token_hash r)"
    and "instant app later (db_calls t + 1) \<le> (int (unat now) + int (unat (refresh_token_ttl_secs app))) * 10 ^ 9"
    and "\<And>user. user \<in> set (users s) \<Longrightarrow> username user = name \<Longrightarrow>
      token_generate lib (uuid_show lib (user_id user)) Access (private_key_pem app) (access_token_ttl_secs app) later \<noteq> None"
    and "unat (refresh_token_ttl_secs app) < 2 ^ 63"
  shows "\<exists>user access'. user \<in> set (users s) \<and> username user = name \<and> hash_matches lib pwd (password_hash user) \<and>
    fst (refresh_grant lib app later refresh t) = Inr (RefreshedToken access' (access_token_ttl_secs app)) \<and>
    map_option claim_sub (token_verify lib access' Access (public_key_pem app) later) = Some (uuid_show lib (user_id user)) \<and>
    token_verify lib access' Refresh (public_key_pem app) later = None"
proof -
  from login_row [OF assms(2,5)] obtain user row n where user: "user \<in> set (users s)" "username user = name"
      "hash_matches lib pwd (password_hash user)"
    and gen: "token_generate lib (uuid_show lib (user_id user)) Refresh (private_key_pem app) (refresh_token_ttl_secs app) now = Some refresh"
    and row: "refresh_tokens t = refresh_tokens s @ [row]" "token_user row = user_id user" "hash_matches lib refresh (token_hash row)"
      "add_seconds (instant app now n) (refresh_token_ttl_secs app) = Some (token_expired_at row)" by blast
  note expiry = add_seconds_Some [OF row(4) assms(9)]
  let ?sub = "uuid_show lib (user_id user)"
  have alive: "unat later \<le> unat (saturating_add now (refresh_token_ttl_secs app)) + 60"
  proof -
    have "int (unat later) * 10 ^ 9 \<le> (int (unat now) + int (unat (refresh_token_ttl_secs app))) * 10 ^ 9"
      using assms(7) by (simp add: instant_def)
    from nanos_le(2) [OF this] show ?thesis using expiry(2) by (simp add: unat_saturating_add)
  qed
  have verified: "token_verify lib refresh Refresh (public_key_pem app) later =
      Some (claims_for ?sub Refresh (refresh_token_ttl_secs app) now)"
    using decode_generated [OF assms(1) gen, of Refresh later] alive by (simp add: token_verify_def)
  have "stored_token lib refresh (tokens_of (user_id user) (t\<lparr>db_calls := k\<rparr>)) = Some row" for k
    using stored_token_last [of "filter (\<lambda>r. token_user r = user_id user) (refresh_tokens s)" lib refresh row "[]"] assms(6) row
    by (simp add: tokens_of_def)
  then have stored: "stored_token lib refresh (tokens_of (user_id user) t) = Some row" by (simp add: tokens_of_def)
  obtain access' where access': "token_generate lib ?sub Access (private_key_pem app) (access_token_ttl_secs app) later = Some access'"
    using assms(8) [OF user(1,2)] by blast
  have "fst (refresh_grant lib app later refresh t) = Inr (RefreshedToken access' (access_token_ttl_secs app))"
    using verified stored access' assms(3,4,7) expiry(1)
    by (simp add: refresh_grant_def claims_for_def uuid_law_def db_query_def)
  moreover have "unat later < 2 ^ LENGTH(64)" by (rule unsigned_less)
  then have "unat later \<le> unat (saturating_add later (access_token_ttl_secs app)) + 60"
    by (simp add: unat_saturating_add min_def)
  then have "token_verify lib access' Access (public_key_pem app) later = Some (claims_for ?sub Access (access_token_ttl_secs app) later)"
    "token_verify lib access' Refresh (public_key_pem app) later = None"
    using decode_generated [OF assms(1) access', of Access later] decode_generated [OF assms(1) access', of Refresh later]
    by (simp_all add: token_verify_def)
  ultimately show ?thesis using user by (auto simp: claims_for_def)
qed


lemma demo_login:
  "password_grant demo_lib demo_app 50 ''alice'' ''correct horse'' demo_users =
     (Inr (PasswordTokens ''A'' 100 ''R''),
      demo_users\<lparr>refresh_tokens := [\<lparr>token_row_id = 1, token_user = 7, token_hash = ''R'', token_created_at = 50000001000,
                                      token_expired_at = 1050000001000\<rparr>], db_calls := 2, drawn := 2\<rparr>)"
  by (simp add: password_grant_def issue_tokens_def db_query_def find_user_def draw_def insert_refresh_def Let_def
        instant_def add_seconds_def demo_app_def demo_users_def demo_lib_run)

lemma demo_login_pair:
  "password_grant demo_lib demo_app 50 ''alice'' ''correct horse'' demo_users =
     (Inr (PasswordTokens ''A'' 100 ''R''), snd (password_grant demo_lib demo_app 50 ''alice'' ''correct horse'' demo_users))"
  by (simp add: demo_login)

lemma demo_app_up: "db_up demo_app n" by (simp add: demo_app_def)

lemma demo_app_laws: "jwt_law demo_lib (private_key_pem demo_app) (PemKey (public_key_pem demo_app))"
  "argon_law demo_lib" "uuid_law demo_lib"
  using demo_lib_laws by (auto simp: demo_app_def)

theorem refresh_after_login_witness:
  "\<exists>access'. fst (refresh_grant demo_lib demo_app 60 ''R''
       (snd (password_grant demo_lib demo_app 50 ''alice'' ''correct horse'' demo_users))) = Inr (RefreshedToken access' 100)"
proof -
  let ?t = "snd (password_grant demo_lib demo_app 50 ''alice'' ''correct horse'' demo_users)"
  have "db_calls ?t = 2" unfolding demo_login by simp
  then have "instant demo_app 60 (db_calls ?t + 1) \<le> (int (unat 50) + int (unat (refresh_token_ttl_secs demo_app))) * 10 ^ 9"
    by (simp add: instant_def demo_app_def)
  from refresh_after_login [OF demo_app_laws demo_app_up demo_login_pair _ this] show ?thesis
    by (auto simp: demo_app_def demo_users_def demo_lib_run)
qed

text \<open>C29. Revocation ends the session: once the refresh token of a login has been revoked, presenting it
  again is an invalid grant, at every later time, as long as no other stored row carried the same
  token.\<close>
theorem revoke_ends_session:
  assumes "jwt_law lib (private_key_pem app) (PemKey (public_key_pem app))" and "argon_law lib" and "uuid_law lib"
    and "\<And>n. db_up app n"
    and "password_grant lib app now name pwd s = (Inr (PasswordTokens access ttl refresh), t)"
    and "\<forall>r \<in> set (refresh_tokens s). \<not> hash_matches lib refresh (token_hash r)"
    and "unat later \<le> unat now + unat (refresh_token_ttl_secs app)"
  shows "fst (refresh_grant lib app later' refresh (snd (revoke_handler lib app later refresh t))) = Inl invalid_grant"
proof -
  from login_row [OF assms(2,5)] obtain user row n where member: "user \<in> set (users s)" and
    gen: "token_generate lib (uuid_show lib (user_id user)) Refresh (private_key_pem app) (refresh_token_ttl_secs app) now = Some refresh"
    and row: "refresh_tokens t = refresh_tokens s @ [row]" "token_user row = user_id user" "hash_matches lib refresh (token_hash row)"
    by blast
  let ?sub = "uuid_show lib (user_id user)" and ?c = "claims_for (uuid_show lib (user_id user)) Refresh (refresh_token_ttl_secs app) now"
  have uuid: "uuid_parse lib (claim_sub ?c) = Some (user_id user)" using assms(3) by (simp add: claims_for_def uuid_law_def)
  have "unat later < 2 ^ LENGTH(64)" by (rule unsigned_less)
  then have "unat later \<le> unat (saturating_add now (refresh_token_ttl_secs app)) + 60"
    using assms(7) by (simp add: unat_saturating_add min_def)
  then have verified: "token_verify lib refresh Refresh (public_key_pem app) later = Some ?c"
    using decode_generated [OF assms(1) gen, of Refresh later] by (simp add: token_verify_def)
  have again: "token_verify lib refresh Refresh (public_key_pem app) later' \<in> {None, Some ?c}"
    using decode_generated [OF assms(1) gen, of Refresh later'] by (simp add: token_verify_def)
  have stored: "stored_token lib refresh (tokens_of (user_id user) t) = Some row"
    using stored_token_last [of "filter (\<lambda>r. token_user r = user_id user) (refresh_tokens s)" lib refresh row "[]"] assms(6) row
    by (simp add: tokens_of_def)
  have rest: "refresh_tokens (snd (revoke_handler lib app later refresh t)) = filter (\<lambda>r. token_row_id r \<noteq> token_row_id row) (refresh_tokens t)"
    using verified uuid stored assms(4) by (simp add: revoke_handler_def db_query_def delete_refresh_def)
  have "stored_token lib refresh (tokens_of (user_id user) (snd (revoke_handler lib app later refresh t))) = None"
    unfolding stored_token_None using assms(6) by (auto simp: tokens_of_def rest row(1))
  with again uuid assms(4) show ?thesis by (auto simp: refresh_grant_def db_query_def)
qed

theorem revoke_ends_session_witness:
  "fst (refresh_grant demo_lib demo_app 60 ''R'' (snd (revoke_handler demo_lib demo_app 55 ''R''
       (snd (password_grant demo_lib demo_app 50 ''alice'' ''correct horse'' demo_users))))) = Inl invalid_grant"
  by (rule revoke_ends_session [OF demo_app_laws demo_app_up demo_login_pair])
     (simp_all add: demo_app_def demo_users_def)

text \<open>Two logins of a user within the same second get the same refresh token, because a token is a
  function of the user, the lifetime and the second; it is stored twice and a revocation removes only
  one of the rows, so the revoked token still works.\<close>
theorem revoked_token_survives:
  "let login = password_grant demo_lib demo_app 50 ''alice'' ''correct horse'';
       s2 = snd (login (snd (login demo_users)));
       s3 = snd (revoke_handler demo_lib demo_app 60 ''R'' s2)
   in fst (login demo_users) = fst (login (snd (login demo_users))) \<and>
      fst (refresh_grant demo_lib demo_app 60 ''R'' s3) = Inr (RefreshedToken ''B'' 100)"
proof -
  have second: "password_grant demo_lib demo_app 50 ''alice'' ''correct horse''
      (snd (password_grant demo_lib demo_app 50 ''alice'' ''correct horse'' demo_users)) =
     (Inr (PasswordTokens ''A'' 100 ''R''),
      demo_users\<lparr>refresh_tokens :=
         [\<lparr>token_row_id = 1, token_user = 7, token_hash = ''R'', token_created_at = 50000001000, token_expired_at = 1050000001000\<rparr>,
          \<lparr>token_row_id = 3, token_user = 7, token_hash = ''R'', token_created_at = 50000003000, token_expired_at = 1050000003000\<rparr>],
         db_calls := 4, drawn := 4\<rparr>)"
    by (simp add: demo_login) (simp add: password_grant_def issue_tokens_def db_query_def find_user_def draw_def
        insert_refresh_def Let_def instant_def add_seconds_def demo_app_def demo_users_def demo_lib_run)
  show ?thesis
    unfolding Let_def second
    by (simp add: demo_login)
       (simp add: revoke_handler_def refresh_grant_def db_query_def tokens_of_def stored_token_def delete_refresh_def
         instant_def demo_app_def demo_users_def demo_lib_run claims_for_def)
qed

text \<open>Registration never breaks the uniqueness of user ids, names and addresses, and changes the users
  only by adding the requested one, unverified; names are compared as they are sent, so (against the
  comment on the column) two that differ only in case can both be registered.\<close>
theorem register_keeps_users_unique:
  assumes "unique_users s"
  shows "unique_users (snd (register_handler lib app now name pwd mail s)) \<and>
   (users (snd (register_handler lib app now name pwd mail s)) = users s \<or>
    (\<exists>n h. users (snd (register_handler lib app now name pwd mail s)) = users s @ [new_user_row lib n name mail h now])) \<and>
   map username (users (snd (register_handler demo_lib demo_app 50 ''Alice'' ''password'' ''A@b'' demo_users))) = [''alice'', ''Alice'']"
proof -
  obtain r t where rt: "register_handler lib app now name pwd mail s = (r, t)" by fastforce
  have "map username (users (snd (register_handler demo_lib demo_app 50 ''Alice'' ''password'' ''A@b'' demo_users))) = [''alice'', ''Alice'']"
    by (auto simp: register_handler_def blank_def blank_codes.simps wide_space_def db_query_def find_user_def draw_def
          insert_user_def new_user_row_def demo_app_def demo_users_def demo_lib_run issue_tokens_users Let_def
        dest!: arg_cong [where f = "\<lambda>p. users (snd p)"]
        split: option.splits prod.splits issue_result.splits) (drule sym, simp)+
  moreover have "unique_users t"
    using register_users [OF rt] assms by (force simp: unique_users_def new_user_row_def image_iff)
  moreover have "users t = users s \<or> (\<exists>n h. users t = users s @ [new_user_row lib n name mail h now])"
    using register_users [OF rt] by blast
  ultimately show ?thesis unfolding rt by simp
qed

end
