(* ===== verification/Http_Headers.thy ===== *)
theory Http_Headers
  imports OJ_Prelude
begin

text \<open>
  The headers of a request as the handlers use them: a map from a (lower-case) header name to its values in
  order.  \<open>header_get\<close> is \<open>HeaderMap::get\<close>, which gives the first value; \<open>header_insert\<close> replaces every
  value of the name and \<open>header_remove\<close> drops them all.  \<open>to_str\<close> is \<open>HeaderValue::to_str\<close>, which
  refuses a value with a byte that is not visible ASCII, a space or a tab.
\<close>

type_synonym headers = "string \<rightharpoonup> string list"

definition header_get :: "headers \<Rightarrow> string \<Rightarrow> string option" where
  "header_get h name = (case h name of Some (v # _) \<Rightarrow> Some v | _ \<Rightarrow> None)"

definition header_insert :: "headers \<Rightarrow> string \<Rightarrow> string \<Rightarrow> headers" where
  "header_insert h name v = h(name \<mapsto> [v])"

definition header_remove :: "headers \<Rightarrow> string \<Rightarrow> headers" where
  "header_remove h name = h(name := None)"

definition visible :: "char \<Rightarrow> bool" where
  "visible c \<longleftrightarrow> (32 \<le> (of_char c :: nat) \<and> (of_char c :: nat) < 127) \<or> (of_char c :: nat) = 9"

definition to_str :: "string \<Rightarrow> string option" where
  "to_str v = (if list_all visible v then Some v else None)"

lemma header_get_insert [simp]:
  "header_get (header_insert h name v) name' = (if name' = name then Some v else header_get h name')"
  by (simp add: header_get_def header_insert_def)

lemma header_get_remove [simp]:
  "header_get (header_remove h name) name' = (if name' = name then None else header_get h name')"
  by (simp add: header_get_def header_remove_def)

lemma header_insert_values [simp]: "header_insert h name v name = Some [v]"
  by (simp add: header_insert_def)

lemma header_remove_values [simp]: "header_remove h name name = None"
  by (simp add: header_remove_def)

text \<open>\<open>str::strip_prefix\<close>.\<close>

fun strip_prefix :: "string \<Rightarrow> string \<Rightarrow> string option" where
  "strip_prefix [] s = Some s"
| "strip_prefix (c # cs) [] = None"
| "strip_prefix (c # cs) (d # ds) = (if c = d then strip_prefix cs ds else None)"

lemma strip_prefix_append [simp]: "strip_prefix p (p @ s) = Some s"
  by (induction p) simp_all

lemma strip_prefix_Some: "strip_prefix p s = Some t \<longleftrightarrow> s = p @ t"
  by (induction p s rule: strip_prefix.induct) auto

end
