(* ===== verification/Auth_Extractor.thy ===== *)
theory Auth_Extractor
  imports Auth_Router Http_Headers
begin

text \<open>
  The extractors a service uses to learn who sent a request (\<open>auth/src/extractor.rs\<close>): \<open>UserId\<close> trusts
  the header a gateway in front of the service has set, \<open>Auth\<close> verifies the bearer token itself.  An
  extractor returns the identity or the response that rejects the request.
\<close>

type_synonym identity = uuid

record rejection =
  rej_status :: nat
  rej_www_authenticate :: "string option"

definition plain_rejection :: "nat \<Rightarrow> rejection" where
  "plain_rejection status = \<lparr>rej_status = status, rej_www_authenticate = None\<rparr>"

subsection \<open>The header of a gateway\<close>

definition extract_x_user_id :: "auth_lib \<Rightarrow> string option \<Rightarrow> rejection + identity" where
  "extract_x_user_id lib header =
     (case header of
        None \<Rightarrow> Inl (plain_rejection 500)
      | Some val \<Rightarrow>
          (case to_str val of
             None \<Rightarrow> Inl (plain_rejection 500)
           | Some s \<Rightarrow>
               (case uuid_parse lib s of
                  None \<Rightarrow> Inl (plain_rejection 500)
                | Some u \<Rightarrow> Inr u)))"

definition user_id_required :: "auth_lib \<Rightarrow> headers \<Rightarrow> rejection + identity" where
  "user_id_required lib h = extract_x_user_id lib (header_get h ''x-user-id'')"

definition user_id_optional :: "auth_lib \<Rightarrow> headers \<Rightarrow> rejection + identity option" where
  "user_id_optional lib h =
     (case header_get h ''x-user-id'' of
        Some val \<Rightarrow>
          (case extract_x_user_id lib (Some val) of
             Inl e \<Rightarrow> Inl e
           | Inr u \<Rightarrow> Inr (Some u))
      | None \<Rightarrow> Inr None)"

subsection \<open>Errors of bearer authentication\<close>

datatype auth_error = StateNotConfigured | MissingHeader | InvalidHeader | InvalidToken | BadSubject

datatype www_auth_error = WwwInvalidToken | WwwInvalidRequest | WwwInsufficientScope

fun auth_error_status :: "auth_error \<Rightarrow> nat" where
  "auth_error_status StateNotConfigured = 500"
| "auth_error_status BadSubject = 500"
| "auth_error_status MissingHeader = 401"
| "auth_error_status InvalidHeader = 401"
| "auth_error_status InvalidToken = 401"

fun www_auth_error_of :: "auth_error \<Rightarrow> www_auth_error option" where
  "www_auth_error_of StateNotConfigured = None"
| "www_auth_error_of BadSubject = None"
| "www_auth_error_of MissingHeader = Some WwwInvalidToken"
| "www_auth_error_of InvalidHeader = Some WwwInvalidToken"
| "www_auth_error_of InvalidToken = Some WwwInvalidToken"

fun www_as_str :: "www_auth_error \<Rightarrow> string" where
  "www_as_str WwwInvalidToken = ''invalid_token''"
| "www_as_str WwwInvalidRequest = ''invalid_request''"
| "www_as_str WwwInsufficientScope = ''insufficient_scope''"

record www_authenticate =
  www_scheme :: string
  www_params :: "(string \<times> string) list"

definition www_bearer :: "string \<Rightarrow> www_auth_error \<Rightarrow> www_authenticate" where
  "www_bearer realm err =
     \<lparr>www_scheme = ''Bearer'', www_params = [(''realm'', realm), (''error'', www_as_str err)]\<rparr>"

fun join :: "string \<Rightarrow> string list \<Rightarrow> string" where
  "join sep [] = []"
| "join sep [s] = s"
| "join sep (s # ss) = s @ sep @ join sep ss"

definition quote_char :: char where "quote_char = CHR 0x22"

definition to_header_value :: "www_authenticate \<Rightarrow> string" where
  "to_header_value w =
     www_scheme w @ '' '' @ join '', '' (map (\<lambda>(k, v). k @ ''='' @ [quote_char] @ v @ [quote_char]) (www_params w))"

definition auth_error_response :: "auth_error \<Rightarrow> rejection" where
  "auth_error_response e =
     \<lparr>rej_status = auth_error_status e,
      rej_www_authenticate = map_option (\<lambda>err. to_header_value (www_bearer ''api'' err)) (www_auth_error_of e)\<rparr>"

subsection \<open>Bearer authentication\<close>

text \<open>The router's state is an extension of the request; \<open>None\<close> when the layer that adds it is missing.\<close>

definition get_auth_state :: "auth_app option \<Rightarrow> rejection + auth_app" where
  "get_auth_state ext = (case ext of None \<Rightarrow> Inl (auth_error_response StateNotConfigured) | Some app \<Rightarrow> Inr app)"

definition verify_bearer :: "auth_lib \<Rightarrow> auth_app \<Rightarrow> u64 \<Rightarrow> string \<Rightarrow> rejection + identity" where
  "verify_bearer lib app now auth_header =
     (case strip_prefix ''Bearer '' auth_header of
        None \<Rightarrow> Inl (auth_error_response InvalidHeader)
      | Some token \<Rightarrow>
          (case token_verify lib token Access (public_key_pem app) now of
             None \<Rightarrow> Inl (auth_error_response InvalidToken)
           | Some c \<Rightarrow>
               (case uuid_parse lib (claim_sub c) of
                  None \<Rightarrow> Inl (auth_error_response BadSubject)
                | Some u \<Rightarrow> Inr u)))"

definition extract_identity :: "auth_lib \<Rightarrow> auth_app \<Rightarrow> u64 \<Rightarrow> headers \<Rightarrow> rejection + identity" where
  "extract_identity lib app now h =
     (case Option.bind (header_get h ''authorization'') to_str of
        None \<Rightarrow> Inl (auth_error_response MissingHeader)
      | Some auth_header \<Rightarrow> verify_bearer lib app now auth_header)"

definition auth_required :: "auth_lib \<Rightarrow> auth_app option \<Rightarrow> u64 \<Rightarrow> headers \<Rightarrow> rejection + identity" where
  "auth_required lib ext now h =
     (case get_auth_state ext of
        Inl e \<Rightarrow> Inl e
      | Inr app \<Rightarrow> extract_identity lib app now h)"

definition auth_optional :: "auth_lib \<Rightarrow> auth_app option \<Rightarrow> u64 \<Rightarrow> headers \<Rightarrow> rejection + identity option" where
  "auth_optional lib ext now h =
     (case get_auth_state ext of
        Inl e \<Rightarrow> Inl e
      | Inr app \<Rightarrow>
          (case Option.bind (header_get h ''authorization'') to_str of
             None \<Rightarrow> Inr None
           | Some auth_header \<Rightarrow>
               (case verify_bearer lib app now auth_header of
                  Inl e \<Rightarrow> Inl e
                | Inr u \<Rightarrow> Inr (Some u))))"

subsection \<open>Lemmas\<close>

lemma to_str_bearer:
  "list_all visible t \<Longrightarrow> to_str (''Bearer '' @ t) = Some (''Bearer '' @ t)"
  by (simp add: to_str_def visible_def)

lemma extract_identity_bearer:
  assumes "header_get h ''authorization'' = Some (''Bearer '' @ t)" and "list_all visible t"
  shows "extract_identity lib app now h =
    (case token_verify lib t Access (public_key_pem app) now of
       None \<Rightarrow> Inl (auth_error_response InvalidToken)
     | Some c \<Rightarrow> (case uuid_parse lib (claim_sub c) of None \<Rightarrow> Inl (auth_error_response BadSubject) | Some u \<Rightarrow> Inr u))"
  using to_str_bearer [OF assms(2)] assms(1) strip_prefix_append [of "''Bearer ''" t]
  by (simp add: extract_identity_def verify_bearer_def)

lemma login_tokens:
  assumes "password_grant lib app now name pwd s = (Inr (PasswordTokens access ttl refresh), t)"
  shows "\<exists>user \<in> set (users s). username user = name \<and> hash_matches lib pwd (password_hash user) \<and>
    token_generate lib (uuid_show lib (user_id user)) Access (private_key_pem app) (access_token_ttl_secs app) now = Some access \<and>
    token_generate lib (uuid_show lib (user_id user)) Refresh (private_key_pem app) (refresh_token_ttl_secs app) now = Some refresh"
proof -
  from password_grant_Inr [OF assms] obtain user s1 where "user \<in> set (users s)" "username user = name"
    "hash_matches lib pwd (password_hash user)" and iss: "issue_tokens lib app now (user_id user) s1 = (Issued access refresh, t)"
    by blast
  with issue_tokens_Some [OF iss] show ?thesis by auto
qed

subsection \<open>Properties\<close>

text \<open>The tokens of a login work with the extractor as they should: until its lifetime is over the access
  token authenticates every request as the user who logged in, and the refresh token is rejected with a 401
  and the challenge of RFC 6750.\<close>
theorem login_authenticates:
  assumes "jwt_law lib (private_key_pem app) (PemKey (public_key_pem app))" and "uuid_law lib"
    and "password_grant lib app now name pwd s = (Inr (PasswordTokens access ttl refresh), t)"
    and "list_all visible access" and "list_all visible refresh"
    and "header_get h ''authorization'' = Some (''Bearer '' @ access)"
    and "header_get h' ''authorization'' = Some (''Bearer '' @ refresh)"
    and "unat later \<le> unat (saturating_add now (access_token_ttl_secs app))"
  shows "\<exists>user. user \<in> set (users s) \<and> username user = name \<and> hash_matches lib pwd (password_hash user) \<and>
    auth_required lib (Some app) later h = Inr (user_id user) \<and>
    auth_optional lib (Some app) later h = Inr (Some (user_id user)) \<and>
    auth_required lib (Some app) later h' =
      Inl \<lparr>rej_status = 401,
           rej_www_authenticate = Some (''Bearer realm='' @ [quote_char] @ ''api'' @ [quote_char] @ '', error='' @
             [quote_char] @ ''invalid_token'' @ [quote_char])\<rparr>"
proof -
  from login_tokens [OF assms(3)] obtain user where user: "user \<in> set (users s)" "username user = name"
      "hash_matches lib pwd (password_hash user)"
    and gen: "token_generate lib (uuid_show lib (user_id user)) Access (private_key_pem app) (access_token_ttl_secs app) now = Some access"
      "token_generate lib (uuid_show lib (user_id user)) Refresh (private_key_pem app) (refresh_token_ttl_secs app) now = Some refresh"
    by blast
  have access: "verify_bearer lib app later (''Bearer '' @ access) = Inr (user_id user)"
    using decode_generated [OF assms(1) gen(1), of Access later] assms(2,8) strip_prefix_append [of "''Bearer ''" access]
    by (simp add: verify_bearer_def token_verify_def claims_for_def uuid_law_def)
  have refresh: "verify_bearer lib app later (''Bearer '' @ refresh) = Inl (auth_error_response InvalidToken)"
    using decode_generated [OF assms(1) gen(2), of Access later] strip_prefix_append [of "''Bearer ''" refresh]
    by (simp add: verify_bearer_def token_verify_def)
  show ?thesis
    using user access refresh to_str_bearer [OF assms(4)] to_str_bearer [OF assms(5)] assms(6,7)
    by (intro exI [of _ user])
       (simp add: auth_required_def auth_optional_def get_auth_state_def extract_identity_def auth_error_response_def
          to_header_value_def www_bearer_def)
qed

text \<open>The optional extractor differs from the required one only where it lets a request pass without an
  identity: when there is no Authorization header, and also (which its comment does not say) when there is
  one that is not readable as text.  Any other bad header or token is rejected by both alike.\<close>
theorem optional_auth_passes:
  "auth_optional lib ext now h =
     (if ext \<noteq> None \<and> (header_get h ''authorization'' = None \<or> (\<exists>v. header_get h ''authorization'' = Some v \<and> to_str v = None))
      then Inr None
      else case auth_required lib ext now h of Inl e \<Rightarrow> Inl e | Inr u \<Rightarrow> Inr (Some u))"
  by (cases ext; cases "header_get h ''authorization''")
     (auto simp: auth_optional_def auth_required_def get_auth_state_def extract_identity_def split: option.splits)

end
