(* ===== verification/Gateway_Jwks.thy ===== *)
theory Gateway_Jwks
  imports Auth_Extractor "HOL-Library.AList"
begin

text \<open>
  The gateway's view of the authorization server's keys (\<open>gateway/src/jwks.rs\<close>): a cache filled by
  \<open>new\<close>, replaced by every refresh that succeeds, and read to verify a token.  The URI parser, the HTTP
  client, the JSON parser and base64 are parameters; one fetch's network outcome is a \<open>fetch_reply\<close>.
\<close>

datatype jwks_error =
    FetchFailed
  | InvalidUrl
  | ParseFailed
  | KeysNotLoaded
  | UnknownKid string
  | TokenVerificationFailed
  | Base64DecodeFailed
  | HttpError
  | MalformedToken string

datatype fetch_reply = SendError | BodyError | Body string

record jwks_lib =
  url_parses :: "string \<Rightarrow> bool"
  jwks_json :: "string \<Rightarrow> jwk list option"
  codec :: key_codec

text \<open>The key map is an association list with distinct keys, so that its size is its length.\<close>

type_synonym key_map = "(string \<times> string) list"

fun collect_keys :: "key_codec \<Rightarrow> jwk list \<Rightarrow> key_map \<Rightarrow> jwks_error + key_map" where
  "collect_keys kc [] keys = Inr keys"
| "collect_keys kc (entry # entries) keys =
     (case b64_decode kc (jwk_x entry) of
        None \<Rightarrow> Inl Base64DecodeFailed
      | Some raw_key \<Rightarrow> collect_keys kc entries (AList.update (jwk_kid entry) raw_key keys))"

definition fetch_jwks :: "jwks_lib \<Rightarrow> string \<Rightarrow> fetch_reply \<Rightarrow> jwks_error + key_map" where
  "fetch_jwks jl url reply =
     (if \<not> url_parses jl url then Inl InvalidUrl
      else
        (case reply of
           SendError \<Rightarrow> Inl HttpError
         | BodyError \<Rightarrow> Inl FetchFailed
         | Body body \<Rightarrow>
             (case jwks_json jl body of
                None \<Rightarrow> Inl ParseFailed
              | Some entries \<Rightarrow> collect_keys (codec jl) entries [])))"

record jwks_manager =
  cache :: "key_map option"
  manager_url :: string

definition jwks_refresh :: "jwks_lib \<Rightarrow> fetch_reply \<Rightarrow> jwks_manager \<Rightarrow> (jwks_error + unit) \<times> jwks_manager" where
  "jwks_refresh jl reply m =
     (case fetch_jwks jl (manager_url m) reply of
        Inl e \<Rightarrow> (Inl e, m)
      | Inr keys \<Rightarrow> (Inr (), m\<lparr>cache := Some keys\<rparr>))"

definition jwks_new :: "jwks_lib \<Rightarrow> string \<Rightarrow> fetch_reply \<Rightarrow> jwks_error + jwks_manager" where
  "jwks_new jl url reply =
     (case jwks_refresh jl reply \<lparr>cache = None, manager_url = url\<rparr> of
        (Inl e, _) \<Rightarrow> Inl e
      | (Inr _, m) \<Rightarrow> Inr m)"

text \<open>One round of the background task: an error is only logged.\<close>

definition jwks_tick :: "jwks_lib \<Rightarrow> jwks_manager \<Rightarrow> fetch_reply \<Rightarrow> jwks_manager" where
  "jwks_tick jl m reply =
     (case fetch_jwks jl (manager_url m) reply of
        Inl e \<Rightarrow> m
      | Inr keys \<Rightarrow> m\<lparr>cache := Some keys\<rparr>)"

definition is_ready :: "jwks_manager \<Rightarrow> bool" where
  "is_ready m \<longleftrightarrow> cache m \<noteq> None"

definition lookup_key :: "key_map \<Rightarrow> string option \<Rightarrow> jwks_error + string" where
  "lookup_key keys kid =
     (case kid of
        Some k \<Rightarrow> (case map_of keys k of None \<Rightarrow> Inl (UnknownKid k) | Some raw \<Rightarrow> Inr raw)
      | None \<Rightarrow>
          if length keys = 1 then Inr (snd (hd keys))
          else Inl (MalformedToken ''missing kid in JWT header and JWKS has multiple keys''))"

definition jwks_verify :: "auth_lib \<Rightarrow> jwks_manager \<Rightarrow> u64 \<Rightarrow> string \<Rightarrow> jwks_error + claims" where
  "jwks_verify lib m now token =
     (case jwt_kid lib token of
        None \<Rightarrow> Inl (MalformedToken ''failed to decode JWT header'')
      | Some kid \<Rightarrow>
          (case cache m of
             None \<Rightarrow> Inl KeysNotLoaded
           | Some keys \<Rightarrow>
               (case lookup_key keys kid of
                  Inl e \<Rightarrow> Inl e
                | Inr raw_key \<Rightarrow>
                    (case verify_with_raw_key lib token Access raw_key now of
                       None \<Rightarrow> Inl TokenVerificationFailed
                     | Some c \<Rightarrow> Inr c))))"

subsection \<open>Lemmas\<close>

lemma collect_keys_distinct: "collect_keys kc es keys = Inr keys' \<Longrightarrow> distinct (map fst keys) \<Longrightarrow> distinct (map fst keys')"
  by (induction es arbitrary: keys) (auto split: option.splits simp: distinct_update)

lemma manager_url_tick [simp]: "manager_url (jwks_tick jl m reply) = manager_url m"
  by (simp add: jwks_tick_def split: sum.splits)

lemma manager_url_run [simp]: "manager_url (foldl (jwks_tick jl) m replies) = manager_url m"
  by (induction replies rule: rev_induct) simp_all

definition fetched_keys :: "jwks_lib \<Rightarrow> string \<Rightarrow> fetch_reply list \<Rightarrow> key_map list" where
  "fetched_keys jl url replies = List.map_filter (\<lambda>r. case fetch_jwks jl url r of Inl _ \<Rightarrow> None | Inr keys \<Rightarrow> Some keys) replies"

lemma fetched_keys_from: "keys \<in> set (fetched_keys jl url rs) \<Longrightarrow> \<exists>r. fetch_jwks jl url r = Inr keys"
  by (induction rs) (auto simp: fetched_keys_def map_filter_simps split: option.splits sum.splits)

lemma jwks_run_cache:
  "cache (foldl (jwks_tick jl) m replies) =
     (if fetched_keys jl (manager_url m) replies = [] then cache m else Some (last (fetched_keys jl (manager_url m) replies)))"
proof (induction replies rule: rev_induct)
  case Nil
  then show ?case by (simp add: fetched_keys_def map_filter_simps)
next
  case (snoc r rs)
  have "fetched_keys jl (manager_url m) (rs @ [r]) =
      fetched_keys jl (manager_url m) rs @ (case fetch_jwks jl (manager_url m) r of Inl _ \<Rightarrow> [] | Inr keys \<Rightarrow> [keys])"
    by (simp add: fetched_keys_def map_filter_def split: sum.splits)
  moreover have "cache (jwks_tick jl m' r) = (case fetch_jwks jl (manager_url m') r of Inl _ \<Rightarrow> cache m' | Inr keys \<Rightarrow> Some keys)" for m'
    by (simp add: jwks_tick_def split: sum.splits)
  ultimately show ?case using snoc by (simp split: sum.splits)
qed

lemma extracted_length: "extract_ed25519_public_key kc pem = Some raw \<Longrightarrow> length raw = 32"
  by (auto simp: extract_ed25519_public_key_def split: option.splits if_splits)

text \<open>A fetch of what the authorization server publishes gives its one key.\<close>

lemma fetch_published:
  assumes "jwks_handler (codec jl) app = Inr keys" and "extract_ed25519_public_key (codec jl) (public_key_pem app) = Some raw"
    and "b64_decode (codec jl) (b64_encode (codec jl) raw) = Some raw"
    and "url_parses jl url" and "jwks_json jl body = Some keys"
  shows "\<exists>kid. fetch_jwks jl url (Body body) = Inr [(kid, raw)]"
  using assms by (auto simp: jwks_handler_def fetch_jwks_def)

lemma jwks_verify_generated:
  assumes "jwt_law lib pem (DerKey der)" and "token_generate lib sub typ pem ttl now = Some t"
    and "jwt_kid lib t = Some None" and "cache m = Some [(kid, raw)]" and "length raw = 32" and "der_of_raw lib raw = Some der"
  shows "jwks_verify lib m later t =
    (if typ = Access \<and> unat later \<le> unat (saturating_add now ttl) + 60 then Inr (claims_for sub typ ttl now)
     else Inl TokenVerificationFailed)"
  using decode_generated [OF assms(1,2), of Access later] assms(3-6)
  by (auto simp: jwks_verify_def lookup_key_def verify_with_raw_key_def raw_to_der_def)

subsection \<open>Properties\<close>

text \<open>Once the manager has been created its keys are never lost: whatever later refreshes return, it is
  ready, and its keys are those of the last fetch that succeeded, with one key per identifier.\<close>
theorem jwks_keys_last_success:
  assumes "jwks_new jl url first = Inr m"
  shows "is_ready (foldl (jwks_tick jl) m replies) \<and>
    cache (foldl (jwks_tick jl) m replies) = Some (last (fetched_keys jl url (first # replies))) \<and>
    distinct (map fst (the (cache (foldl (jwks_tick jl) m replies))))"
proof -
  from assms obtain keys where first: "fetch_jwks jl url first = Inr keys" and m: "cache m = Some keys" "manager_url m = url"
    by (auto simp: jwks_new_def jwks_refresh_def split: sum.splits prod.splits)
  have all: "fetched_keys jl url (first # replies) = keys # fetched_keys jl url replies"
    using first by (simp add: fetched_keys_def map_filter_simps)
  then have c: "cache (foldl (jwks_tick jl) m replies) = Some (last (fetched_keys jl url (first # replies)))"
    using m by (simp add: jwks_run_cache)
  have "last (fetched_keys jl url (first # replies)) \<in> set (fetched_keys jl url (first # replies))" using all by simp
  from fetched_keys_from [OF this] obtain r where "fetch_jwks jl url r = Inr (last (fetched_keys jl url (first # replies)))" ..
  then have "distinct (map fst (last (fetched_keys jl url (first # replies))))"
    by (auto simp: fetch_jwks_def split: if_splits fetch_reply.splits option.splits dest: collect_keys_distinct)
  with c show ?thesis by (simp add: is_ready_def)
qed

definition demo_codec :: key_codec where
  "demo_codec =
     \<lparr>pem_contents = \<lambda>pem. Some (replicate 32 (CHR ''k'')), sha256_raw = \<lambda>raw. ''kid'', b64_encode = \<lambda>raw. raw, b64_decode = Some\<rparr>"

definition demo_published :: "jwk list" where
  "demo_published = [\<lparr>jwk_kty = ''OKP'', jwk_crv = ''Ed25519'', jwk_use = ''sig'', jwk_alg = ''EdDSA'', jwk_kid = ''kid'',
     jwk_x = replicate 32 (CHR ''k'')\<rparr>]"

definition demo_jwks_lib :: jwks_lib where
  "demo_jwks_lib = \<lparr>url_parses = \<lambda>url. True, jwks_json = \<lambda>body. if body = ''keys'' then Some demo_published else None, codec = demo_codec\<rparr>"

definition demo_manager :: jwks_manager where
  "demo_manager = \<lparr>cache = Some [(''kid'', replicate 32 (CHR ''k''))], manager_url = ''auth/jwks.json''\<rparr>"

lemma demo_manager_new: "jwks_new demo_jwks_lib ''auth/jwks.json'' (Body ''keys'') = Inr demo_manager"
  by (simp add: jwks_new_def jwks_refresh_def fetch_jwks_def demo_jwks_lib_def demo_published_def demo_codec_def demo_manager_def)

text \<open>The authorization server and the gateway agree: a gateway that has fetched the keys the server
  publishes accepts the access token of every login until its lifetime is over, as a token of the user who
  logged in, and never accepts a refresh token.\<close>
lemma gateway_accepts_server_tokens:
  assumes "jwks_handler (codec jl) app = Inr keys" and "extract_ed25519_public_key (codec jl) (public_key_pem app) = Some raw"
    and "b64_decode (codec jl) (b64_encode (codec jl) raw) = Some raw" and "jwks_json jl body = Some keys" and "url_parses jl url"
    and "der_of_raw lib raw = Some der" and "jwt_law lib (private_key_pem app) (DerKey der)"
    and "\<forall>c tk. jwt_encode lib c (private_key_pem app) = Some tk \<longrightarrow> jwt_kid lib tk = Some None"
    and "password_grant lib app now name pwd s = (Inr (PasswordTokens access ttl refresh), t)"
  shows "\<exists>m user. jwks_new jl url (Body body) = Inr m \<and> user \<in> set (users s) \<and> username user = name \<and>
    hash_matches lib pwd (password_hash user) \<and>
    (\<forall>later. jwks_verify lib m later refresh = Inl TokenVerificationFailed) \<and>
    (\<forall>later. if unat later \<le> unat (saturating_add now (access_token_ttl_secs app)) + 60
       then map_sum id claim_sub (jwks_verify lib m later access) = Inr (uuid_show lib (user_id user))
       else jwks_verify lib m later access = Inl TokenVerificationFailed)"
proof -
  from fetch_published [OF assms(1-3,5,4)] obtain kid where f: "fetch_jwks jl url (Body body) = Inr [(kid, raw)]" ..
  let ?m = "\<lparr>cache = Some [(kid, raw)], manager_url = url\<rparr>"
  have new: "jwks_new jl url (Body body) = Inr ?m"
    using f by (simp add: jwks_new_def jwks_refresh_def)
  from login_tokens [OF assms(9)] obtain user where user: "user \<in> set (users s)" "username user = name"
      "hash_matches lib pwd (password_hash user)"
    and gen: "token_generate lib (uuid_show lib (user_id user)) Access (private_key_pem app) (access_token_ttl_secs app) now = Some access"
      "token_generate lib (uuid_show lib (user_id user)) Refresh (private_key_pem app) (refresh_token_ttl_secs app) now = Some refresh"
    by blast
  have kids: "jwt_kid lib access = Some None" "jwt_kid lib refresh = Some None"
    using gen assms(8) by (auto simp: token_generate_def)
  note verify = jwks_verify_generated [OF assms(7) _ _ _ extracted_length [OF assms(2)] assms(6), of _ _ _ _ _ ?m kid]
  show ?thesis
    using new user verify [OF gen(1) kids(1)] verify [OF gen(2) kids(2)]
    by (intro exI [of _ ?m] exI [of _ user]) (simp add: claims_for_def)
qed

lemma demo_kid: "jwt_kid demo_lib tk = Some None" by (simp add: demo_lib_def)

lemma demo_publishes:
  "jwks_handler (codec demo_jwks_lib) demo_app = Inr demo_published"
  "extract_ed25519_public_key (codec demo_jwks_lib) (public_key_pem demo_app) = Some (replicate 32 (CHR ''k''))"
  "b64_decode (codec demo_jwks_lib) (b64_encode (codec demo_jwks_lib) (replicate 32 (CHR ''k''))) = Some (replicate 32 (CHR ''k''))"
  "jwks_json demo_jwks_lib ''keys'' = Some demo_published" "url_parses demo_jwks_lib ''auth/jwks.json''"
  "der_of_raw demo_lib (replicate 32 (CHR ''k'')) = Some (replicate 32 (CHR ''k''))"
  by (simp_all add: jwks_handler_def extract_ed25519_public_key_def demo_jwks_lib_def demo_codec_def demo_published_def demo_lib_def)

end
