(* ===== verification/Gateway_Route.thy ===== *)
theory Gateway_Route
  imports OJ_Prelude "HOL-Library.Product_Lexorder"
begin

text \<open>
  The gateway's configuration and its routing table (\<open>gateway/src/config.rs\<close>, \<open>gateway/src/router.rs\<close>).
  A string is its list of bytes, so \<open>length\<close> is Rust's \<open>len\<close>.  The sources of the configuration and the
  parser of URIs are parameters.
\<close>

subsection \<open>Configuration\<close>

datatype field_error = InvalidField string string

datatype authentication_level = Optional | Required | NoAuth | BypassAndStrip

datatype match_type = Prefix | Exact

record rate_limit_config =
  per_sec :: u64
  burst :: u64

record route_config =
  route_path :: string
  route_auth :: authentication_level
  rate_limit :: rate_limit_config
  upstream :: string
  route_match :: match_type

record gateway_config =
  routes :: "route_config list"
  jwks_url :: string
  addr :: string
  upstream_timeout_secs :: u64
  max_connections :: nat
  drain_timeout_secs :: u64

definition field_check :: "bool \<Rightarrow> string \<Rightarrow> string \<Rightarrow> field_error list" where
  "field_check bad field message = (if bad then [InvalidField field message] else [])"

definition route_field :: "nat \<Rightarrow> string \<Rightarrow> string" where
  "route_field i name = ''routes['' @ show_nat i @ ''].'' @ name"

definition route_errors :: "nat \<Rightarrow> route_config \<Rightarrow> field_error list" where
  "route_errors i r =
     field_check (route_path r = []) (route_field i ''path'') ''must not be empty'' @
     field_check (upstream r = []) (route_field i ''upstream'') ''must not be empty'' @
     field_check (per_sec (rate_limit r) = 0) (route_field i ''rate_limit.per_sec'') ''must be > 0'' @
     field_check (burst (rate_limit r) = 0) (route_field i ''rate_limit.burst'') ''must be > 0''"

definition config_errors :: "gateway_config \<Rightarrow> field_error list" where
  "config_errors cfg =
     field_check (addr cfg = []) ''addr'' ''must not be empty'' @
     field_check (jwks_url cfg = []) ''jwks_url'' ''must not be empty'' @
     field_check (upstream_timeout_secs cfg = 0) ''upstream_timeout_secs'' ''must be > 0'' @
     field_check (max_connections cfg = 0) ''max_connections'' ''must be > 0'' @
     field_check (drain_timeout_secs cfg = 0) ''drain_timeout_secs'' ''must be > 0'' @
     concat (map (\<lambda>(i, r). route_errors i r) (enumerate 0 (routes cfg)))"

definition gateway_validate :: "gateway_config \<Rightarrow> field_error list + unit" where
  "gateway_validate cfg = (let errors = config_errors cfg in if errors = [] then Inr () else Inl errors)"

datatype gateway_config_error = ConfigError string | ValidationError "field_error list"

definition gateway_load :: "string + gateway_config \<Rightarrow> gateway_config_error + gateway_config" where
  "gateway_load sources =
     (case sources of
        Inl e \<Rightarrow> Inl (ConfigError e)
      | Inr cfg \<Rightarrow>
          (case gateway_validate cfg of
             Inl errors \<Rightarrow> Inl (ValidationError errors)
           | Inr _ \<Rightarrow> Inr cfg))"

lemma field_check_Nil [simp]: "field_check bad field message = [] \<longleftrightarrow> \<not> bad"
  by (simp add: field_check_def)

lemma route_errors_Nil:
  "route_errors i r = [] \<longleftrightarrow> route_path r \<noteq> [] \<and> upstream r \<noteq> [] \<and> per_sec (rate_limit r) \<noteq> 0 \<and> burst (rate_limit r) \<noteq> 0"
  by (simp add: route_errors_def)

lemma gateway_validate_Inr:
  "gateway_validate cfg = Inr u \<longleftrightarrow>
     addr cfg \<noteq> [] \<and> jwks_url cfg \<noteq> [] \<and> upstream_timeout_secs cfg \<noteq> 0 \<and> max_connections cfg \<noteq> 0 \<and>
     drain_timeout_secs cfg \<noteq> 0 \<and> (\<forall>i < length (routes cfg). route_errors i (routes cfg ! i) = [])"
proof -
  have "(\<forall>x \<in> set (enumerate 0 (routes cfg)). (\<lambda>(i, r). route_errors i r) x = []) \<longleftrightarrow>
      (\<forall>i < length (routes cfg). route_errors i (routes cfg ! i) = [])"
  proof -
    have "set (enumerate 0 (routes cfg)) = (\<lambda>i. (i, routes cfg ! i)) ` {..<length (routes cfg)}"
      by (auto simp: in_set_enumerate_eq)
    then show ?thesis by auto
  qed
  then show ?thesis by (simp add: gateway_validate_def Let_def config_errors_def)
qed

subsection \<open>Routing\<close>

definition is_prefix_match :: "string \<Rightarrow> string \<Rightarrow> bool" where
  "is_prefix_match prefix path \<longleftrightarrow>
     (if take (length prefix) path \<noteq> prefix then False
      else length path = length prefix \<or> path ! length prefix = CHR ''/'')"

definition route_matches :: "string \<Rightarrow> route_config \<Rightarrow> bool" where
  "route_matches request_path r \<longleftrightarrow>
     (case route_match r of
        Exact \<Rightarrow> request_path = route_path r
      | Prefix \<Rightarrow> is_prefix_match (route_path r) request_path)"

definition route_key :: "route_config \<Rightarrow> nat \<times> bool" where
  "route_key r = (length (route_path r), route_match r = Exact)"

definition match_step ::
  "string \<Rightarrow> ((nat \<times> bool) \<times> route_config) option \<Rightarrow> route_config \<Rightarrow> ((nat \<times> bool) \<times> route_config) option"
where
  "match_step request_path best r =
     (if \<not> route_matches request_path r then best
      else (let key = route_key r in
            case best of
              None \<Rightarrow> Some (key, r)
            | Some (best_key, prev) \<Rightarrow> if key > best_key then Some (key, r) else Some (best_key, prev)))"

definition match_route :: "route_config list \<Rightarrow> string \<Rightarrow> route_config option" where
  "match_route rs request_path = map_option snd (foldl (match_step request_path) None rs)"

subsection \<open>The upstream URI\<close>

definition trim_end_slashes :: "string \<Rightarrow> string" where
  "trim_end_slashes s = rev (dropWhile (\<lambda>c. c = CHR ''/'') (rev s))"

text \<open>The parser of the HTTP library: a URI and, if it has one, its authority; or the error's text.\<close>

record 'uri uri_lib =
  uri_of :: "string \<Rightarrow> string + 'uri"
  uri_authority :: "'uri \<Rightarrow> string option"

definition upstream_string :: "string \<Rightarrow> string \<Rightarrow> string option \<Rightarrow> string" where
  "upstream_string up path query =
     (let uri = trim_end_slashes up @ path in
      case query of Some q \<Rightarrow> uri @ ''?'' @ q | None \<Rightarrow> uri)"

definition build_upstream_uri :: "'uri uri_lib \<Rightarrow> string \<Rightarrow> string \<Rightarrow> string option \<Rightarrow> string + 'uri" where
  "build_upstream_uri ul up path query = uri_of ul (upstream_string up path query)"

lemma trim_end_slashes_slash [simp]: "trim_end_slashes (s @ ''/'') = trim_end_slashes s"
  by (simp add: trim_end_slashes_def)

lemma trim_end_slashes_last: "trim_end_slashes s \<noteq> [] \<Longrightarrow> last (trim_end_slashes s) \<noteq> CHR ''/''"
  unfolding trim_end_slashes_def by (metis (full_types) hd_dropWhile last_rev rev_is_Nil_conv)

subsection \<open>What the routing fold computes\<close>

lemma is_prefix_match_iff: "is_prefix_match prefix path \<longleftrightarrow> path = prefix \<or> (\<exists>rest. path = prefix @ ''/'' @ rest)"
proof
  assume m: "is_prefix_match prefix path"
  then have pre: "path = prefix @ drop (length prefix) path"
    unfolding is_prefix_match_def by (metis append_take_drop_id)
  show "path = prefix \<or> (\<exists>rest. path = prefix @ ''/'' @ rest)"
  proof (cases "drop (length prefix) path")
    case Nil
    with pre show ?thesis by simp
  next
    case (Cons c cs)
    with pre have path: "path = prefix @ c # cs" by simp
    with m have "c = CHR ''/''" by (simp add: is_prefix_match_def)
    with path show ?thesis by simp
  qed
qed (auto simp: is_prefix_match_def)

text \<open>The invariant of the fold: the kept route beats every earlier match, and no later one beats it.\<close>

definition best_so_far ::
  "string \<Rightarrow> route_config list \<Rightarrow> ((nat \<times> bool) \<times> route_config) option \<Rightarrow> bool" where
  "best_so_far p rs best \<longleftrightarrow>
     (case best of
        None \<Rightarrow> \<forall>r \<in> set rs. \<not> route_matches p r
      | Some (key, r) \<Rightarrow>
          key = route_key r \<and> route_matches p r \<and>
          (\<exists>before after. rs = before @ r # after \<and>
             (\<forall>q \<in> set before. route_matches p q \<longrightarrow> route_key q < key) \<and>
             (\<forall>q \<in> set after. route_matches p q \<longrightarrow> route_key q \<le> key)))"

lemma best_so_far_last:
  "route_matches p r \<Longrightarrow> \<forall>q \<in> set rs. route_matches p q \<longrightarrow> route_key q < route_key r \<Longrightarrow>
     best_so_far p (rs @ [r]) (Some (route_key r, r))"
  unfolding best_so_far_def by (simp, rule exI [of _ rs], rule exI [of _ "[]"]) simp

lemma best_so_far_step: "best_so_far p rs best \<Longrightarrow> best_so_far p (rs @ [r]) (match_step p best r)"
proof (cases best)
  case None
  assume "best_so_far p rs best"
  with None show ?thesis
    by (auto simp: match_step_def Let_def best_so_far_def [of p rs] intro: best_so_far_last)
       (auto simp: best_so_far_def)
next
  case (Some kr)
  obtain key q where kr: "kr = (key, q)" by (cases kr)
  assume "best_so_far p rs best"
  with Some kr obtain before after where q: "key = route_key q" "route_matches p q"
    and rs: "rs = before @ q # after" "\<forall>q \<in> set before. route_matches p q \<longrightarrow> route_key q < key"
      "\<forall>q \<in> set after. route_matches p q \<longrightarrow> route_key q \<le> key"
    by (auto simp: best_so_far_def)
  show ?thesis
  proof (cases "route_matches p r \<and> route_key r > key")
    case True
    have "\<forall>q' \<in> set rs. route_matches p q' \<longrightarrow> route_key q' < route_key r"
      using rs q True by (auto intro: order_less_trans order_le_less_trans)
    with True Some kr show ?thesis
      by (auto simp: match_step_def Let_def intro: best_so_far_last)
  next
    case False
    then have "\<forall>q' \<in> set (after @ [r]). route_matches p q' \<longrightarrow> route_key q' \<le> key"
      using rs by auto
    moreover have "match_step p best r = Some (key, q)"
      using False Some kr by (auto simp: match_step_def Let_def)
    moreover have "rs @ [r] = before @ q # (after @ [r])" using rs by simp
    ultimately show ?thesis using q rs(2)
      by (simp add: best_so_far_def) (rule exI [of _ before], rule exI [of _ "after @ [r]"], auto)
  qed
qed

lemma best_so_far_fold: "best_so_far p rs (foldl (match_step p) None rs)"
  by (induction rs rule: rev_induct) (simp_all add: best_so_far_step, simp add: best_so_far_def)

lemma match_route_None: "match_route rs p = None \<longleftrightarrow> (\<forall>r \<in> set rs. \<not> route_matches p r)"
  using best_so_far_fold [of p rs]
  by (auto simp: match_route_def best_so_far_def split: option.splits)

lemma match_route_Some:
  "match_route rs p = Some r \<Longrightarrow>
     route_matches p r \<and> (\<exists>before after. rs = before @ r # after \<and>
       (\<forall>q \<in> set before. route_matches p q \<longrightarrow> route_key q < route_key r) \<and>
       (\<forall>q \<in> set after. route_matches p q \<longrightarrow> route_key q \<le> route_key r))"
  using best_so_far_fold [of p rs]
  by (clarsimp simp: match_route_def best_so_far_def) blast

lemma match_route_in: "match_route rs p = Some r \<Longrightarrow> r \<in> set rs"
  by (auto dest!: match_route_Some)

text \<open>Matches of one path with keys of one length have the same path.\<close>

lemma match_is_prefix: "route_matches p q \<Longrightarrow> route_path q = take (length (route_path q)) p"
  by (auto simp: route_matches_def is_prefix_match_iff split: match_type.splits)

lemma matches_same_length:
  "route_matches p q \<Longrightarrow> route_matches p r \<Longrightarrow> length (route_path q) = length (route_path r) \<Longrightarrow> route_path q = route_path r"
  by (metis match_is_prefix)

lemma exact_match_longest:
  assumes "route_match r = Exact" "route_path r = p" "route_matches p q"
  shows "route_key q \<le> route_key r \<and> (route_key q = route_key r \<longrightarrow> route_match q = Exact \<and> route_path q = p)"
  using assms
  by (auto simp: route_key_def less_eq_prod_def less_prod_def route_matches_def is_prefix_match_iff split: match_type.splits)

subsection \<open>Properties\<close>

definition demo_rate :: rate_limit_config where
  "demo_rate = \<lparr>per_sec = 10, burst = 60\<rparr>"

definition demo_route :: "string \<Rightarrow> authentication_level \<Rightarrow> match_type \<Rightarrow> route_config" where
  "demo_route p a m = \<lparr>route_path = p, route_auth = a, rate_limit = demo_rate, upstream = ''localhost:9000'', route_match = m\<rparr>"

text \<open>C17. The fold of the router finds the best match: no route exactly when none matches; otherwise a matching
  route whose path is the longest of all matching paths and, among those of that length, exact if any is,
  and the first of those with the same key.\<close>
theorem match_route_best:
  "(match_route rs p = None \<longleftrightarrow> (\<forall>r \<in> set rs. \<not> route_matches p r)) \<and>
   (\<forall>r. match_route rs p = Some r \<longrightarrow>
     route_matches p r \<and> r \<in> set rs \<and>
     (\<forall>q \<in> set rs. route_matches p q \<longrightarrow>
        length (route_path q) < length (route_path r) \<or>
        (route_path q = route_path r \<and> (route_match q = Exact \<longrightarrow> route_match r = Exact))) \<and>
     r = hd (filter (\<lambda>q. route_matches p q \<and> route_key q = route_key r) rs))"
proof (intro conjI allI impI)
  show "match_route rs p = None \<longleftrightarrow> (\<forall>r \<in> set rs. \<not> route_matches p r)" by (rule match_route_None)
next
  fix r assume r: "match_route rs p = Some r"
  from match_route_Some [OF r] obtain before after where m: "route_matches p r" and rs: "rs = before @ r # after"
    and before: "\<forall>q \<in> set before. route_matches p q \<longrightarrow> route_key q < route_key r"
    and after: "\<forall>q \<in> set after. route_matches p q \<longrightarrow> route_key q \<le> route_key r" by blast
  show "route_matches p r" "r \<in> set rs" using m rs by simp_all
  show "\<forall>q \<in> set rs. route_matches p q \<longrightarrow> length (route_path q) < length (route_path r) \<or>
      (route_path q = route_path r \<and> (route_match q = Exact \<longrightarrow> route_match r = Exact))"
  proof (intro ballI impI)
    fix q assume q: "q \<in> set rs" "route_matches p q"
    then have "route_key q \<le> route_key r" using rs before after by (auto intro: less_imp_le)
    then show "length (route_path q) < length (route_path r) \<or>
        (route_path q = route_path r \<and> (route_match q = Exact \<longrightarrow> route_match r = Exact))"
      using matches_same_length [OF q(2) m] by (auto simp: route_key_def less_eq_prod_def less_le)
  qed
  have "filter (\<lambda>q. route_matches p q \<and> route_key q = route_key r) before = []"
    using before by (auto simp: filter_empty_conv)
  then show "r = hd (filter (\<lambda>q. route_matches p q \<and> route_key q = route_key r) rs)" using m rs by simp
qed

theorem match_route_best_witness:
  "match_route [demo_route ''/api'' NoAuth Prefix, demo_route ''/api/x'' Required Exact, demo_route ''/api/x'' NoAuth Prefix]
     ''/api/x'' = Some (demo_route ''/api/x'' Required Exact)"
proof -
  let ?rs = "[demo_route ''/api'' NoAuth Prefix, demo_route ''/api/x'' Required Exact, demo_route ''/api/x'' NoAuth Prefix]"
  have m: "route_matches ''/api/x'' (demo_route ''/api/x'' Required Exact)"
    by (simp add: route_matches_def demo_route_def)
  then have "match_route ?rs ''/api/x'' \<noteq> None" using match_route_best [of ?rs "''/api/x''"] by simp
  then obtain r where r: "match_route ?rs ''/api/x'' = Some r" by blast
  have "r \<in> set ?rs \<and> (\<forall>q \<in> set ?rs. route_matches ''/api/x'' q \<longrightarrow> length (route_path q) < length (route_path r) \<or>
      (route_path q = route_path r \<and> (route_match q = Exact \<longrightarrow> route_match r = Exact)))"
    using match_route_best [of ?rs "''/api/x''"] r by blast
  with m r show ?thesis by (auto simp: demo_route_def)
qed

text \<open>The boundary test makes the catch-all prefix useless: a prefix that ends in a slash matches its own
  path and paths that go on with another slash, nothing else, so the route \<open>/\<close> of the example configuration
  answers only \<open>/\<close> itself.\<close>
theorem slash_prefix_matches_only_itself:
  "(is_prefix_match (p @ ''/'') path \<longleftrightarrow> path = p @ ''/'' \<or> (\<exists>rest. path = p @ ''//'' @ rest)) \<and>
   match_route [demo_route ''/'' NoAuth Prefix] ''/api/problems'' = None \<and>
   match_route [demo_route ''/'' NoAuth Prefix] ''/'' = Some (demo_route ''/'' NoAuth Prefix)"
  by (auto simp: is_prefix_match_iff match_route_def match_step_def route_matches_def demo_route_def Let_def route_key_def)

lemma route_field_eq [simp]: "route_field i a = route_field j b \<longleftrightarrow> i = j \<and> a = b"
proof
  assume eq: "route_field i a = route_field j b"
  have number: "takeWhile is_digit (drop 7 (route_field k c)) = show_nat k" for k c
    using show_nat_digits [of k] by (simp add: route_field_def takeWhile_append is_digit_def)
  from number [of i a] number [of j b] eq have "i = j" by simp
  with eq show "i = j \<and> a = b" by (simp add: route_field_def)
qed simp

text \<open>The configuration is accepted exactly when every required field is non-empty or positive, and every
  route has a path, an upstream and positive limits; otherwise the faults are reported all at once, and a
  limit that is not positive is reported for exactly the routes that have one.\<close>
theorem validate_complete:
  "gateway_load (Inr cfg) =
     (if addr cfg \<noteq> [] \<and> jwks_url cfg \<noteq> [] \<and> 0 < upstream_timeout_secs cfg \<and> 0 < max_connections cfg \<and>
         0 < drain_timeout_secs cfg \<and>
         list_all (\<lambda>r. route_path r \<noteq> [] \<and> upstream r \<noteq> [] \<and> 0 < per_sec (rate_limit r) \<and> 0 < burst (rate_limit r)) (routes cfg)
      then Inr cfg else Inl (ValidationError (config_errors cfg))) \<and>
   (InvalidField (''routes['' @ show_nat i @ ''].rate_limit.per_sec'') ''must be > 0'' \<in> set (config_errors cfg) \<longleftrightarrow>
      i < length (routes cfg) \<and> per_sec (rate_limit (routes cfg ! i)) = 0)"
proof
  have "gateway_load (Inr cfg) = (if gateway_validate cfg = Inr () then Inr cfg else Inl (ValidationError (config_errors cfg)))"
    by (simp add: gateway_load_def gateway_validate_def Let_def)
  then show "gateway_load (Inr cfg) =
     (if addr cfg \<noteq> [] \<and> jwks_url cfg \<noteq> [] \<and> 0 < upstream_timeout_secs cfg \<and> 0 < max_connections cfg \<and>
         0 < drain_timeout_secs cfg \<and>
         list_all (\<lambda>r. route_path r \<noteq> [] \<and> upstream r \<noteq> [] \<and> 0 < per_sec (rate_limit r) \<and> 0 < burst (rate_limit r)) (routes cfg)
      then Inr cfg else Inl (ValidationError (config_errors cfg)))"
    by (simp add: gateway_validate_Inr route_errors_Nil list_all_length word_gt_0)
  have field: "''routes['' @ show_nat i @ ''].rate_limit.per_sec'' = route_field i ''rate_limit.per_sec''"
    by (simp add: route_field_def)
  have "InvalidField (route_field i ''rate_limit.per_sec'') ''must be > 0'' \<in> set (route_errors j r) \<longleftrightarrow>
      j = i \<and> per_sec (rate_limit r) = 0" for j r
    by (auto simp: route_errors_def field_check_def)
  then have "InvalidField (route_field i ''rate_limit.per_sec'') ''must be > 0'' \<in> set (config_errors cfg) \<longleftrightarrow>
      (\<exists>r. (i, r) \<in> set (enumerate 0 (routes cfg)) \<and> per_sec (rate_limit r) = 0)"
    by (auto simp: config_errors_def field_check_def) (auto simp: route_field_def)
  then show "InvalidField (''routes['' @ show_nat i @ ''].rate_limit.per_sec'') ''must be > 0'' \<in> set (config_errors cfg) \<longleftrightarrow>
      i < length (routes cfg) \<and> per_sec (rate_limit (routes cfg ! i)) = 0"
    unfolding field by (auto simp: in_set_enumerate_eq)
qed

end
