(* ===== verification/Gateway_Limiter.thy ===== *)
theory Gateway_Limiter
  imports Gateway_Route Http_Headers
begin

text \<open>
  The rate limiter of the gateway (\<open>gateway/src/rate_limiter/mod.rs\<close>, \<open>memory.rs\<close>).  The token bucket of
  the \<open>governor\<close> crate is a parameter.  The limiters the code shares by \<open>Arc\<close> live in a list of objects;
  the cache maps a key to the index of its object.  The cache's eviction of idle entries is an input of
  every call: \<open>idle key\<close> says that the entry of \<open>key\<close> has expired when it is asked for.
\<close>

subsection \<open>The client of a request\<close>

definition is_blank :: "char \<Rightarrow> bool" where
  "is_blank c \<longleftrightarrow> c = CHR '' '' \<or> (of_char c :: nat) = 9"

definition trim_blanks :: "string \<Rightarrow> string" where
  "trim_blanks s = rev (dropWhile is_blank (rev (dropWhile is_blank s)))"

definition client_ip :: "headers \<Rightarrow> string option \<Rightarrow> string option" where
  "client_ip h peer_addr =
     (case Option.bind (header_get h ''x-forwarded-for'') to_str of
        None \<Rightarrow> peer_addr
      | Some val \<Rightarrow>
          (let ip = trim_blanks (takeWhile (\<lambda>c. c \<noteq> CHR '','') val) in
           if ip \<noteq> [] then Some ip else peer_addr))"

definition limit_key :: "route_config \<Rightarrow> string \<Rightarrow> string" where
  "limit_key r ip = route_path r @ '':'' @ ip"

subsection \<open>The limiter in memory\<close>

record 'l governor =
  gov_new :: "nat \<Rightarrow> nat \<Rightarrow> 'l"
  gov_check :: "'l \<Rightarrow> nat \<Rightarrow> bool \<times> 'l"

record 'l limiter_state =
  limiter_objects :: "'l list"
  limiters :: "string \<rightharpoonup> nat"

definition no_limiters :: "'l limiter_state" where
  "no_limiters = \<lparr>limiter_objects = [], limiters = Map.empty\<rparr>"

text \<open>\<open>NonZeroU32::new(n as u32).expect(..)\<close> of both parameters; \<open>None\<close> is the panic.\<close>

definition fresh_limiter :: "'l governor \<Rightarrow> u64 \<Rightarrow> u64 \<Rightarrow> 'l option" where
  "fresh_limiter gov rate bucket =
     (let qps = (ucast rate :: u32); burst_nz = (ucast bucket :: u32) in
      if qps = 0 then None
      else if burst_nz = 0 then None
      else Some (gov_new gov (unat qps) (unat burst_nz)))"

text \<open>The three steps of a check: look the key up, create its limiter if there is none, charge it.\<close>

definition limiter_get :: "(string \<Rightarrow> bool) \<Rightarrow> string \<Rightarrow> 'l limiter_state \<Rightarrow> nat option" where
  "limiter_get idle key s = (if idle key then None else limiters s key)"

definition limiter_create ::
  "'l governor \<Rightarrow> string \<Rightarrow> u64 \<Rightarrow> u64 \<Rightarrow> 'l limiter_state \<Rightarrow> nat option \<times> 'l limiter_state" where
  "limiter_create gov key rate bucket s =
     (case fresh_limiter gov rate bucket of
        None \<Rightarrow> (None, s)
      | Some l \<Rightarrow>
          (let i = length (limiter_objects s) in
           (Some i, s\<lparr>limiter_objects := limiter_objects s @ [l], limiters := (limiters s)(key \<mapsto> i)\<rparr>)))"

definition limiter_charge :: "'l governor \<Rightarrow> nat \<Rightarrow> nat \<Rightarrow> 'l limiter_state \<Rightarrow> bool \<times> 'l limiter_state" where
  "limiter_charge gov now i s =
     (let (ok, l) = gov_check gov (limiter_objects s ! i) now in (ok, s\<lparr>limiter_objects := (limiter_objects s)[i := l]\<rparr>))"

text \<open>The check of a request while no other check is made; \<open>limiter_step\<close> below interleaves the three steps.\<close>

type_synonym clock = "(string \<Rightarrow> bool) \<times> nat"

definition limiter_check ::
  "'l governor \<Rightarrow> clock \<Rightarrow> 'l limiter_state \<Rightarrow> string \<Rightarrow> u64 \<Rightarrow> u64 \<Rightarrow> bool option \<times> 'l limiter_state" where
  "limiter_check gov clock s key rate bucket =
     (let (idle, now) = clock;
          (limiter, s1) = (case limiter_get idle key s of
                             Some i \<Rightarrow> (Some i, s)
                           | None \<Rightarrow> limiter_create gov key rate bucket s) in
      case limiter of
        None \<Rightarrow> (None, s1)
      | Some i \<Rightarrow> (let (allowed, s2) = limiter_charge gov now i s1 in (Some allowed, s2)))"

subsection \<open>The contract of a rate limiter\<close>

text \<open>
  What a rate limiter does for one key is a machine of its own (\<open>spec\<close>); \<open>run_checks\<close> is a sequence of
  calls with the keys and decisions in order.
\<close>

record check_call =
  call_clock :: clock
  call_key :: string
  call_per_sec :: u64
  call_burst :: u64

fun run_checks ::
  "(clock \<Rightarrow> 's \<Rightarrow> string \<Rightarrow> u64 \<Rightarrow> u64 \<Rightarrow> bool option \<times> 's) \<Rightarrow> 's \<Rightarrow> check_call list \<Rightarrow> (string \<times> bool option) list" where
  "run_checks check s [] = []"
| "run_checks check s (c # cs) =
     (let (d, s1) = check (call_clock c) s (call_key c) (call_per_sec c) (call_burst c) in
      (call_key c, d) # run_checks check s1 cs)"

fun run_spec ::
  "(bool \<Rightarrow> nat \<Rightarrow> u64 \<Rightarrow> u64 \<Rightarrow> 'l option \<Rightarrow> bool option \<times> 'l option) \<Rightarrow> string \<Rightarrow> 'l option \<Rightarrow> check_call list \<Rightarrow> bool option list"
where
  "run_spec spec k l [] = []"
| "run_spec spec k l (c # cs) =
     (let (d, l1) = spec (fst (call_clock c) k) (snd (call_clock c)) (call_per_sec c) (call_burst c) l in
      d # run_spec spec k l1 cs)"

locale rate_limiter =
  fixes check :: "clock \<Rightarrow> 's \<Rightarrow> string \<Rightarrow> u64 \<Rightarrow> u64 \<Rightarrow> bool option \<times> 's"
    and spec :: "bool \<Rightarrow> nat \<Rightarrow> u64 \<Rightarrow> u64 \<Rightarrow> 'l option \<Rightarrow> bool option \<times> 'l option"
    and view :: "'s \<Rightarrow> string \<Rightarrow> 'l option"
    and inv :: "'s \<Rightarrow> bool"
  assumes inv_check: "inv s \<Longrightarrow> inv (snd (check (idle, now) s k p b))"
    and refines: "inv s \<Longrightarrow> check (idle, now) s k p b = (d, t) \<Longrightarrow> spec (idle k) now p b (view s k) = (d, view t k)"
    and isolated: "inv s \<Longrightarrow> k' \<noteq> k \<Longrightarrow> view (snd (check (idle, now) s k p b)) k' = view s k'"
begin

lemma refines_run:
  "inv s \<Longrightarrow> map snd (filter (\<lambda>x. fst x = k) (run_checks check s cs)) =
     run_spec spec k (view s k) (filter (\<lambda>c. call_key c = k) cs)"
proof (induction cs arbitrary: s)
  case Nil
  then show ?case by simp
next
  case (Cons c cs)
  obtain idle now where clock: "call_clock c = (idle, now)" by fastforce
  obtain d t where t: "check (idle, now) s (call_key c) (call_per_sec c) (call_burst c) = (d, t)" by fastforce
  from inv_check [OF Cons.prems, of idle now "call_key c" "call_per_sec c" "call_burst c"] t have "inv t" by simp
  note IH = Cons.IH [OF this]
  show ?case
  proof (cases "call_key c = k")
    case True
    with refines [OF Cons.prems t] IH t clock show ?thesis by simp
  next
    case False
    then have "view t k = view s k"
      using isolated [OF Cons.prems, of k "call_key c" idle now "call_per_sec c" "call_burst c"] t by simp
    with False IH t clock show ?thesis by simp
  qed
qed

end

subsection \<open>The limiter in memory keeps the contract\<close>

text \<open>One key on its own: a governor made by the first request and by the first after an eviction.\<close>

definition governor_spec ::
  "'l governor \<Rightarrow> bool \<Rightarrow> nat \<Rightarrow> u64 \<Rightarrow> u64 \<Rightarrow> 'l option \<Rightarrow> bool option \<times> 'l option" where
  "governor_spec gov idle now rate bucket l =
     (case (if idle then None else l) of
        Some l' \<Rightarrow> (let (ok, l'') = gov_check gov l' now in (Some ok, Some l''))
      | None \<Rightarrow>
          (case fresh_limiter gov rate bucket of
             None \<Rightarrow> (None, l)
           | Some l' \<Rightarrow> (let (ok, l'') = gov_check gov l' now in (Some ok, Some l''))))"

definition limiter_view :: "'l limiter_state \<Rightarrow> string \<Rightarrow> 'l option" where
  "limiter_view s k = map_option (\<lambda>i. limiter_objects s ! i) (limiters s k)"

definition limiters_wf :: "'l limiter_state \<Rightarrow> bool" where
  "limiters_wf s \<longleftrightarrow>
     (\<forall>k i. limiters s k = Some i \<longrightarrow> i < length (limiter_objects s)) \<and>
     (\<forall>k k' i. limiters s k = Some i \<longrightarrow> limiters s k' = Some i \<longrightarrow> k = k')"

lemma limiter_check_cases:
  "limiter_check gov (idle, now) s k p b =
     (case (if idle k then None else limiters s k) of
        Some i \<Rightarrow>
          (let (ok, l) = gov_check gov (limiter_objects s ! i) now in
           (Some ok, s\<lparr>limiter_objects := (limiter_objects s)[i := l]\<rparr>))
      | None \<Rightarrow>
          (case fresh_limiter gov p b of
             None \<Rightarrow> (None, s)
           | Some l0 \<Rightarrow>
               (let (ok, l) = gov_check gov l0 now in
                (Some ok, s\<lparr>limiter_objects := limiter_objects s @ [l],
                            limiters := (limiters s)(k \<mapsto> length (limiter_objects s))\<rparr>))))"
  by (simp add: limiter_check_def limiter_get_def limiter_create_def limiter_charge_def Let_def split: option.splits prod.splits)

lemma limiters_wf_check: "limiters_wf s \<Longrightarrow> limiters_wf (snd (limiter_check gov (idle, now) s k p b))"
  by (auto simp: limiters_wf_def limiter_check_cases less_Suc_eq split: option.splits if_splits prod.splits)

lemma limiter_check_refines:
  "limiters_wf s \<Longrightarrow> limiter_check gov (idle, now) s k p b = (d, t) \<Longrightarrow>
     governor_spec gov (idle k) now p b (limiter_view s k) = (d, limiter_view t k)"
  by (auto simp: limiters_wf_def limiter_check_cases governor_spec_def limiter_view_def
      split: option.splits if_splits prod.splits)

lemma limiter_check_isolated:
  assumes "limiters_wf s" and "k' \<noteq> k"
  shows "limiter_view (snd (limiter_check gov (idle, now) s k p b)) k' = limiter_view s k'"
proof -
  have "limiters s k' = Some j \<Longrightarrow> j < length (limiter_objects s) \<and> (limiters s k = Some i \<longrightarrow> i \<noteq> j)" for i j
    using assms unfolding limiters_wf_def by blast
  then show ?thesis
    using assms(2)
    by (cases "limiters s k'") (auto simp: limiter_check_cases limiter_view_def nth_append split: option.splits if_splits prod.splits)
qed

interpretation memory: rate_limiter "limiter_check gov" "governor_spec gov" limiter_view limiters_wf
  for gov :: "'l governor"
  by unfold_locales (auto intro: limiters_wf_check limiter_check_refines limiter_check_isolated)

lemma no_limiters_facts [simp]: "limiters_wf no_limiters" "limiter_view no_limiters k = None"
  by (simp_all add: limiters_wf_def no_limiters_def limiter_view_def)

subsection \<open>Checks of concurrent requests\<close>

text \<open>
  The gateway serves its connections on several threads, and the look-up, the insertion and the charge are three accesses to
  shared memory: checks of different requests can interleave between them.  A check is after its look-up
  about to create a limiter or about to charge one.  \<open>made_for\<close> and \<open>charges\<close> record for what every
  object was made and every charge with its key, object, time and decision.
\<close>

datatype check_point = ToCreate string u64 u64 | ToCharge string nat

record 'l limiter_run =
  shared :: "'l limiter_state"
  checks_at :: "nat \<rightharpoonup> check_point"
  made_for :: "(string \<times> u64 \<times> u64) list"
  charges :: "(string \<times> nat \<times> nat \<times> bool) list"

definition limiter_run_new :: "'l limiter_run" where
  "limiter_run_new = \<lparr>shared = no_limiters, checks_at = Map.empty, made_for = [], charges = []\<rparr>"

definition look_up :: "nat \<Rightarrow> (string \<Rightarrow> bool) \<Rightarrow> string \<Rightarrow> u64 \<Rightarrow> u64 \<Rightarrow> 'l limiter_run \<Rightarrow> 'l limiter_run" where
  "look_up c idle key rate bucket s =
     s\<lparr>checks_at := (checks_at s)(c \<mapsto> (case limiter_get idle key (shared s) of Some i \<Rightarrow> ToCharge key i | None \<Rightarrow> ToCreate key rate bucket))\<rparr>"

text \<open>A creation that panics ends its request.\<close>

definition insert_new :: "'l governor \<Rightarrow> nat \<Rightarrow> string \<Rightarrow> u64 \<Rightarrow> u64 \<Rightarrow> 'l limiter_run \<Rightarrow> 'l limiter_run" where
  "insert_new gov c key rate bucket s =
     (case limiter_create gov key rate bucket (shared s) of
        (None, t) \<Rightarrow> s\<lparr>shared := t, checks_at := (checks_at s)(c := None)\<rparr>
      | (Some i, t) \<Rightarrow>
          s\<lparr>shared := t, checks_at := (checks_at s)(c \<mapsto> ToCharge key i), made_for := made_for s @ [(key, rate, bucket)]\<rparr>)"

definition charge :: "'l governor \<Rightarrow> nat \<Rightarrow> nat \<Rightarrow> string \<Rightarrow> nat \<Rightarrow> 'l limiter_run \<Rightarrow> 'l limiter_run" where
  "charge gov now c key i s =
     (case limiter_charge gov now i (shared s) of
        (ok, t) \<Rightarrow> s\<lparr>shared := t, checks_at := (checks_at s)(c := None), charges := charges s @ [(key, i, now, ok)]\<rparr>)"

inductive limiter_step :: "'l governor \<Rightarrow> 'l limiter_run \<Rightarrow> 'l limiter_run \<Rightarrow> bool" for gov where
  step_look_up: "checks_at s c = None \<Longrightarrow> limiter_step gov s (look_up c idle key rate bucket s)"
| step_insert: "checks_at s c = Some (ToCreate key rate bucket) \<Longrightarrow> limiter_step gov s (insert_new gov c key rate bucket s)"
| step_charge: "checks_at s c = Some (ToCharge key i) \<Longrightarrow> limiter_step gov s (charge gov now c key i s)"

text \<open>A bucket on its own: its state and its decisions after a list of charges at given times.\<close>

fun bucket_state :: "'l governor \<Rightarrow> 'l \<Rightarrow> nat list \<Rightarrow> 'l" where
  "bucket_state gov l [] = l"
| "bucket_state gov l (now # ts) = bucket_state gov (snd (gov_check gov l now)) ts"

fun bucket_decisions :: "'l governor \<Rightarrow> 'l \<Rightarrow> nat list \<Rightarrow> bool list" where
  "bucket_decisions gov l [] = []"
| "bucket_decisions gov l (now # ts) = fst (gov_check gov l now) # bucket_decisions gov (snd (gov_check gov l now)) ts"

lemma bucket_snoc:
  "bucket_state gov l (ts @ [now]) = snd (gov_check gov (bucket_state gov l ts) now)"
  "bucket_decisions gov l (ts @ [now]) = bucket_decisions gov l ts @ [fst (gov_check gov (bucket_state gov l ts) now)]"
  by (induction ts arbitrary: l) simp_all

definition charges_on :: "nat \<Rightarrow> 'l limiter_run \<Rightarrow> (string \<times> nat \<times> nat \<times> bool) list" where
  "charges_on i s = filter (\<lambda>(k, j, _). j = i) (charges s)"

definition charge_times :: "nat \<Rightarrow> 'l limiter_run \<Rightarrow> nat list" where
  "charge_times i s = map (\<lambda>(k, j, now, ok). now) (charges_on i s)"

definition charge_decisions :: "nat \<Rightarrow> 'l limiter_run \<Rightarrow> bool list" where
  "charge_decisions i s = map (\<lambda>(k, j, now, ok). ok) (charges_on i s)"

text \<open>Object \<open>i\<close> was made for \<open>key\<close>.\<close>

definition owned :: "'l limiter_run \<Rightarrow> string \<Rightarrow> nat \<Rightarrow> bool" where
  "owned s key i \<longleftrightarrow> i < length (made_for s) \<and> fst (made_for s ! i) = key"

definition bucket_kept :: "'l governor \<Rightarrow> 'l limiter_run \<Rightarrow> nat \<Rightarrow> bool" where
  "bucket_kept gov s i \<longleftrightarrow>
     (\<exists>l. fresh_limiter gov (fst (snd (made_for s ! i))) (snd (snd (made_for s ! i))) = Some l \<and>
          limiter_objects (shared s) ! i = bucket_state gov l (charge_times i s) \<and>
          charge_decisions i s = bucket_decisions gov l (charge_times i s))"

definition limiter_inv :: "'l governor \<Rightarrow> 'l limiter_run \<Rightarrow> bool" where
  "limiter_inv gov s \<longleftrightarrow>
     length (limiter_objects (shared s)) = length (made_for s) \<and>
     (\<forall>k i. limiters (shared s) k = Some i \<longrightarrow> owned s k i) \<and>
     (\<forall>c k i. checks_at s c = Some (ToCharge k i) \<longrightarrow> owned s k i) \<and>
     (\<forall>(k, i, _) \<in> set (charges s). owned s k i) \<and>
     (\<forall>i < length (made_for s). bucket_kept gov s i)"

lemma limiter_invD:
  assumes "limiter_inv gov s"
  shows "length (limiter_objects (shared s)) = length (made_for s)"
    and "limiters (shared s) k = Some i \<Longrightarrow> owned s k i"
    and "checks_at s c = Some (ToCharge k i) \<Longrightarrow> owned s k i"
    and "(k, i, x) \<in> set (charges s) \<Longrightarrow> owned s k i"
    and "i < length (made_for s) \<Longrightarrow> bucket_kept gov s i"
  using assms unfolding limiter_inv_def by blast+

lemma limiter_invI:
  assumes "length (limiter_objects (shared s)) = length (made_for s)"
    and "\<And>k i. limiters (shared s) k = Some i \<Longrightarrow> owned s k i"
    and "\<And>c k i. checks_at s c = Some (ToCharge k i) \<Longrightarrow> owned s k i"
    and "\<And>k i x. (k, i, x) \<in> set (charges s) \<Longrightarrow> owned s k i"
    and "\<And>i. i < length (made_for s) \<Longrightarrow> bucket_kept gov s i"
  shows "limiter_inv gov s"
  using assms unfolding limiter_inv_def by blast

lemma limiter_inv_look_up:
  assumes "limiter_inv gov s"
  shows "limiter_inv gov (look_up c idle key rate bucket s)"
proof (rule limiter_invI)
  note d = limiter_invD [OF assms]
  show "length (limiter_objects (shared (look_up c idle key rate bucket s))) = length (made_for (look_up c idle key rate bucket s))"
    using d(1) by (simp add: look_up_def)
  show "owned (look_up c idle key rate bucket s) k i" if "limiters (shared (look_up c idle key rate bucket s)) k = Some i" for k i
    using that d(2) by (simp add: look_up_def owned_def)
  show "owned (look_up c idle key rate bucket s) k i" if "checks_at (look_up c idle key rate bucket s) c' = Some (ToCharge k i)" for c' k i
    using that d(2) [of key i] d(3) [of c' k i] by (auto simp: look_up_def owned_def limiter_get_def split: if_splits option.splits)
  show "owned (look_up c idle key rate bucket s) k i" if "(k, i, x) \<in> set (charges (look_up c idle key rate bucket s))" for k i x
    using that d(4) by (simp add: look_up_def owned_def)
  show "bucket_kept gov (look_up c idle key rate bucket s) i" if "i < length (made_for (look_up c idle key rate bucket s))" for i
    using that d(5) [of i] by (simp add: look_up_def bucket_kept_def charge_times_def charge_decisions_def charges_on_def)
qed

lemma limiter_inv_insert:
  assumes "limiter_inv gov s"
  shows "limiter_inv gov (insert_new gov c key rate bucket s)"
proof (cases "fresh_limiter gov rate bucket")
  case None
  note d = limiter_invD [OF assms]
  have eq: "insert_new gov c key rate bucket s = s\<lparr>checks_at := (checks_at s)(c := None)\<rparr>"
    using None by (simp add: insert_new_def limiter_create_def)
  show ?thesis
    unfolding eq
    by (rule limiter_invI)
      (use d in \<open>auto simp: owned_def bucket_kept_def charge_times_def charge_decisions_def charges_on_def split: if_splits\<close>)
next
  case (Some l)
  note d = limiter_invD [OF assms]
  let ?n = "length (made_for s)"
  let ?t = "s\<lparr>shared := (shared s)\<lparr>limiter_objects := limiter_objects (shared s) @ [l], limiters := (limiters (shared s))(key \<mapsto> ?n)\<rparr>,
    checks_at := (checks_at s)(c \<mapsto> ToCharge key ?n), made_for := made_for s @ [(key, rate, bucket)]\<rparr>"
  have eq: "insert_new gov c key rate bucket s = ?t"
    using Some d(1) by (simp add: insert_new_def limiter_create_def Let_def)
  have new: "owned ?t key ?n" by (simp add: owned_def)
  have old: "owned s k i \<Longrightarrow> owned ?t k i" for k i by (auto simp: owned_def nth_append)
  have none: "charges_on ?n s = []" using d(4) by (fastforce simp: charges_on_def owned_def filter_empty_conv)
  show ?thesis
    unfolding eq
  proof (rule limiter_invI)
    show "length (limiter_objects (shared ?t)) = length (made_for ?t)" using d(1) by simp
    show "owned ?t k i" if "limiters (shared ?t) k = Some i" for k i
      using that new old d(2) [of k i] by (auto split: if_splits)
    show "owned ?t k i" if "checks_at ?t c' = Some (ToCharge k i)" for c' k i
      using that new old d(3) [of c' k i] by (auto split: if_splits)
    show "owned ?t k i" if "(k, i, x) \<in> set (charges ?t)" for k i x
      using that old d(4) [of k i x] by simp
    show "bucket_kept gov ?t i" if "i < length (made_for ?t)" for i
    proof (cases "i = ?n")
      case True
      with none Some d(1) show ?thesis
        by (simp add: bucket_kept_def charge_times_def charge_decisions_def charges_on_def nth_append)
    next
      case False
      with that d(1) d(5) [of i] show ?thesis
        by (simp add: bucket_kept_def charge_times_def charge_decisions_def charges_on_def nth_append)
    qed
  qed
qed

lemma limiter_inv_charge:
  assumes "limiter_inv gov s" and "owned s key i"
  shows "limiter_inv gov (charge gov now c key i s)"
proof -
  note d = limiter_invD [OF assms(1)]
  obtain ok l where check: "gov_check gov (limiter_objects (shared s) ! i) now = (ok, l)" by fastforce
  let ?t = "s\<lparr>shared := (shared s)\<lparr>limiter_objects := (limiter_objects (shared s))[i := l]\<rparr>,
    checks_at := (checks_at s)(c := None), charges := charges s @ [(key, i, now, ok)]\<rparr>"
  have eq: "charge gov now c key i s = ?t" by (simp add: charge_def limiter_charge_def check)
  have same: "owned ?t k j = owned s k j" for k j by (simp add: owned_def)
  show ?thesis
    unfolding eq
  proof (rule limiter_invI)
    show "length (limiter_objects (shared ?t)) = length (made_for ?t)" using d(1) by simp
    show "owned ?t k j" if "limiters (shared ?t) k = Some j" for k j
      using that d(2) [of k j] by (simp add: same)
    show "owned ?t k j" if "checks_at ?t c' = Some (ToCharge k j)" for c' k j
      using that d(3) [of c' k j] by (auto simp: same split: if_splits)
    show "owned ?t k j" if "(k, j, x) \<in> set (charges ?t)" for k j x
      using that assms(2) d(4) [of k j x] by (auto simp: same)
    show "bucket_kept gov ?t j" if "j < length (made_for ?t)" for j
    proof (cases "j = i")
      case True
      from that d(5) [of j] obtain l0 where "fresh_limiter gov (fst (snd (made_for s ! i))) (snd (snd (made_for s ! i))) = Some l0"
        "limiter_objects (shared s) ! i = bucket_state gov l0 (charge_times i s)"
        "charge_decisions i s = bucket_decisions gov l0 (charge_times i s)"
        unfolding bucket_kept_def True by auto
      with True that d(1) check show ?thesis
        by (simp add: bucket_kept_def charge_times_def charge_decisions_def charges_on_def bucket_snoc)
    next
      case False
      with that d(5) [of j] show ?thesis
        by (simp add: bucket_kept_def charge_times_def charge_decisions_def charges_on_def)
    qed
  qed
qed

interpretation buckets: inductive_invariant limiter_run_new "limiter_step gov" "\<lambda>_. True" "limiter_inv gov" for gov :: "'l governor"
proof unfold_locales
  show "limiter_inv gov limiter_run_new"
    by (rule limiter_invI) (simp_all add: limiter_run_new_def no_limiters_def)
  fix s t :: "'l limiter_run"
  assume inv: "limiter_inv gov s" and "limiter_step gov s t"
  from this(2) show "limiter_inv gov t"
  proof cases
    case (step_look_up c idle key rate bucket)
    then show ?thesis using limiter_inv_look_up [OF inv] by simp
  next
    case (step_insert c key rate bucket)
    then show ?thesis using limiter_inv_insert [OF inv] by simp
  next
    case (step_charge c key i now)
    then show ?thesis using limiter_inv_charge [OF inv limiter_invD(3) [OF inv]] by simp
  qed
qed simp

subsection \<open>Properties\<close>

text \<open>C16. Clients are limited independently of one another.  However the checks of concurrent requests interleave, a request is
  charged on a bucket that was made for its own key, and the decisions of every bucket are in order those of one token bucket of
  \<open>governor\<close> with the limits of the request that made it.  If no two checks overlap, a key has one bucket at a time, made by its first
  request and made anew by the first request after its entry has been evicted, whatever the requests of the other keys in
  between.  (Overlapping first requests can make a bucket each, see \<open>first_requests_race\<close>.)\<close>
theorem limiter_refines_governor:
  assumes "reach limiter_run_new (limiter_step gov) s"
  shows "(\<forall>(key, i, now, ok) \<in> set (charges s). i < length (made_for s) \<and> fst (made_for s ! i) = key) \<and>
    (\<forall>i < length (made_for s). \<exists>l. fresh_limiter gov (fst (snd (made_for s ! i))) (snd (snd (made_for s ! i))) = Some l \<and>
       charge_decisions i s = bucket_decisions gov l (charge_times i s)) \<and>
    map snd (filter (\<lambda>x. fst x = k) (run_checks (limiter_check gov) no_limiters cs)) =
      run_spec (governor_spec gov) k None (filter (\<lambda>c. call_key c = k) cs)"
proof (intro conjI allI impI)
  note d = limiter_invD [OF buckets.inv_reach [OF assms]]
  show "\<forall>(key, i, now, ok) \<in> set (charges s). i < length (made_for s) \<and> fst (made_for s ! i) = key"
    using d(4) unfolding owned_def by blast
  show "\<exists>l. fresh_limiter gov (fst (snd (made_for s ! i))) (snd (snd (made_for s ! i))) = Some l \<and>
      charge_decisions i s = bucket_decisions gov l (charge_times i s)" if "i < length (made_for s)" for i
    using d(5) [OF that] unfolding bucket_kept_def by blast
qed (use memory.refines_run [of no_limiters k gov cs] in simp)

text \<open>The limits are cut to 32 bits, which the validation at startup does not know: the first request of
  a client panics exactly when one of its route's limits is a multiple of \<open>2 ^ 32\<close>, and a configuration with
  such a limit is accepted.\<close>
theorem accepted_limit_panics:
  "(fst (limiter_check gov (idle, now) no_limiters key p b) = None \<longleftrightarrow> unat p mod 2 ^ 32 = 0 \<or> unat b mod 2 ^ 32 = 0) \<and>
   (let r = (demo_route ''/api'' NoAuth Prefix)\<lparr>rate_limit := \<lparr>per_sec = 2 ^ 32, burst = 60\<rparr>\<rparr>;
        cfg = \<lparr>routes = [r], jwks_url = ''http://auth/jwks.json'', addr = ''localhost:9080'', upstream_timeout_secs = 30,
               max_connections = 1024, drain_timeout_secs = 60\<rparr>
    in gateway_load (Inr cfg) = Inr cfg)"
proof
  have cut: "(ucast x :: u32) = 0 \<longleftrightarrow> unat x mod 2 ^ 32 = 0" for x :: u64
    by (simp add: unsigned_ucast_eq take_bit_eq_mod flip: unat_eq_0)
  show "fst (limiter_check gov (idle, now) no_limiters key p b) = None \<longleftrightarrow> unat p mod 2 ^ 32 = 0 \<or> unat b mod 2 ^ 32 = 0"
    by (simp add: limiter_check_cases no_limiters_def fresh_limiter_def Let_def cut split: prod.splits)
qed (simp add: gateway_load_def gateway_validate_def config_errors_def route_errors_def field_check_def demo_route_def enumerate_simps)

text \<open>The look-up and the creation of a limiter are two steps, so two first requests of a client can each
  make their own: both are let through although a bucket of that size lets only one through, and the
  cache keeps the second.\<close>
theorem first_requests_race:
  assumes "fresh_limiter gov p b = Some l" and "gov_check gov l now = (True, l')" and "gov_check gov l' now = (False, l'')"
  shows "let idle = (\<lambda>_. False); s = no_limiters;
             a = limiter_get idle key s;
             a' = limiter_get idle key s;
             (i, s1) = limiter_create gov key p b s;
             (ok, s2) = limiter_charge gov now (the i) s1;
             (i', s3) = limiter_create gov key p b s2;
             (ok', s4) = limiter_charge gov now (the i') s3
         in a = None \<and> a' = None \<and> ok \<and> ok' \<and> limiters s4 key = i' \<and>
            map snd (run_checks (limiter_check gov) no_limiters
              [\<lparr>call_clock = (idle, now), call_key = key, call_per_sec = p, call_burst = b\<rparr>,
               \<lparr>call_clock = (idle, now), call_key = key, call_per_sec = p, call_burst = b\<rparr>]) = [Some True, Some False]"
  using assms
  by (simp add: no_limiters_def limiter_get_def limiter_create_def limiter_charge_def limiter_check_cases)

text \<open>A bucket that counts down, to run the limiter with.\<close>

definition demo_governor :: "nat governor" where
  "demo_governor = \<lparr>gov_new = \<lambda>qps bucket. bucket, gov_check = \<lambda>l now. (0 < l, l - 1)\<rparr>"

text \<open>Two requests of one client that both find no bucket, and both insert one.\<close>

theorem limiter_refines_governor_witness:
  "let look = (\<lambda>c. look_up c (\<lambda>_. False) ''k'' 1 1); ins = (\<lambda>c. insert_new demo_governor c ''k'' 1 1);
       s = charge demo_governor 5 2 ''k'' 1 (ins 2 (charge demo_governor 5 1 ''k'' 0 (ins 1 (look 2 (look 1 limiter_run_new)))))
   in charges s = [(''k'', 0, 5, True), (''k'', 1, 5, True)] \<and>
      (\<forall>(key, i, now, ok) \<in> set (charges s). i < length (made_for s) \<and> fst (made_for s ! i) = key)"
proof -
  let ?s1 = "look_up 1 (\<lambda>_. False) ''k'' 1 1 limiter_run_new" 
  let ?s2 = "look_up 2 (\<lambda>_. False) ''k'' 1 1 ?s1"
  let ?s3 = "insert_new demo_governor 1 ''k'' 1 1 ?s2"
  let ?s4 = "charge demo_governor 5 1 ''k'' 0 ?s3"
  let ?s5 = "insert_new demo_governor 2 ''k'' 1 1 ?s4"
  let ?s6 = "charge demo_governor 5 2 ''k'' 1 ?s5"
  note run = limiter_run_new_def no_limiters_def look_up_def limiter_get_def insert_new_def limiter_create_def fresh_limiter_def
    charge_def limiter_charge_def demo_governor_def Let_def
  have points: "checks_at limiter_run_new 1 = None" "checks_at ?s1 2 = None" "checks_at ?s2 1 = Some (ToCreate ''k'' 1 1)"
    "checks_at ?s3 1 = Some (ToCharge ''k'' 0)" "checks_at ?s4 2 = Some (ToCreate ''k'' 1 1)" "checks_at ?s5 2 = Some (ToCharge ''k'' 1)"
    by (simp_all add: run)
  let ?run = "reach limiter_run_new (limiter_step demo_governor)"
  have "?run ?s1" by (rule reach_step, rule reach_init, rule step_look_up) (rule points)
  then have "?run ?s2" by (rule reach_step) (rule step_look_up, rule points)
  then have "?run ?s3" by (rule reach_step) (rule step_insert, rule points)
  then have "?run ?s4" by (rule reach_step) (rule step_charge, rule points)
  then have "?run ?s5" by (rule reach_step) (rule step_insert, rule points)
  then have "?run ?s6" by (rule reach_step) (rule step_charge, rule points)
  from limiter_refines_governor [OF this] have "\<forall>(key, i, now, ok) \<in> set (charges ?s6). i < length (made_for ?s6) \<and> fst (made_for ?s6 ! i) = key"
    by blast
  moreover have "charges ?s6 = [(''k'', 0, 5, True), (''k'', 1, 5, True)]" by (simp add: run)
  ultimately show ?thesis unfolding Let_def by blast
qed

end
