(* ===== verification/Gateway_Pipeline.thy ===== *)
theory Gateway_Pipeline
  imports Gateway_Jwks Gateway_Limiter
begin

text \<open>
  The way of a request through the gateway (\<open>gateway/src/layers/\<close>, \<open>services/\<close>, \<open>error.rs\<close>, \<open>main.rs\<close>):
  health check, routing, rate limit, authentication, proxy.  A layer is a function of the service it
  wraps.  A result holds the answer or the error and what was sent to the upstream; a panic (of the rate
  limiter) is the answer \<open>None\<close>.  The upstream is a function of the request it is sent.
\<close>

subsection \<open>Requests, responses, errors\<close>

record http_request =
  req_method :: string
  req_path :: string
  req_query :: "string option"
  req_headers :: headers
  req_body :: string
  peer_addr :: "string option"
  matched :: "route_config option"

record http_response =
  resp_status :: nat
  resp_headers :: headers
  resp_body :: string

datatype gateway_error = RouteNotFound | RateLimited | AuthFailed | UpstreamError string | UpstreamTimeout

fun gateway_status :: "gateway_error \<Rightarrow> nat" where
  "gateway_status RouteNotFound = 404"
| "gateway_status RateLimited = 429"
| "gateway_status AuthFailed = 401"
| "gateway_status (UpstreamError _) = 502"
| "gateway_status UpstreamTimeout = 504"

fun gateway_message :: "gateway_error \<Rightarrow> string" where
  "gateway_message RouteNotFound = ''no route matched''"
| "gateway_message RateLimited = ''rate limited''"
| "gateway_message AuthFailed = ''authentication failed''"
| "gateway_message (UpstreamError msg) = ''upstream error: '' @ msg"
| "gateway_message UpstreamTimeout = ''upstream timeout''"

record 'uri sent_request =
  sent_method :: string
  sent_uri :: 'uri
  sent_headers :: headers
  sent_body :: string

datatype upstream_reply = Reply http_response | ReplyError string | NoReply

type_synonym 'uri answer = "(gateway_error + http_response) \<times> 'uri sent_request option"

subsection \<open>The proxy\<close>

definition proxy_call ::
  "'uri uri_lib \<Rightarrow> ('uri sent_request \<Rightarrow> upstream_reply) \<Rightarrow> http_request \<Rightarrow> 'uri answer" where
  "proxy_call ul reply req =
     (case matched req of
        None \<Rightarrow> (Inl RouteNotFound, None)
      | Some r \<Rightarrow>
          (case build_upstream_uri ul (upstream r) (req_path req) (req_query req) of
             Inl msg \<Rightarrow> (Inl (UpstreamError msg), None)
           | Inr uri \<Rightarrow>
               (case Option.bind (uri_authority ul uri) to_str of
                  None \<Rightarrow> (Inl (UpstreamError ''invalid upstream authority''), None)
                | Some host \<Rightarrow>
                    (let sent = \<lparr>sent_method = req_method req, sent_uri = uri, sent_headers = header_insert (req_headers req) ''host'' host,
                                 sent_body = req_body req\<rparr> in
                     case reply sent of
                       NoReply \<Rightarrow> (Inl UpstreamTimeout, Some sent)
                     | ReplyError e \<Rightarrow> (Inl (UpstreamError e), Some sent)
                     | Reply resp \<Rightarrow>
                         (Inr (resp\<lparr>resp_headers := header_remove (resp_headers resp) ''content-length''\<rparr>), Some sent)))))"

subsection \<open>Authentication\<close>

definition gateway_verify_token :: "auth_lib \<Rightarrow> jwks_manager \<Rightarrow> u64 \<Rightarrow> string option \<Rightarrow> string option" where
  "gateway_verify_token lib m now auth_header =
     (case Option.bind (Option.bind auth_header to_str) (strip_prefix ''Bearer '') of
        None \<Rightarrow> None
      | Some token \<Rightarrow>
          (case jwks_verify lib m now token of
             Inl _ \<Rightarrow> None
           | Inr c \<Rightarrow> map_option (uuid_show lib) (uuid_parse lib (claim_sub c))))"

definition with_user_id :: "http_request \<Rightarrow> string \<Rightarrow> http_request" where
  "with_user_id req u = req\<lparr>req_headers := header_insert (req_headers req) ''x-user-id'' u\<rparr>"

definition auth_call ::
  "auth_lib \<Rightarrow> jwks_manager \<Rightarrow> u64 \<Rightarrow> (http_request \<Rightarrow> 'uri answer) \<Rightarrow> http_request \<Rightarrow> 'uri answer" where
  "auth_call lib m now inner req =
     (case matched req of
        None \<Rightarrow> (Inl RouteNotFound, None)
      | Some r \<Rightarrow>
          (case route_auth r of
             NoAuth \<Rightarrow> inner req
           | BypassAndStrip \<Rightarrow> inner (req\<lparr>req_headers := header_remove (req_headers req) ''authorization''\<rparr>)
           | Required \<Rightarrow>
               (case gateway_verify_token lib m now (header_get (req_headers req) ''authorization'') of
                  Some u \<Rightarrow> inner (with_user_id req u)
                | None \<Rightarrow> (Inl AuthFailed, None))
           | Optional \<Rightarrow>
               (case header_get (req_headers req) ''authorization'' of
                  None \<Rightarrow> inner req
                | Some val \<Rightarrow>
                    (case gateway_verify_token lib m now (Some val) of
                       Some u \<Rightarrow> inner (with_user_id req u)
                     | None \<Rightarrow> inner req))))"

subsection \<open>Rate limit, routing, health\<close>

definition rate_limit_call ::
  "'l governor \<Rightarrow> clock \<Rightarrow> (http_request \<Rightarrow> 'uri answer) \<Rightarrow> http_request \<Rightarrow> 'l limiter_state \<Rightarrow>
     'uri answer option \<times> 'l limiter_state" where
  "rate_limit_call gov clock inner req s =
     (case matched req of
        None \<Rightarrow> (Some (Inl RouteNotFound, None), s)
      | Some r \<Rightarrow>
          (case client_ip (req_headers req) (peer_addr req) of
             None \<Rightarrow> (Some (inner req), s)
           | Some ip \<Rightarrow>
               (case limiter_check gov clock s (limit_key r ip) (per_sec (rate_limit r)) (burst (rate_limit r)) of
                  (None, s') \<Rightarrow> (None, s')
                | (Some allowed, s') \<Rightarrow>
                    if \<not> allowed then (Some (Inl RateLimited, None), s')
                    else (Some (inner req), s'))))"

definition route_call ::
  "route_config list \<Rightarrow> (http_request \<Rightarrow> 's \<Rightarrow> 'uri answer option \<times> 's) \<Rightarrow> http_request \<Rightarrow> 's \<Rightarrow> 'uri answer option \<times> 's" where
  "route_call rs inner req s =
     (case match_route rs (req_path req) of
        Some r \<Rightarrow> inner (req\<lparr>matched := Some r\<rparr>) s
      | None \<Rightarrow> (Some (Inl RouteNotFound, None), s))"

datatype health = HealthOk | HealthDegraded

definition health_of :: "bool \<Rightarrow> health" where
  "health_of ready = (if ready then HealthOk else HealthDegraded)"

fun health_status :: "health \<Rightarrow> nat" where
  "health_status HealthOk = 200"
| "health_status HealthDegraded = 503"

definition health_call ::
  "(health \<Rightarrow> string) \<Rightarrow> jwks_manager \<Rightarrow> (http_request \<Rightarrow> 's \<Rightarrow> 'uri answer option \<times> 's) \<Rightarrow> http_request \<Rightarrow> 's \<Rightarrow>
     'uri answer option \<times> 's" where
  "health_call json m inner req s =
     (if req_path req = ''/healthz'' then
        (let h = health_of (is_ready m) in
         (Some (Inr \<lparr>resp_status = health_status h, resp_headers = [''content-type'' \<mapsto> [''application/json'']],
                     resp_body = json h\<rparr>, None), s))
      else inner req s)"

subsection \<open>The gateway\<close>

record ('l, 'uri) gateway =
  gw_routes :: "route_config list"
  gw_jwks :: jwks_manager
  gw_lib :: auth_lib
  gw_uri :: "'uri uri_lib"
  gw_governor :: "'l governor"
  gw_json :: "health \<Rightarrow> string"
  gw_upstream :: "'uri sent_request \<Rightarrow> upstream_reply"

definition pipeline ::
  "('l, 'uri) gateway \<Rightarrow> clock \<Rightarrow> u64 \<Rightarrow> http_request \<Rightarrow> 'l limiter_state \<Rightarrow> 'uri answer option \<times> 'l limiter_state" where
  "pipeline gw clock now =
     health_call (gw_json gw) (gw_jwks gw)
       (route_call (gw_routes gw)
         (rate_limit_call (gw_governor gw) clock
           (auth_call (gw_lib gw) (gw_jwks gw) now
             (proxy_call (gw_uri gw) (gw_upstream gw)))))"

definition error_response_of :: "nat \<Rightarrow> string \<Rightarrow> http_response" where
  "error_response_of status msg = \<lparr>resp_status = status, resp_headers = Map.empty, resp_body = msg\<rparr>"

text \<open>\<open>body\<close> is the collected body, \<open>None\<close> if reading it failed; the connection service sets the peer.\<close>

definition gateway_call ::
  "('l, 'uri) gateway \<Rightarrow> clock \<Rightarrow> u64 \<Rightarrow> string \<Rightarrow> string option \<Rightarrow> http_request \<Rightarrow> 'l limiter_state \<Rightarrow>
     (http_response \<times> 'uri sent_request option) option \<times> 'l limiter_state" where
  "gateway_call gw clock now peer body req s =
     (case body of
        None \<Rightarrow> (Some (error_response_of 400 ''failed to read request body'', None), s)
      | Some bytes \<Rightarrow>
          (case pipeline gw clock now (req\<lparr>peer_addr := Some peer, req_body := bytes, matched := None\<rparr>) s of
             (None, s') \<Rightarrow> (None, s')
           | (Some (Inr resp, sent), s') \<Rightarrow> (Some (resp, sent), s')
           | (Some (Inl e, sent), s') \<Rightarrow> (Some (error_response_of (gateway_status e) (gateway_message e), sent), s')))"

subsection \<open>Lemmas\<close>

text \<open>What each layer lets through to the proxy.\<close>

lemma proxy_sent:
  "proxy_call ul reply req = (ans, Some sent) \<Longrightarrow>
     \<exists>host. sent_headers sent = header_insert (req_headers req) ''host'' host \<and> sent_body sent = req_body req"
  by (auto simp: proxy_call_def Let_def split: option.splits sum.splits upstream_reply.splits)

lemma gateway_verify_token_Some:
  "gateway_verify_token lib m now hdr = Some u \<longleftrightarrow>
     (\<exists>token c uid. hdr = Some (''Bearer '' @ token) \<and> to_str (''Bearer '' @ token) \<noteq> None \<and>
        jwks_verify lib m now token = Inr c \<and> uuid_parse lib (claim_sub c) = Some uid \<and> u = uuid_show lib uid)"
  by (auto simp: gateway_verify_token_def strip_prefix_Some to_str_def split: option.splits sum.splits bind_splits if_splits)

lemma gateway_call_sent:
  assumes "gateway_call gw clock now peer body req s = (Some (resp, Some sent), s')"
  shows "\<exists>r bytes req'. body = Some bytes \<and> req_path req \<noteq> ''/healthz'' \<and> match_route (gw_routes gw) (req_path req) = Some r \<and>
    req' = req\<lparr>peer_addr := Some peer, req_body := bytes, matched := Some r\<rparr> \<and>
    (\<exists>ans. auth_call (gw_lib gw) (gw_jwks gw) now (proxy_call (gw_uri gw) (gw_upstream gw)) req' = (ans, Some sent))"
  using assms
  by (auto simp: gateway_call_def pipeline_def health_call_def route_call_def rate_limit_call_def Let_def
      split: option.splits if_splits prod.splits sum.splits)

lemma auth_call_sent:
  assumes "auth_call lib m now (proxy_call ul reply) req = (ans, Some sent)" and "matched req = Some r"
  shows "\<exists>host h. sent_headers sent = header_insert h ''host'' host \<and>
    (case route_auth r of
       NoAuth \<Rightarrow> h = req_headers req
     | BypassAndStrip \<Rightarrow> h = header_remove (req_headers req) ''authorization''
     | Required \<Rightarrow>
         (\<exists>u. gateway_verify_token lib m now (header_get (req_headers req) ''authorization'') = Some u \<and>
            h = header_insert (req_headers req) ''x-user-id'' u)
     | Optional \<Rightarrow>
         h = (case Option.bind (header_get (req_headers req) ''authorization'') (\<lambda>v. gateway_verify_token lib m now (Some v)) of
                None \<Rightarrow> req_headers req
              | Some u \<Rightarrow> header_insert (req_headers req) ''x-user-id'' u))"
  using assms
  by (auto simp: auth_call_def with_user_id_def split: authentication_level.splits option.splits dest!: proxy_sent)

lemma user_id_of_inserted:
  "uuid_law lib \<Longrightarrow> list_all visible (uuid_show lib uid) \<Longrightarrow> header_get h ''x-user-id'' = Some (uuid_show lib uid) \<Longrightarrow>
     user_id_required lib h = Inr uid"
  by (simp add: user_id_required_def extract_x_user_id_def to_str_def uuid_law_def)

subsection \<open>Properties\<close>

text \<open>What a route that requires authentication lets through.\<close>

lemma required_route_identity:
  assumes "uuid_law (gw_lib gw)" and "\<And>uid. list_all visible (uuid_show (gw_lib gw) uid)"
    and "match_route (gw_routes gw) (req_path req) = Some r" and "route_auth r = Required"
    and "gateway_call gw clock now peer body req s = (Some (resp, Some sent), s')"
  shows "\<exists>token c uid. header_get (req_headers req) ''authorization'' = Some (''Bearer '' @ token) \<and>
    jwks_verify (gw_lib gw) (gw_jwks gw) now token = Inr c \<and> uuid_parse (gw_lib gw) (claim_sub c) = Some uid \<and>
    sent_headers sent ''x-user-id'' = Some [uuid_show (gw_lib gw) uid] \<and>
    user_id_required (gw_lib gw) (sent_headers sent) = Inr uid"
proof -
  from gateway_call_sent [OF assms(5)] assms(3) obtain bytes ans where
    "auth_call (gw_lib gw) (gw_jwks gw) now (proxy_call (gw_uri gw) (gw_upstream gw))
       (req\<lparr>peer_addr := Some peer, req_body := bytes, matched := Some r\<rparr>) = (ans, Some sent)" by auto
  from auth_call_sent [OF this] assms(4) obtain host u where
    v: "gateway_verify_token (gw_lib gw) (gw_jwks gw) now (header_get (req_headers req) ''authorization'') = Some u"
    and h: "sent_headers sent = header_insert (header_insert (req_headers req) ''x-user-id'' u) ''host'' host" by auto
  from v obtain token c uid where t: "header_get (req_headers req) ''authorization'' = Some (''Bearer '' @ token)"
    "jwks_verify (gw_lib gw) (gw_jwks gw) now token = Inr c" "uuid_parse (gw_lib gw) (claim_sub c) = Some uid"
    and u: "u = uuid_show (gw_lib gw) uid"
    unfolding gateway_verify_token_Some by blast
  have "sent_headers sent ''x-user-id'' = Some [uuid_show (gw_lib gw) uid]" using h u by (simp add: header_insert_def)
  moreover have "user_id_required (gw_lib gw) (sent_headers sent) = Inr uid"
    by (rule user_id_of_inserted [OF assms(1,2)]) (simp add: h u)
  ultimately show ?thesis using t by blast
qed

text \<open>A route that requires authentication passes nothing on without it: whatever reaches the upstream
  came with a bearer token that the published keys verify, and the identity the upstream reads from it is
  the token's subject, whatever \<open>x-user-id\<close> headers the client had put in.\<close>
theorem required_route_authenticates:
  assumes "uuid_law (gw_lib gw)" and "\<And>uid. list_all visible (uuid_show (gw_lib gw) uid)"
    and "match_route (gw_routes gw) (req_path req) = Some r" and "route_auth r = Required"
    and "gateway_call gw clock now peer body req s = (Some (resp, Some sent), s')"
  shows "\<exists>token c uid. header_get (req_headers req) ''authorization'' = Some (''Bearer '' @ token) \<and>
    jwks_verify (gw_lib gw) (gw_jwks gw) now token = Inr c \<and> uuid_parse (gw_lib gw) (claim_sub c) = Some uid \<and>
    sent_headers sent ''x-user-id'' = Some [uuid_show (gw_lib gw) uid] \<and>
    user_id_required (gw_lib gw) (sent_headers sent) = Inr uid"
  by (rule required_route_identity [OF assms])

text \<open>C28. A route that does not require authentication lets a client choose who it is: without a token the
  \<open>x-user-id\<close> header is passed on as the client sent it, and the upstream's extractor takes it for the
  gateway's.\<close>
theorem user_id_spoofed:
  assumes "uuid_law (gw_lib gw)" and "list_all visible (uuid_show (gw_lib gw) victim)"
    and "match_route (gw_routes gw) (req_path req) = Some r" and "route_auth r \<noteq> Required"
    and "header_get (req_headers req) ''authorization'' = None"
    and "header_get (req_headers req) ''x-user-id'' = Some (uuid_show (gw_lib gw) victim)"
    and "gateway_call gw clock now peer body req s = (Some (resp, Some sent), s')"
  shows "user_id_required (gw_lib gw) (sent_headers sent) = Inr victim"
proof -
  from gateway_call_sent [OF assms(7)] assms(3) obtain bytes ans where
    "auth_call (gw_lib gw) (gw_jwks gw) now (proxy_call (gw_uri gw) (gw_upstream gw))
       (req\<lparr>peer_addr := Some peer, req_body := bytes, matched := Some r\<rparr>) = (ans, Some sent)" by auto
  from auth_call_sent [OF this] assms(4,5,6)
  have "header_get (sent_headers sent) ''x-user-id'' = Some (uuid_show (gw_lib gw) victim)"
    by (cases "route_auth r") auto
  from user_id_of_inserted [OF assms(1,2) this] show ?thesis .
qed

text \<open>A route with optional authentication does not reject a wrong token, against the comment on the
  level: a request whose token does not verify is forwarded, with all of its headers.\<close>
theorem optional_forwards_bad_tokens:
  assumes "matched req = Some r" and "route_auth r = Optional"
    and "gateway_verify_token lib m now (header_get (req_headers req) ''authorization'') = None"
  shows "auth_call lib m now inner req = inner req"
  using assms by (auto simp: auth_call_def split: option.splits)

text \<open>C26. The layers answer in order.  A health check never reaches the routes; a path without a route is 404
  and charges no limit; a refused client is 429 and nothing is sent; on a route that requires it a request
  without a valid token is 401 and nothing is sent.\<close>
theorem layers_answer_in_order:
  assumes "body \<noteq> None"
  shows "(if req_path req = ''/healthz'' then
            \<exists>resp. gateway_call gw clock now peer body req s = (Some (resp, None), s) \<and>
              resp_status resp = (if is_ready (gw_jwks gw) then 200 else 503)
          else case match_route (gw_routes gw) (req_path req) of
            None \<Rightarrow> gateway_call gw clock now peer body req s = (Some (error_response_of 404 ''no route matched'', None), s)
          | Some r \<Rightarrow>
              (case limiter_check (gw_governor gw) clock s
                 (limit_key r (case client_ip (req_headers req) None of None \<Rightarrow> peer | Some ip \<Rightarrow> ip))
                 (per_sec (rate_limit r)) (burst (rate_limit r)) of
                 (None, s') \<Rightarrow> gateway_call gw clock now peer body req s = (None, s')
               | (Some False, s') \<Rightarrow>
                   gateway_call gw clock now peer body req s = (Some (error_response_of 429 ''rate limited'', None), s')
               | (Some True, s') \<Rightarrow>
                   if route_auth r = Required \<and>
                      gateway_verify_token (gw_lib gw) (gw_jwks gw) now (header_get (req_headers req) ''authorization'') = None
                   then gateway_call gw clock now peer body req s = (Some (error_response_of 401 ''authentication failed'', None), s')
                   else snd (gateway_call gw clock now peer body req s) = s'))"
proof -
  from assms obtain bytes where body: "body = Some bytes" by auto
  let ?req = "\<lambda>m. req\<lparr>peer_addr := Some peer, req_body := bytes, matched := m\<rparr>"
  show ?thesis
  proof (cases "req_path req = ''/healthz''")
    case True
    then show ?thesis by (simp add: body gateway_call_def pipeline_def health_call_def health_of_def Let_def)
  next
    case path: False
    show ?thesis
    proof (cases "match_route (gw_routes gw) (req_path req)")
      case None
      with path show ?thesis by (simp add: body gateway_call_def pipeline_def health_call_def route_call_def)
    next
      case (Some r)
      let ?ip = "case client_ip (req_headers req) None of None \<Rightarrow> peer | Some ip \<Rightarrow> ip"
      have ip: "client_ip (req_headers req) (Some peer) = Some ?ip"
        by (simp add: client_ip_def Let_def split: option.splits)
      obtain d s' where d: "limiter_check (gw_governor gw) clock s (limit_key r ?ip) (per_sec (rate_limit r)) (burst (rate_limit r)) = (d, s')"
        by fastforce
      have "pipeline gw clock now (?req None) s =
          (case d of None \<Rightarrow> (None, s') | Some allowed \<Rightarrow>
             if \<not> allowed then (Some (Inl RateLimited, None), s')
             else (Some (auth_call (gw_lib gw) (gw_jwks gw) now (proxy_call (gw_uri gw) (gw_upstream gw)) (?req (Some r))), s'))"
        using path Some d by (simp add: pipeline_def health_call_def route_call_def rate_limit_call_def ip split: option.splits)
      then show ?thesis
        using path Some d
        by (auto simp: body gateway_call_def auth_call_def split: option.splits prod.splits sum.splits if_splits bool.splits)
    qed
  qed
qed

lemma client_ip_word:
  assumes "list_all (\<lambda>c. visible c \<and> c \<noteq> CHR '','' \<and> \<not> is_blank c) ip" and "ip \<noteq> []"
  shows "client_ip (header_insert h ''x-forwarded-for'' ip) peer = Some ip"
proof -
  have str: "to_str ip = Some ip" and word: "takeWhile (\<lambda>c. c \<noteq> CHR '','') ip = ip"
    "dropWhile is_blank ip = ip" "dropWhile is_blank (rev ip) = rev ip"
    using assms by (auto simp: to_str_def list_all_iff takeWhile_eq_all_conv dropWhile_eq_self_iff hd_rev)
  have "trim_blanks (takeWhile (\<lambda>c. c \<noteq> CHR '','') ip) = ip"
    unfolding trim_blanks_def by (simp only: word rev_rev_ident)
  with str assms(2) show ?thesis by (simp add: client_ip_def Let_def)
qed

lemma unused_key_exists:
  assumes "finite (dom (limiters s))"
  shows "\<exists>n. limiters s (limit_key r (replicate (Suc n) (CHR ''a''))) = None"
proof (rule ccontr)
  assume "\<not> ?thesis"
  then have "range (\<lambda>n. limit_key r (replicate (Suc n) (CHR ''a''))) \<subseteq> dom (limiters s)" by (auto simp: dom_def)
  moreover have "inj (\<lambda>n. limit_key r (replicate (Suc n) (CHR ''a'')))"
    by (rule injI) (auto simp: limit_key_def dest: arg_cong [where f = length])
  ultimately show False using assms by (meson finite_subset infinite_UNIV_nat finite_imageD)
qed

text \<open>The rate limit is evaded with a header: in every state there is an address the client can claim in
  \<open>x-forwarded-for\<close> for which its request is not refused, whatever it has used up before, as long as the
  route's limits admit one request at all.\<close>
theorem claimed_address_evades_limit:
  assumes "finite (dom (limiters s))" and "match_route (gw_routes gw) (req_path req) = Some r"
    and "fresh_limiter (gw_governor gw) (per_sec (rate_limit r)) (burst (rate_limit r)) = Some l"
    and "fst (gov_check (gw_governor gw) l now)"
  shows "\<exists>ip ans s'. pipeline gw (idle, now) t (req\<lparr>req_headers := header_insert (req_headers req) ''x-forwarded-for'' ip\<rparr>) s = (Some ans, s') \<and>
    fst ans \<noteq> Inl RateLimited"
proof -
  from unused_key_exists [OF assms(1)] obtain n where key: "limiters s (limit_key r (replicate (Suc n) (CHR ''a''))) = None" by blast
  let ?ip = "replicate (Suc n) (CHR ''a'')"
  let ?req = "req\<lparr>req_headers := header_insert (req_headers req) ''x-forwarded-for'' ?ip\<rparr>"
  have ip: "client_ip (req_headers ?req) (peer_addr ?req) = Some ?ip"
    using client_ip_word [of ?ip "req_headers req" "peer_addr req"] by (simp add: visible_def is_blank_def list_all_iff)
  obtain l' where l': "gov_check (gw_governor gw) l now = (True, l')" using assms(4) by (cases "gov_check (gw_governor gw) l now") auto
  obtain s' where check: "limiter_check (gw_governor gw) (idle, now) s (limit_key r ?ip) (per_sec (rate_limit r)) (burst (rate_limit r)) = (Some True, s')"
    using key assms(3) l' by (simp add: limiter_check_cases)
  have "fst (proxy_call (gw_uri gw) (gw_upstream gw) q) \<noteq> Inl RateLimited" for q
    by (auto simp: proxy_call_def Let_def split: option.splits sum.splits upstream_reply.splits)
  then have "fst (auth_call (gw_lib gw) (gw_jwks gw) t (proxy_call (gw_uri gw) (gw_upstream gw)) q) \<noteq> Inl RateLimited" for q
    by (auto simp: auth_call_def split: option.splits authentication_level.splits)
  note limited = this
  show ?thesis
  proof (cases "req_path req = ''/healthz''")
    case True
    then show ?thesis by (auto simp: pipeline_def health_call_def Let_def)
  next
    case False
    then have "pipeline gw (idle, now) t ?req s =
        (Some (auth_call (gw_lib gw) (gw_jwks gw) t (proxy_call (gw_uri gw) (gw_upstream gw)) (?req\<lparr>matched := Some r\<rparr>)), s')"
      using assms(2) ip check by (simp add: pipeline_def health_call_def route_call_def rate_limit_call_def del: replicate_Suc)
    with limited [of "?req\<lparr>matched := Some r\<rparr>"] show ?thesis by blast
  qed
qed

subsection \<open>A gateway to run\<close>

definition demo_uri :: "string uri_lib" where
  "demo_uri = \<lparr>uri_of = Inr, uri_authority = \<lambda>uri. Some ''localhost:9000''\<rparr>"

definition demo_ok :: http_response where
  "demo_ok = \<lparr>resp_status = 200, resp_headers = Map.empty, resp_body = ''ok''\<rparr>"

definition demo_gateway :: "authentication_level \<Rightarrow> (nat, string) gateway" where
  "demo_gateway level =
     \<lparr>gw_routes = [demo_route ''/api'' level Prefix], gw_jwks = demo_manager, gw_lib = demo_lib, gw_uri = demo_uri,
      gw_governor = demo_governor, gw_json = \<lambda>_. ''{}'', gw_upstream = \<lambda>_. Reply demo_ok\<rparr>"

definition demo_request :: "headers \<Rightarrow> http_request" where
  "demo_request h =
     \<lparr>req_method = ''GET'', req_path = ''/api/x'', req_query = None, req_headers = h, req_body = [], peer_addr = None, matched = None\<rparr>"

lemma demo_uuid_visible: "list_all visible (uuid_show demo_lib uid)"
  using show_nat_digits [of "unat uid"] by (auto simp: demo_lib_def list_all_iff visible_def is_digit_def)

lemma demo_match: "match_route (gw_routes (demo_gateway level)) (req_path (demo_request h)) = Some (demo_route ''/api'' level Prefix)"
  by (simp add: demo_gateway_def demo_request_def match_route_def match_step_def route_matches_def is_prefix_match_def demo_route_def Let_def)

lemma demo_token: "gateway_verify_token demo_lib demo_manager 60 (Some ''Bearer A'') = Some ''7''"
  by (simp add: gateway_verify_token_def to_str_def visible_def jwks_verify_def demo_manager_def lookup_key_def verify_with_raw_key_def
      raw_to_der_def decode_typed_def demo_lib_def demo_claims_def claims_for_def JWKS_VALIDATION_def saturating_add_def
      read_nat_def digit_value_def demo_lib_run(7))

lemmas demo_gateway_run =
  gateway_call_def pipeline_def health_call_def route_call_def rate_limit_call_def auth_call_def proxy_call_def
  demo_gateway_def demo_request_def demo_route_def demo_rate_def demo_governor_def demo_uri_def demo_ok_def
  match_route_def match_step_def route_matches_def is_prefix_match_def limiter_check_cases no_limiters_def fresh_limiter_def
  client_ip_def header_get_def to_str_def build_upstream_uri_def with_user_id_def

lemma demo_required_call:
  "\<exists>resp sent s'. gateway_call (demo_gateway Required) (\<lambda>_. False, 5) 60 ''10.0.0.1'' (Some [])
     (demo_request [''authorization'' \<mapsto> [''Bearer A''], ''x-user-id'' \<mapsto> [''1'']]) no_limiters = (Some (resp, Some sent), s')"
  using demo_token
  by (auto simp: demo_gateway_run Let_def visible_def)

lemma demo_open_call:
  "\<exists>resp sent s'. gateway_call (demo_gateway NoAuth) (\<lambda>_. False, 5) 60 ''10.0.0.1'' (Some [])
     (demo_request [''x-user-id'' \<mapsto> [''7'']]) no_limiters = (Some (resp, Some sent), s')"
  by (auto simp: demo_gateway_run Let_def visible_def)

theorem user_id_spoofed_witness:
  "\<exists>resp sent s'. gateway_call (demo_gateway NoAuth) (\<lambda>_. False, 5) 60 ''10.0.0.1'' (Some [])
     (demo_request [''x-user-id'' \<mapsto> [''7'']]) no_limiters = (Some (resp, Some sent), s') \<and>
   user_id_required demo_lib (sent_headers sent) = Inr 7"
proof -
  obtain resp sent s' where call: "gateway_call (demo_gateway NoAuth) (\<lambda>_. False, 5) 60 ''10.0.0.1'' (Some [])
     (demo_request [''x-user-id'' \<mapsto> [''7'']]) no_limiters = (Some (resp, Some sent), s')"
    using demo_open_call by blast
  have "gw_lib (demo_gateway NoAuth) = demo_lib" by (simp add: demo_gateway_def)
  moreover have "uuid_show demo_lib 7 = ''7''" by (rule demo_lib_run)
  ultimately have "user_id_required demo_lib (sent_headers sent) = Inr 7"
    using user_id_spoofed [OF _ _ demo_match _ _ _ call, of 7] demo_lib_laws(3) demo_uuid_visible [of 7]
    by (simp add: demo_route_def demo_request_def header_get_def)
  with call show ?thesis by blast
qed

theorem layers_answer_in_order_witness:
  "\<exists>resp. gateway_call (demo_gateway Required) (\<lambda>_. False, 5) 60 ''10.0.0.1'' (Some [])
     ((demo_request Map.empty)\<lparr>req_path := ''/healthz''\<rparr>) no_limiters = (Some (resp, None), no_limiters) \<and> resp_status resp = 200"
  using layers_answer_in_order [of "Some []" "(demo_request Map.empty)\<lparr>req_path := ''/healthz''\<rparr>" "demo_gateway Required"
      "(\<lambda>_. False, 5)" 60 "''10.0.0.1''" no_limiters]
  by (simp add: demo_gateway_def demo_manager_def is_ready_def)

end
