(* ===== verification/Problems_Db.thy ===== *)
theory Problems_Db
  imports Judge_Models
begin

text \<open>
  The problem database (\<open>api_server_db/src/models\<close>, \<open>repositories/problems.rs\<close>, \<open>test_cases.rs\<close>).  A
  table is its list of rows.  A repository operation is a function of the database state to a result and a
  new state.  The \<open>n\<close>-th call to the database fails if \<open>up n\<close> says so (connection, foreign key or any other
  fault of the server); violations of the declared primary keys are computed.  Operations run one after
  the other; a transaction whose body or commit fails leaves the tables as they were at its start.
\<close>

type_synonym uuid = "128 word"

subsection \<open>Columns and tables\<close>

datatype difficulty = Beginner | PopularizeMinus | PopularizeImprove | PopularizePlus | ImprovePlus | Provincial | Noi

datatype case_type = HiddenCase | ExampleCase

datatype submission_status = Pending | Completed

datatype acceptable_language = AcceptableCpp

definition acceptable_language_from_str :: "string \<Rightarrow> acceptable_language option" where
  "acceptable_language_from_str s = (if s = ''cpp'' then Some AcceptableCpp else None)"

fun language_of_acceptable :: "acceptable_language \<Rightarrow> language" where
  "language_of_acceptable AcceptableCpp = Cpp"

record problem_row =
  problem_id :: uuid
  problem_title :: string
  problem_description :: string
  problem_difficulty :: difficulty
  problem_author :: uuid
  problem_created_at :: u64
  problem_updated_at :: u64
  problem_deleted_at :: "u64 option"
  problem_cpu_time_ms :: u64
  problem_wall_time_ms :: u64
  problem_memory_bytes :: u64
  problem_output_bytes :: u64

record case_row =
  case_id :: uuid
  case_problem :: uuid
  row_input :: string
  row_output :: string
  row_case_type :: case_type

record submission_row =
  submission_id :: uuid
  submission_problem :: uuid
  submission_user :: uuid
  submission_source :: string
  submission_status :: submission_status
  submission_result :: "string option"
  submission_language :: acceptable_language
  submitted_at :: u64
  completed_at :: "u64 option"

record tables =
  problems :: "problem_row list"
  problems_tags :: "(uuid \<times> uuid) list"
  test_cases :: "case_row list"
  submissions :: "submission_row list"

record db =
  tables_of :: tables
  queries :: nat
  uuids :: nat

record db_env =
  up :: "nat \<Rightarrow> bool"
  new_id :: "nat \<Rightarrow> uuid"
  utc_now :: u64

subsection \<open>Operations\<close>

datatype repo_error = RepoNotFound | RepoForbidden | RepoInternal

type_synonym 'a repo = "db \<Rightarrow> (repo_error + 'a) \<times> db"

definition ret :: "'a \<Rightarrow> 'a repo" where
  "ret x s = (Inr x, s)"

definition fail :: "repo_error \<Rightarrow> 'a repo" where
  "fail e s = (Inl e, s)"

text \<open>Sequencing with the early return of \<open>?\<close>.\<close>

definition and_then :: "'a repo \<Rightarrow> ('a \<Rightarrow> 'b repo) \<Rightarrow> 'b repo" where
  "and_then m f s = (case m s of (Inl e, t) \<Rightarrow> (Inl e, t) | (Inr x, t) \<Rightarrow> f x t)"

definition query :: "db_env \<Rightarrow> (tables \<Rightarrow> 'a) \<Rightarrow> 'a repo" where
  "query env q s = (if up env (queries s) then Inr (q (tables_of s)) else Inl RepoInternal, s\<lparr>queries := queries s + 1\<rparr>)"

text \<open>A statement that writes; \<open>ok\<close> is the constraint the tables declare for it.\<close>

definition execute :: "db_env \<Rightarrow> (tables \<Rightarrow> bool) \<Rightarrow> (tables \<Rightarrow> tables) \<Rightarrow> unit repo" where
  "execute env ok f s =
     (if up env (queries s) \<and> ok (tables_of s) then (Inr (), s\<lparr>tables_of := f (tables_of s), queries := queries s + 1\<rparr>)
      else (Inl RepoInternal, s\<lparr>queries := queries s + 1\<rparr>))"

definition draw_id :: "db_env \<Rightarrow> uuid repo" where
  "draw_id env s = (Inr (new_id env (uuids s)), s\<lparr>uuids := uuids s + 1\<rparr>)"

definition rollback :: "db \<Rightarrow> db \<Rightarrow> db" where
  "rollback s t = t\<lparr>tables_of := tables_of s\<rparr>"

definition transaction :: "db_env \<Rightarrow> 'a repo \<Rightarrow> 'a repo" where
  "transaction env body s =
     (case query env (\<lambda>_. ()) s of
        (Inl e, s1) \<Rightarrow> (Inl e, s1)
      | (Inr _, s1) \<Rightarrow>
          (case body s1 of
             (Inl e, s2) \<Rightarrow> (Inl e, rollback s1 s2)
           | (Inr x, s2) \<Rightarrow>
               (case query env (\<lambda>_. ()) s2 of
                  (Inl e, s3) \<Rightarrow> (Inl e, rollback s1 s3)
                | (Inr _, s3) \<Rightarrow> (Inr x, s3))))"

text \<open>\<open>find_by_id(id).filter(deleted_at is null).one().ok_or(NotFound)\<close>.\<close>

definition find_problem :: "db_env \<Rightarrow> uuid \<Rightarrow> problem_row repo" where
  "find_problem env pid =
     and_then (query env (\<lambda>t. List.find (\<lambda>p. problem_id p = pid \<and> problem_deleted_at p = None) (problems t)))
       (\<lambda>r. case r of None \<Rightarrow> fail RepoNotFound | Some p \<Rightarrow> ret p)"

subsection \<open>Problems\<close>

record problem_limit =
  cpu_time_ms :: u64
  wall_time_ms :: u64
  memory_bytes :: u64
  output_bytes :: u64

record create_request =
  create_title :: string
  create_description :: string
  create_difficulty :: difficulty
  create_limit :: problem_limit
  create_tags :: "uuid list"

record update_limit =
  new_cpu_time_ms :: "u64 option"
  new_wall_time_ms :: "u64 option"
  new_memory_bytes :: "u64 option"
  new_output_bytes :: "u64 option"

record update_request =
  new_title :: "string option"
  new_description :: "string option"
  new_difficulty :: "difficulty option"
  new_limit :: "update_limit option"
  new_tags :: "uuid list option"

record problem_detail =
  detail_id :: uuid
  detail_author :: uuid
  detail_title :: string
  detail_description :: string
  detail_difficulty :: difficulty
  detail_tags :: "uuid list"
  detail_created_at :: u64
  detail_updated_at :: u64
  detail_limit :: problem_limit

definition insert_problem :: "db_env \<Rightarrow> problem_row \<Rightarrow> unit repo" where
  "insert_problem env p =
     execute env (\<lambda>t. problem_id p \<notin> set (map problem_id (problems t))) (\<lambda>t. t\<lparr>problems := problems t @ [p]\<rparr>)"

definition insert_tag :: "db_env \<Rightarrow> uuid \<Rightarrow> uuid \<Rightarrow> unit repo" where
  "insert_tag env pid tag =
     execute env (\<lambda>t. (pid, tag) \<notin> set (problems_tags t) \<and> pid \<in> set (map problem_id (problems t)))
       (\<lambda>t. t\<lparr>problems_tags := problems_tags t @ [(pid, tag)]\<rparr>)"

fun insert_tags :: "db_env \<Rightarrow> uuid \<Rightarrow> uuid list \<Rightarrow> unit repo" where
  "insert_tags env pid [] = ret ()"
| "insert_tags env pid (tag # tags) = and_then (insert_tag env pid tag) (\<lambda>_. insert_tags env pid tags)"

definition new_problem :: "db_env \<Rightarrow> uuid \<Rightarrow> uuid \<Rightarrow> create_request \<Rightarrow> problem_row" where
  "new_problem env pid author req =
     \<lparr>problem_id = pid, problem_title = create_title req, problem_description = create_description req,
      problem_difficulty = create_difficulty req, problem_author = author, problem_created_at = utc_now env,
      problem_updated_at = utc_now env, problem_deleted_at = None,
      problem_cpu_time_ms = cpu_time_ms (create_limit req), problem_wall_time_ms = wall_time_ms (create_limit req),
      problem_memory_bytes = memory_bytes (create_limit req), problem_output_bytes = output_bytes (create_limit req)\<rparr>"

definition problems_create :: "db_env \<Rightarrow> create_request \<Rightarrow> uuid \<Rightarrow> uuid repo" where
  "problems_create env req author =
     and_then (draw_id env) (\<lambda>pid.
       transaction env
         (and_then (insert_problem env (new_problem env pid author req)) (\<lambda>_.
          and_then (insert_tags env pid (create_tags req)) (\<lambda>_.
          ret pid))))"

definition problems_stat :: "db_env \<Rightarrow> nat repo" where
  "problems_stat env = query env (\<lambda>t. length (filter (\<lambda>p. problem_deleted_at p = None) (problems t)))"

definition tags_of_problem :: "uuid \<Rightarrow> tables \<Rightarrow> uuid list" where
  "tags_of_problem pid t = map snd (filter (\<lambda>pt. fst pt = pid) (problems_tags t))"

definition problems_get :: "db_env \<Rightarrow> uuid \<Rightarrow> problem_detail repo" where
  "problems_get env pid =
     and_then (find_problem env pid) (\<lambda>p.
     and_then (query env (tags_of_problem pid)) (\<lambda>tags.
       ret \<lparr>detail_id = problem_id p, detail_author = problem_author p, detail_title = problem_title p,
            detail_description = problem_description p, detail_difficulty = problem_difficulty p, detail_tags = tags,
            detail_created_at = problem_created_at p, detail_updated_at = problem_updated_at p,
            detail_limit = \<lparr>cpu_time_ms = problem_cpu_time_ms p, wall_time_ms = problem_wall_time_ms p,
                            memory_bytes = problem_memory_bytes p, output_bytes = problem_output_bytes p\<rparr>\<rparr>))"

definition or_keep :: "'a option \<Rightarrow> 'a \<Rightarrow> 'a" where
  "or_keep new old = (case new of Some x \<Rightarrow> x | None \<Rightarrow> old)"

definition apply_limit :: "update_limit option \<Rightarrow> problem_row \<Rightarrow> problem_row" where
  "apply_limit l p =
     (case l of
        None \<Rightarrow> p
      | Some l \<Rightarrow>
          p\<lparr>problem_cpu_time_ms := or_keep (new_cpu_time_ms l) (problem_cpu_time_ms p),
            problem_wall_time_ms := or_keep (new_wall_time_ms l) (problem_wall_time_ms p),
            problem_memory_bytes := or_keep (new_memory_bytes l) (problem_memory_bytes p),
            problem_output_bytes := or_keep (new_output_bytes l) (problem_output_bytes p)\<rparr>)"

definition apply_update :: "db_env \<Rightarrow> update_request \<Rightarrow> problem_row \<Rightarrow> problem_row" where
  "apply_update env req p =
     apply_limit (new_limit req)
       (p\<lparr>problem_updated_at := utc_now env, problem_title := or_keep (new_title req) (problem_title p),
          problem_description := or_keep (new_description req) (problem_description p),
          problem_difficulty := or_keep (new_difficulty req) (problem_difficulty p)\<rparr>)"

text \<open>Saving a model writes its row; \<open>before_save\<close> sets the time of the update.\<close>

definition save_problem :: "db_env \<Rightarrow> problem_row \<Rightarrow> unit repo" where
  "save_problem env p =
     (let p' = p\<lparr>problem_updated_at := utc_now env\<rparr> in
      execute env (\<lambda>t. problem_id p \<in> set (map problem_id (problems t)))
        (\<lambda>t. t\<lparr>problems := map (\<lambda>q. if problem_id q = problem_id p then p' else q) (problems t)\<rparr>))"

definition delete_tags :: "db_env \<Rightarrow> uuid \<Rightarrow> unit repo" where
  "delete_tags env pid =
     execute env (\<lambda>_. True) (\<lambda>t. t\<lparr>problems_tags := filter (\<lambda>pt. fst pt \<noteq> pid) (problems_tags t)\<rparr>)"

definition update_problem :: "db_env \<Rightarrow> uuid \<Rightarrow> uuid \<Rightarrow> update_request \<Rightarrow> unit repo" where
  "update_problem env pid author req =
     and_then (find_problem env pid) (\<lambda>p.
       if problem_author p \<noteq> author then fail RepoForbidden
       else
         transaction env
           (and_then
              (case new_tags req of
                 None \<Rightarrow> ret ()
               | Some tags \<Rightarrow> and_then (delete_tags env pid) (\<lambda>_. insert_tags env pid tags))
              (\<lambda>_. save_problem env (apply_update env req p))))"

definition problems_delete :: "db_env \<Rightarrow> uuid \<Rightarrow> uuid \<Rightarrow> unit repo" where
  "problems_delete env pid author =
     and_then (find_problem env pid) (\<lambda>p.
       if problem_author p \<noteq> author then fail RepoForbidden
       else save_problem env (p\<lparr>problem_deleted_at := Some (utc_now env)\<rparr>))"

subsection \<open>Test cases\<close>

record case_input_request =
  input_text :: string
  output_text :: string
  input_case_type :: case_type

definition test_cases_get :: "db_env \<Rightarrow> uuid \<Rightarrow> uuid \<Rightarrow> case_row list repo" where
  "test_cases_get env pid user =
     and_then (find_problem env pid) (\<lambda>p.
       let is_author = (problem_author p = user) in
       query env (\<lambda>t. filter (\<lambda>c. case_problem c = pid \<and> (is_author \<or> row_case_type c = ExampleCase)) (test_cases t)))"

definition insert_case :: "db_env \<Rightarrow> case_row \<Rightarrow> unit repo" where
  "insert_case env c =
     execute env (\<lambda>t. case_id c \<notin> set (map case_id (test_cases t)) \<and> case_problem c \<in> set (map problem_id (problems t)))
       (\<lambda>t. t\<lparr>test_cases := test_cases t @ [c]\<rparr>)"

fun insert_cases :: "db_env \<Rightarrow> uuid \<Rightarrow> case_input_request list \<Rightarrow> unit repo" where
  "insert_cases env pid [] = ret ()"
| "insert_cases env pid (c # cs) =
     and_then (draw_id env) (\<lambda>cid.
     and_then (insert_case env \<lparr>case_id = cid, case_problem = pid, row_input = input_text c, row_output = output_text c,
                                row_case_type = input_case_type c\<rparr>) (\<lambda>_.
     insert_cases env pid cs))"

definition test_cases_replace :: "db_env \<Rightarrow> uuid \<Rightarrow> case_input_request list \<Rightarrow> unit repo" where
  "test_cases_replace env pid cases =
     and_then (find_problem env pid) (\<lambda>_.
       transaction env
         (and_then (execute env (\<lambda>_. True) (\<lambda>t. t\<lparr>test_cases := filter (\<lambda>c. case_problem c \<noteq> pid) (test_cases t)\<rparr>))
            (\<lambda>_. insert_cases env pid cases)))"

subsection \<open>The HTTP handlers\<close>

text \<open>The problem router (\<open>api_server/src/routers/problems.rs\<close>): a status with its body or an error status.\<close>

fun problem_api_status :: "repo_error \<Rightarrow> nat" where
  "problem_api_status RepoNotFound = 404"
| "problem_api_status RepoForbidden = 403"
| "problem_api_status RepoInternal = 500"

definition respond :: "nat \<Rightarrow> 'a repo \<Rightarrow> db \<Rightarrow> (nat + nat \<times> 'a) \<times> db" where
  "respond status m s = (case m s of (Inl e, t) \<Rightarrow> (Inl (problem_api_status e), t) | (Inr x, t) \<Rightarrow> (Inr (status, x), t))"

definition create_problem_handler :: "db_env \<Rightarrow> uuid \<Rightarrow> create_request \<Rightarrow> db \<Rightarrow> (nat + nat \<times> uuid) \<times> db" where
  "create_problem_handler env user req = respond 201 (problems_create env req user)"

definition get_stat_handler :: "db_env \<Rightarrow> db \<Rightarrow> (nat + nat \<times> nat) \<times> db" where
  "get_stat_handler env = respond 200 (problems_stat env)"

definition get_problem_handler :: "db_env \<Rightarrow> uuid \<Rightarrow> db \<Rightarrow> (nat + nat \<times> problem_detail) \<times> db" where
  "get_problem_handler env pid = respond 200 (problems_get env pid)"

definition update_problem_handler :: "db_env \<Rightarrow> uuid \<Rightarrow> uuid \<Rightarrow> update_request \<Rightarrow> db \<Rightarrow> (nat + nat \<times> unit) \<times> db" where
  "update_problem_handler env user pid req = respond 204 (update_problem env pid user req)"

definition delete_problem_handler :: "db_env \<Rightarrow> uuid \<Rightarrow> uuid \<Rightarrow> db \<Rightarrow> (nat + nat \<times> unit) \<times> db" where
  "delete_problem_handler env user pid = respond 204 (problems_delete env pid user)"

definition get_test_cases_handler :: "db_env \<Rightarrow> uuid \<Rightarrow> uuid \<Rightarrow> db \<Rightarrow> (nat + nat \<times> case_row list) \<times> db" where
  "get_test_cases_handler env user pid = respond 200 (test_cases_get env pid user)"

definition replace_test_cases_handler ::
  "db_env \<Rightarrow> uuid \<Rightarrow> uuid \<Rightarrow> case_input_request list \<Rightarrow> db \<Rightarrow> (nat + nat \<times> unit) \<times> db" where
  "replace_test_cases_handler env user pid cases =
     respond 204
       (and_then (problems_get env pid) (\<lambda>problem.
          if detail_author problem \<noteq> user then fail RepoForbidden
          else test_cases_replace env pid cases))"

subsection \<open>Listing problems\<close>

record list_queries =
  q_limit :: "u64 option"
  q_page :: "u64 option"
  q_query :: "string option"
  q_difficulty :: "difficulty option"
  q_tag :: "uuid list option"

record list_item =
  item_id :: uuid
  item_title :: string
  item_difficulty :: difficulty
  item_tags :: "uuid list"

record list_response =
  list_problems :: "list_item list"
  list_total :: nat

definition page_limit :: "list_queries \<Rightarrow> u64" where
  "page_limit q = min (case q_limit q of Some l \<Rightarrow> l | None \<Rightarrow> 20) 100"

definition page_number :: "list_queries \<Rightarrow> u64" where
  "page_number q = (case q_page q of Some p \<Rightarrow> p | None \<Rightarrow> 0)"

text \<open>The grouped query: the problems with as many rows for the given tags as there are tags given.\<close>

definition tag_filtered :: "uuid list \<Rightarrow> tables \<Rightarrow> uuid list" where
  "tag_filtered tags t =
     (let rows = filter (\<lambda>pt. snd pt \<in> set tags) (problems_tags t) in
      filter (\<lambda>pid. length (filter (\<lambda>pt. fst pt = pid) rows) = length tags) (remdups (map fst rows)))"

text \<open>\<open>contains\<close> is the match of a title against the search text; \<open>order\<close> is the order in which the database
  reads the rows, a permutation that may be another one for every query: rows that were created at the same time
  stay in it.\<close>

definition ordered_by_creation :: "(problem_row list \<Rightarrow> problem_row list) \<Rightarrow> problem_row list \<Rightarrow> problem_row list" where
  "ordered_by_creation order ps = sort_key problem_created_at (order ps)"

definition selected ::
  "(string \<Rightarrow> string \<Rightarrow> bool) \<Rightarrow> list_queries \<Rightarrow> uuid list option \<Rightarrow> tables \<Rightarrow> problem_row list" where
  "selected contains q ids t =
     filter (\<lambda>p. problem_deleted_at p = None \<and>
               (case q_query q of Some text \<Rightarrow> contains (problem_title p) text | None \<Rightarrow> True) \<and>
               (case q_difficulty q of Some d \<Rightarrow> problem_difficulty p = d | None \<Rightarrow> True) \<and>
               (case ids of Some is \<Rightarrow> problem_id p \<in> set is | None \<Rightarrow> True))
       (problems t)"

definition list_item_of :: "(uuid \<times> uuid) list \<Rightarrow> problem_row \<Rightarrow> list_item" where
  "list_item_of tag_rows p =
     \<lparr>item_id = problem_id p, item_title = problem_title p, item_difficulty = problem_difficulty p,
      item_tags = map snd (filter (\<lambda>pt. fst pt = problem_id p) tag_rows)\<rparr>"

definition problems_list ::
  "db_env \<Rightarrow> (string \<Rightarrow> string \<Rightarrow> bool) \<Rightarrow> (problem_row list \<Rightarrow> problem_row list) \<Rightarrow> list_queries \<Rightarrow> list_response repo" where
  "problems_list env contains order q =
     (let limit = page_limit q; page = page_number q in
      and_then
        (case q_tag q of
           None \<Rightarrow> ret None
         | Some tags \<Rightarrow> if tags = [] then ret None else and_then (query env (tag_filtered tags)) (\<lambda>ids. ret (Some ids)))
        (\<lambda>ids.
          if ids = Some [] then ret \<lparr>list_problems = [], list_total = 0\<rparr>
          else
            and_then (query env (\<lambda>t. length (selected contains q ids t))) (\<lambda>total.
            and_then (query env (\<lambda>t. take (unat limit) (drop (unat (page * limit)) (ordered_by_creation order (selected contains q ids t))))) (\<lambda>models.
            and_then
              (if models = [] then ret []
               else query env (\<lambda>t. filter (\<lambda>pt. fst pt \<in> set (map problem_id models)) (problems_tags t)))
              (\<lambda>tag_rows. ret \<lparr>list_problems = map (list_item_of tag_rows) models, list_total = total\<rparr>)))))"

definition list_problems_handler ::
  "db_env \<Rightarrow> (string \<Rightarrow> string \<Rightarrow> bool) \<Rightarrow> (problem_row list \<Rightarrow> problem_row list) \<Rightarrow> list_queries \<Rightarrow> db \<Rightarrow>
     (nat + nat \<times> list_response) \<times> db" where
  "list_problems_handler env contains order q = respond 200 (problems_list env contains order q)"

text \<open>The \<open>tag\<close> parameter: identifiers separated by commas, blanks around them and empty ones ignored.\<close>

fun split_comma :: "string \<Rightarrow> string list" where
  "split_comma [] = [[]]"
| "split_comma (c # cs) =
     (if c = CHR '','' then [] # split_comma cs
      else (case split_comma cs of [] \<Rightarrow> [[c]] | w # ws \<Rightarrow> (c # w) # ws))"

fun collect_uuids :: "(string \<Rightarrow> uuid option) \<Rightarrow> string list \<Rightarrow> uuid list option" where
  "collect_uuids parse [] = Some []"
| "collect_uuids parse (w # ws) =
     (case parse w of
        None \<Rightarrow> None
      | Some u \<Rightarrow> (case collect_uuids parse ws of None \<Rightarrow> None | Some us \<Rightarrow> Some (u # us)))"

definition visit_str :: "(string \<Rightarrow> uuid option) \<Rightarrow> (string \<Rightarrow> string) \<Rightarrow> string \<Rightarrow> uuid list option option" where
  "visit_str parse trim v =
     map_option (\<lambda>us. if us = [] then None else Some us)
       (collect_uuids parse (filter (\<lambda>w. w \<noteq> []) (map trim (split_comma v))))"

definition visit_seq :: "(string \<Rightarrow> uuid option) \<Rightarrow> string list \<Rightarrow> uuid list option option" where
  "visit_seq parse vals =
     map_option (\<lambda>us. if us = [] then None else Some us) (collect_uuids parse (filter (\<lambda>w. w \<noteq> []) vals))"

subsection \<open>Operations that only read, and operations that fail without effect\<close>

named_theorems repo_rules

definition only_reads :: "'a repo \<Rightarrow> bool" where
  "only_reads m \<longleftrightarrow> (\<forall>s. tables_of (snd (m s)) = tables_of s)"

definition all_or_nothing :: "'a repo \<Rightarrow> bool" where
  "all_or_nothing m \<longleftrightarrow> (\<forall>s e t. m s = (Inl e, t) \<longrightarrow> tables_of t = tables_of s)"

definition keeps :: "(tables \<Rightarrow> bool) \<Rightarrow> 'a repo \<Rightarrow> bool" where
  "keeps I m \<longleftrightarrow> (\<forall>s. I (tables_of s) \<longrightarrow> I (tables_of (snd (m s))))"

lemma only_readsD: "only_reads m \<Longrightarrow> m s = (r, t) \<Longrightarrow> tables_of t = tables_of s"
  unfolding only_reads_def by (metis snd_conv)

lemma only_reads_basic [repo_rules]:
  "only_reads (ret x)" "only_reads (fail e)" "only_reads (query env q)" "only_reads (draw_id env)"
  by (simp_all add: only_reads_def ret_def fail_def query_def draw_id_def)

lemma only_reads_and_then [repo_rules]:
  "only_reads m \<Longrightarrow> (\<And>x. only_reads (f x)) \<Longrightarrow> only_reads (and_then m f)"
  by (auto simp: only_reads_def and_then_def split: prod.splits sum.splits) (metis snd_conv)+

lemma only_reads_find [repo_rules]: "only_reads (find_problem env pid)"
  unfolding find_problem_def by (intro repo_rules) (simp add: only_reads_basic split: option.split)

lemma all_or_nothing_reads: "only_reads m \<Longrightarrow> all_or_nothing m"
  by (auto simp: all_or_nothing_def dest: only_readsD)

lemma all_or_nothing_execute [repo_rules]: "all_or_nothing (execute env ok f)"
  by (simp add: all_or_nothing_def execute_def)

lemma all_or_nothing_transaction [repo_rules]: "all_or_nothing (transaction env body)"
  by (auto simp: all_or_nothing_def transaction_def rollback_def query_def split: prod.splits sum.splits)

lemma all_or_nothing_and_then:
  assumes "only_reads m" and "\<And>x. all_or_nothing (f x)"
  shows "all_or_nothing (and_then m f)"
  unfolding all_or_nothing_def
proof (intro allI impI)
  fix s e t assume "and_then m f s = (Inl e, t)"
  then show "tables_of t = tables_of s"
    using assms by (cases "m s") (auto simp: and_then_def all_or_nothing_def dest: only_readsD split: sum.splits)
qed

lemma keeps_reads: "only_reads m \<Longrightarrow> keeps I m"
  by (simp add: only_reads_def keeps_def)

lemma keeps_and_then: "keeps I m \<Longrightarrow> (\<And>x. keeps I (f x)) \<Longrightarrow> keeps I (and_then m f)"
  by (auto simp: keeps_def and_then_def split: prod.splits sum.splits)

lemma keeps_transaction: "keeps I body \<Longrightarrow> keeps I (transaction env body)"
proof (unfold keeps_def, intro allI impI)
  fix s :: db assume body: "\<forall>s. I (tables_of s) \<longrightarrow> I (tables_of (snd (body s)))" and I: "I (tables_of s)"
  let ?s1 = "s\<lparr>queries := queries s + 1\<rparr>"
  from body I have "I (tables_of (snd (body ?s1)))" by simp
  with I show "I (tables_of (snd (transaction env body s)))"
    by (auto simp: transaction_def query_def rollback_def split: prod.splits sum.splits)
qed

lemma keeps_execute: "(\<And>t. I t \<Longrightarrow> ok t \<Longrightarrow> I (f t)) \<Longrightarrow> keeps I (execute env ok f)"
  by (simp add: keeps_def execute_def)

lemma respond_tables [simp]: "tables_of (snd (respond status m s)) = tables_of (snd (m s))"
  by (simp add: respond_def split: prod.splits sum.splits)

lemma respond_Inl: "respond status m s = (Inl code, t) \<longleftrightarrow> (\<exists>e. m s = (Inl e, t) \<and> code = problem_api_status e)"
  by (auto simp: respond_def split: prod.splits sum.splits)

subsection \<open>The invariant of the tables\<close>

text \<open>Primary keys are unique and every reference to a problem is to a row of the table.  The references to tags
  (\<open>problems_tags.tag_id\<close>) and to users (\<open>author_id\<close>, \<open>user_id\<close>) point to tables which none of these operations reads or
  writes and which are not part of the state: a statement that the database refuses because such a row is missing is a
  query that fails, which the environment decides like any other failure of a query.\<close>

definition problem_ids :: "tables \<Rightarrow> uuid set" where
  "problem_ids t = set (map problem_id (problems t))"

definition tables_wf :: "tables \<Rightarrow> bool" where
  "tables_wf t \<longleftrightarrow>
     distinct (map problem_id (problems t)) \<and> distinct (problems_tags t) \<and> distinct (map case_id (test_cases t)) \<and>
     distinct (map submission_id (submissions t)) \<and>
     fst ` set (problems_tags t) \<subseteq> problem_ids t \<and>
     case_problem ` set (test_cases t) \<subseteq> problem_ids t \<and>
     submission_problem ` set (submissions t) \<subseteq> problem_ids t"

lemmas tables_wf_defs = tables_wf_def problem_ids_def

lemma keeps_insert_problem: "keeps tables_wf (insert_problem env p)"
  unfolding insert_problem_def by (rule keeps_execute) (auto simp: tables_wf_defs)

lemma keeps_insert_tags: "keeps tables_wf (insert_tags env pid tags)"
proof (induction tags)
  case Nil
  then show ?case by (simp add: keeps_reads only_reads_basic)
next
  case (Cons tag tags)
  have "keeps tables_wf (insert_tag env pid tag)"
    unfolding insert_tag_def by (rule keeps_execute) (auto simp: tables_wf_defs)
  with Cons show ?case by (simp add: keeps_and_then)
qed

lemma keeps_delete_tags: "keeps tables_wf (delete_tags env pid)"
  unfolding delete_tags_def by (rule keeps_execute) (auto simp: tables_wf_defs)

lemma save_ids: "map problem_id (map (\<lambda>q. if problem_id q = problem_id p then p\<lparr>problem_updated_at := n\<rparr> else q) ps) = map problem_id ps"
  by (induction ps) auto

lemma keeps_save_problem: "keeps tables_wf (save_problem env p)"
  unfolding save_problem_def Let_def
  by (intro keeps_execute) (simp add: tables_wf_def problem_ids_def save_ids del: map_map set_map list.set_map)

lemma keeps_insert_cases: "keeps tables_wf (insert_cases env pid cs)"
proof (induction cs)
  case Nil
  then show ?case by (simp add: keeps_reads only_reads_basic)
next
  case (Cons c cs)
  have "keeps tables_wf (insert_case env r)" for r
    unfolding insert_case_def by (rule keeps_execute) (auto simp: tables_wf_defs)
  with Cons show ?case by (simp add: keeps_and_then keeps_reads only_reads_basic)
qed

lemma keeps_delete_cases: "keeps tables_wf (execute env (\<lambda>_. True) (\<lambda>t. t\<lparr>test_cases := filter (\<lambda>c. case_problem c \<noteq> pid) (test_cases t)\<rparr>))"
  by (rule keeps_execute) (auto simp: tables_wf_defs distinct_map_filter)

lemmas keeps_rules =
  keeps_and_then keeps_transaction keeps_insert_problem keeps_insert_tags keeps_delete_tags keeps_save_problem
  keeps_insert_cases keeps_delete_cases keeps_reads [OF only_reads_find] keeps_reads [OF only_reads_basic(1)]
  keeps_reads [OF only_reads_basic(2)] keeps_reads [OF only_reads_basic(3)] keeps_reads [OF only_reads_basic(4)]

lemma keeps_problem_operations:
  "keeps tables_wf (problems_create env req author)"
  "keeps tables_wf (update_problem env pid author upd)"
  "keeps tables_wf (problems_delete env pid author)"
  "keeps tables_wf (test_cases_replace env pid cases)"
  unfolding problems_create_def update_problem_def problems_delete_def test_cases_replace_def
  by (intro keeps_rules; simp add: keeps_rules split: option.split)+

lemma only_reads_operations [repo_rules]:
  "only_reads (problems_get env pid)" "only_reads (test_cases_get env pid user)" "only_reads (problems_stat env)"
  "only_reads (problems_list env contains order q)"
  unfolding problems_get_def test_cases_get_def problems_stat_def problems_list_def Let_def
  by (intro repo_rules | simp add: repo_rules split: option.split)+

lemma all_or_nothing_operations:
  "all_or_nothing (problems_create env req author)"
  "all_or_nothing (update_problem env pid author upd)"
  "all_or_nothing (problems_delete env pid author)"
  "all_or_nothing (test_cases_replace env pid cases)"
  unfolding problems_create_def update_problem_def problems_delete_def test_cases_replace_def save_problem_def Let_def
  by (intro all_or_nothing_and_then repo_rules;
      simp add: repo_rules all_or_nothing_reads)+

end
