(* ===== verification/Problems_Api.thy ===== *)
theory Problems_Api
  imports Problems_Db
begin

text \<open>
  What the problem API promises: requests that fail change nothing, a problem changes only through its
  author, hidden test cases are not listed to others, pages partition the listing, and the tag filter asks
  for all tags.
\<close>

text \<open>The routes that answer with a status and those that answer with data (\<open>routers/problems.rs\<close>).\<close>

datatype api_request =
    ListProblems list_queries
  | CreateProblem create_request
  | GetStat
  | GetProblem uuid
  | UpdateProblem uuid update_request
  | DeleteProblem uuid
  | GetTestCases uuid
  | ReplaceTestCases uuid "case_input_request list"

definition status_of :: "(nat + nat \<times> 'a) \<times> db \<Rightarrow> (nat + nat) \<times> db" where
  "status_of r = (map_sum id fst (fst r), snd r)"

fun problem_api ::
  "db_env \<Rightarrow> (string \<Rightarrow> string \<Rightarrow> bool) \<Rightarrow> (problem_row list \<Rightarrow> problem_row list) \<Rightarrow> uuid \<Rightarrow> api_request \<Rightarrow> db \<Rightarrow> (nat + nat) \<times> db"
where
  "problem_api env contains order user (ListProblems q) s = status_of (list_problems_handler env contains order q s)"
| "problem_api env contains order user (CreateProblem req) s = status_of (create_problem_handler env user req s)"
| "problem_api env contains order user GetStat s = status_of (get_stat_handler env s)"
| "problem_api env contains order user (GetProblem pid) s = status_of (get_problem_handler env pid s)"
| "problem_api env contains order user (UpdateProblem pid req) s = status_of (update_problem_handler env user pid req s)"
| "problem_api env contains order user (DeleteProblem pid) s = status_of (delete_problem_handler env user pid s)"
| "problem_api env contains order user (GetTestCases pid) s = status_of (get_test_cases_handler env user pid s)"
| "problem_api env contains order user (ReplaceTestCases pid cases) s = status_of (replace_test_cases_handler env user pid cases s)"

lemmas handler_defs =
  list_problems_handler_def create_problem_handler_def get_stat_handler_def get_problem_handler_def update_problem_handler_def
  delete_problem_handler_def get_test_cases_handler_def replace_test_cases_handler_def

lemma status_of_respond: "status_of (respond status m s) = (case m s of (Inl e, t) \<Rightarrow> (Inl (problem_api_status e), t) | (Inr x, t) \<Rightarrow> (Inr status, t))"
  by (simp add: status_of_def respond_def split: prod.splits sum.splits)

lemma replace_body_rules:
  "all_or_nothing (and_then (problems_get env pid) (\<lambda>problem. if detail_author problem \<noteq> user then fail RepoForbidden else test_cases_replace env pid cases))"
  "keeps tables_wf (and_then (problems_get env pid) (\<lambda>problem. if detail_author problem \<noteq> user then fail RepoForbidden else test_cases_replace env pid cases))"
proof -
  show "all_or_nothing (and_then (problems_get env pid) (\<lambda>problem. if detail_author problem \<noteq> user then fail RepoForbidden else test_cases_replace env pid cases))"
    by (rule all_or_nothing_and_then) (simp_all add: all_or_nothing_reads repo_rules all_or_nothing_operations)
  show "keeps tables_wf (and_then (problems_get env pid) (\<lambda>problem. if detail_author problem \<noteq> user then fail RepoForbidden else test_cases_replace env pid cases))"
    by (rule keeps_and_then) (simp_all add: keeps_reads repo_rules keeps_problem_operations)
qed

subsection \<open>A problem belongs to its author\<close>

text \<open>Everything the tables hold about one problem.\<close>

definition problem_view :: "uuid \<Rightarrow> tables \<Rightarrow> problem_row list \<times> uuid list \<times> case_row list" where
  "problem_view pid t =
     (filter (\<lambda>p. problem_id p = pid) (problems t), tags_of_problem pid t, filter (\<lambda>c. case_problem c = pid) (test_cases t))"

text \<open>Statements about another problem leave the view alone.\<close>

definition frame :: "uuid \<Rightarrow> problem_row list \<times> uuid list \<times> case_row list \<Rightarrow> tables \<Rightarrow> bool" where
  "frame pid v t \<longleftrightarrow> pid \<in> problem_ids t \<and> problem_view pid t = v"

lemmas frame_defs = frame_def problem_view_def tags_of_problem_def problem_ids_def

lemma filter_other [simp]: "pid' \<noteq> pid \<Longrightarrow> filter (\<lambda>x. f x \<noteq> pid' \<and> f x = pid) xs = filter (\<lambda>x. f x = pid) xs"
  by (auto intro: filter_cong)

lemma frame_insert_problem: "problem_id p \<noteq> pid \<Longrightarrow> keeps (frame pid v) (insert_problem env p)"
  unfolding insert_problem_def by (rule keeps_execute) (auto simp: frame_defs)

lemma frame_insert_tags: "pid' \<noteq> pid \<Longrightarrow> keeps (frame pid v) (insert_tags env pid' tags)"
proof (induction tags)
  case Nil
  then show ?case by (simp add: keeps_reads only_reads_basic)
next
  case (Cons tag tags)
  have "keeps (frame pid v) (insert_tag env pid' tag)"
    unfolding insert_tag_def by (rule keeps_execute) (auto simp: frame_defs Cons.prems)
  with Cons show ?case by (simp add: keeps_and_then)
qed

lemma frame_delete_tags: "pid' \<noteq> pid \<Longrightarrow> keeps (frame pid v) (delete_tags env pid')"
  unfolding delete_tags_def
  by (rule keeps_execute) (simp add: frame_defs)

lemma filter_save:
  "problem_id p \<noteq> pid \<Longrightarrow> problem_id p' = problem_id p \<Longrightarrow>
     filter (\<lambda>q. problem_id q = pid) (map (\<lambda>q. if problem_id q = problem_id p then p' else q) ps) = filter (\<lambda>q. problem_id q = pid) ps"
  by (induction ps) auto

lemma frame_save_problem: "problem_id p \<noteq> pid \<Longrightarrow> keeps (frame pid v) (save_problem env p)"
  unfolding save_problem_def Let_def
  by (rule keeps_execute)
     (simp add: frame_def problem_view_def tags_of_problem_def problem_ids_def filter_save save_ids del: map_map set_map list.set_map)

lemma frame_insert_cases: "pid' \<noteq> pid \<Longrightarrow> keeps (frame pid v) (insert_cases env pid' cs)"
proof (induction cs)
  case Nil
  then show ?case by (simp add: keeps_reads only_reads_basic)
next
  case (Cons c cs)
  have "case_problem r = pid' \<Longrightarrow> keeps (frame pid v) (insert_case env r)" for r
    unfolding insert_case_def by (rule keeps_execute) (auto simp: frame_defs Cons.prems)
  with Cons show ?case by (simp add: keeps_and_then keeps_reads only_reads_basic)
qed

lemma frame_delete_cases:
  "pid' \<noteq> pid \<Longrightarrow> keeps (frame pid v) (execute env (\<lambda>_. True) (\<lambda>t. t\<lparr>test_cases := filter (\<lambda>c. case_problem c \<noteq> pid') (test_cases t)\<rparr>))"
  by (rule keeps_execute) (simp add: frame_defs)

text \<open>A creation cannot hit an existing row: its identifier would have to be new.\<close>

lemma keeps_blocked: "(\<And>t. I t \<Longrightarrow> \<not> ok t) \<Longrightarrow> keeps I (and_then (execute env ok f) g)"
  by (auto simp: keeps_def and_then_def execute_def)

lemma frame_create: "keeps (frame pid v) (problems_create env req author)"
proof -
  have "keeps (frame pid v) (and_then (insert_problem env (new_problem env pid' author req)) (\<lambda>_. and_then (insert_tags env pid' tags) (\<lambda>_. ret pid')))" for pid' tags
  proof (cases "pid' = pid")
    case True
    then show ?thesis unfolding insert_problem_def by (intro keeps_blocked) (auto simp: frame_def problem_ids_def new_problem_def)
  next
    case False
    then show ?thesis
      by (intro keeps_and_then frame_insert_problem frame_insert_tags keeps_reads only_reads_basic) (simp_all add: new_problem_def)
  qed
  then show ?thesis
    unfolding problems_create_def by (rule keeps_and_then [OF keeps_reads [OF only_reads_basic(4)] keeps_transaction])
qed

text \<open>An operation guarded by the author check on the problem itself.\<close>

lemma find_problem_view:
  assumes "tables_wf (tables_of s)" and "p \<in> set (problems (tables_of s))" and "find_problem env (problem_id p) s = (Inr q, t)"
  shows "q = p"
proof -
  from assms(3) have "List.find (\<lambda>r. problem_id r = problem_id p \<and> problem_deleted_at r = None) (problems (tables_of s)) = Some q"
    by (auto simp: find_problem_def and_then_def query_def ret_def fail_def split: if_splits option.splits)
  from find_Some_split [OF this] show ?thesis
    using assms(1,2) distinct_map_eq_D [of problem_id "problems (tables_of s)" q p] by (auto simp: tables_wf_def)
qed

lemma frame_guarded:
  assumes wf: "tables_wf (tables_of s)" and p: "p \<in> set (problems (tables_of s))" and u: "problem_author p \<noteq> user"
    and other: "pid' \<noteq> problem_id p \<Longrightarrow> \<forall>q. problem_id q = pid' \<longrightarrow> keeps (frame (problem_id p) v) (m q)"
    and v: "frame (problem_id p) v (tables_of s)"
  shows "frame (problem_id p) v (tables_of (snd (and_then (find_problem env pid') (\<lambda>q. if problem_author q \<noteq> user then fail RepoForbidden else m q) s)))"
proof (cases "find_problem env pid' s")
  case (Pair r t)
  have t: "tables_of t = tables_of s" using only_readsD [OF only_reads_find Pair] .
  show ?thesis
  proof (cases r)
    case (Inl e)
    with Pair t v show ?thesis by (simp add: and_then_def)
  next
    case (Inr q)
    show ?thesis
    proof (cases "pid' = problem_id p")
      case True
      with find_problem_view [OF wf p] Pair Inr have "q = p" by simp
      with u Pair Inr t v show ?thesis by (simp add: and_then_def fail_def)
    next
      case False
      have "problem_id q = pid'" using Pair Inr
        by (auto simp: find_problem_def and_then_def query_def ret_def fail_def dest!: find_Some_split split: if_splits option.splits)
      with other [OF False] v t Pair Inr show ?thesis by (auto simp: and_then_def keeps_def fail_def)
    qed
  qed
qed

lemma problem_id_apply_update [simp]: "problem_id (apply_update env req p) = problem_id p"
  by (simp add: apply_update_def apply_limit_def split: option.split)

lemma frame_update:
  assumes "tables_wf (tables_of s)" "p \<in> set (problems (tables_of s))" "problem_author p \<noteq> user" "frame (problem_id p) v (tables_of s)"
  shows "frame (problem_id p) v (tables_of (snd (update_problem env pid' user req s)))"
  unfolding update_problem_def
proof (rule frame_guarded [OF assms(1-3) _ assms(4)], intro allI impI)
  fix q :: problem_row assume "pid' \<noteq> problem_id p" "problem_id q = pid'"
  then show "keeps (frame (problem_id p) v) (transaction env (and_then
      (case new_tags req of None \<Rightarrow> ret () | Some tags \<Rightarrow> and_then (delete_tags env pid') (\<lambda>_. insert_tags env pid' tags))
      (\<lambda>_. save_problem env (apply_update env req q))))"
    by (intro keeps_transaction keeps_and_then frame_save_problem)
       (auto intro: keeps_and_then frame_delete_tags frame_insert_tags keeps_reads only_reads_basic split: option.split)
qed

lemma frame_delete:
  assumes "tables_wf (tables_of s)" "p \<in> set (problems (tables_of s))" "problem_author p \<noteq> user" "frame (problem_id p) v (tables_of s)"
  shows "frame (problem_id p) v (tables_of (snd (problems_delete env pid' user s)))"
  unfolding problems_delete_def
  by (rule frame_guarded [OF assms(1-3) _ assms(4)]) (auto intro: frame_save_problem)

lemma frame_replace:
  assumes "tables_wf (tables_of s)" "p \<in> set (problems (tables_of s))" "problem_author p \<noteq> user" "frame (problem_id p) v (tables_of s)"
  shows "frame (problem_id p) v (tables_of (snd (and_then (problems_get env pid')
    (\<lambda>problem. if detail_author problem \<noteq> user then fail RepoForbidden else test_cases_replace env pid' cases) s)))"
proof (cases "pid' = problem_id p")
  case True
  have "detail_author d = problem_author p" if "problems_get env pid' s = (Inr d, t)" for d t
  proof -
    from that obtain q t' where "find_problem env pid' s = (Inr q, t')" "detail_author d = problem_author q"
      by (auto simp: problems_get_def and_then_def ret_def split: prod.splits sum.splits)
    with find_problem_view [OF assms(1,2)] True show ?thesis by auto
  qed
  then show ?thesis
    using assms(3,4) by (cases "problems_get env pid' s")
      (auto simp: and_then_def fail_def dest!: only_readsD [OF only_reads_operations(1)] split: sum.splits)
next
  case False
  then have "keeps (frame (problem_id p) v) (test_cases_replace env pid' cases)"
    unfolding test_cases_replace_def
    by (intro keeps_and_then keeps_transaction frame_delete_cases frame_insert_cases keeps_reads only_reads_find)
  then have "keeps (frame (problem_id p) v) (and_then (problems_get env pid')
      (\<lambda>problem. if detail_author problem \<noteq> user then fail RepoForbidden else test_cases_replace env pid' cases))"
    by (intro keeps_and_then) (simp_all add: keeps_reads repo_rules)
  with assms(4) show ?thesis by (simp add: keeps_def)
qed

subsection \<open>Properties\<close>

lemma problem_api_tables:
  "tables_of (snd (problem_api env contains order user req s)) =
     tables_of (snd (case req of
        CreateProblem r \<Rightarrow> map_prod (map_sum id (\<lambda>_. ())) id (problems_create env r user s)
      | UpdateProblem pid r \<Rightarrow> update_problem env pid user r s
      | DeleteProblem pid \<Rightarrow> problems_delete env pid user s
      | ReplaceTestCases pid cases \<Rightarrow>
          and_then (problems_get env pid) (\<lambda>problem. if detail_author problem \<noteq> user then fail RepoForbidden else test_cases_replace env pid cases) s
      | _ \<Rightarrow> ret () s))"
  using repo_rules
  by (cases req) (auto simp: handler_defs status_of_def ret_def only_reads_def)

lemma error_without_effect:
  assumes "all_or_nothing m" and "status_of (respond st m s) = (Inl code, t)"
  shows "tables_of t = tables_of s \<and> code \<in> {403, 404, 500}"
proof -
  from assms(2) obtain e where "m s = (Inl e, t)" "code = problem_api_status e"
    by (auto simp: status_of_respond split: prod.splits sum.splits)
  with assms(1) show ?thesis by (cases e) (auto simp: all_or_nothing_def)
qed

lemma api_operations_all_or_nothing:
  "all_or_nothing (problems_list env contains order q)" "all_or_nothing (problems_get env pid)"
  "all_or_nothing (test_cases_get env pid user)" "all_or_nothing (problems_stat env)"
  by (simp_all add: all_or_nothing_reads repo_rules)

text \<open>C13. The repositories keep the tables consistent and fail without effect: every request to the problem API
  leaves primary keys unique and references valid, and one that is answered with an error, at whatever
  point of its transaction the database failed, leaves the tables exactly as they were.\<close>
theorem problem_api_all_or_nothing:
  assumes "tables_wf (tables_of s)" and "problem_api env contains order user req s = (r, t)"
  shows "tables_wf (tables_of t) \<and> (\<forall>code. r = Inl code \<longrightarrow> tables_of t = tables_of s \<and> code \<in> {403, 404, 500})"
proof
  have "tables_wf (tables_of (snd (problem_api env contains order user req s)))"
    unfolding problem_api_tables
    using assms(1) keeps_problem_operations replace_body_rules(2)
    by (cases req) (auto simp: keeps_def ret_def)
  with assms(2) show "tables_wf (tables_of t)" by simp
  show "\<forall>code. r = Inl code \<longrightarrow> tables_of t = tables_of s \<and> code \<in> {403, 404, 500}"
  proof (intro allI impI)
    fix code assume "r = Inl code"
    with assms(2) have err: "problem_api env contains order user req s = (Inl code, t)" by simp
    show "tables_of t = tables_of s \<and> code \<in> {403, 404, 500}"
      by (insert err, cases req)
         (simp_all only: problem_api.simps handler_defs,
          (erule error_without_effect [rotated],
           rule api_operations_all_or_nothing all_or_nothing_operations replace_body_rules(1))+)
  qed
qed

definition demo_env :: db_env where
  "demo_env = \<lparr>up = \<lambda>n. n < 20, new_id = \<lambda>n. of_nat (100 + n), utc_now = 50\<rparr>"

definition demo_problem :: "uuid \<Rightarrow> uuid \<Rightarrow> u64 \<Rightarrow> problem_row" where
  "demo_problem pid author created =
     \<lparr>problem_id = pid, problem_title = ''A+B'', problem_description = ''add'', problem_difficulty = Beginner, problem_author = author,
      problem_created_at = created, problem_updated_at = created, problem_deleted_at = None, problem_cpu_time_ms = 1000,
      problem_wall_time_ms = 2000, problem_memory_bytes = 65536, problem_output_bytes = 1024\<rparr>"

definition demo_tables :: tables where
  "demo_tables =
     \<lparr>problems = [demo_problem 1 7 10, demo_problem 2 8 20], problems_tags = [(1, 5), (1, 6), (2, 5)],
      test_cases = [\<lparr>case_id = 11, case_problem = 1, row_input = ''1 2'', row_output = ''3'', row_case_type = ExampleCase\<rparr>,
                    \<lparr>case_id = 12, case_problem = 1, row_input = ''40 2'', row_output = ''42'', row_case_type = HiddenCase\<rparr>],
      submissions = []\<rparr>"

definition demo_db :: db where
  "demo_db = \<lparr>tables_of = demo_tables, queries = 0, uuids = 0\<rparr>"

lemma demo_tables_wf: "tables_wf (tables_of demo_db)"
  by (simp add: tables_wf_def problem_ids_def demo_db_def demo_tables_def demo_problem_def)

theorem problem_api_all_or_nothing_witness:
  "tables_wf (tables_of (snd (problem_api demo_env (\<lambda>_ _. True) (\<lambda>ps. ps) 7 (ReplaceTestCases 1 []) demo_db)))"
proof -
  obtain r t where rt: "problem_api demo_env (\<lambda>_ _. True) (\<lambda>ps. ps) 7 (ReplaceTestCases 1 []) demo_db = (r, t)" by fastforce
  from problem_api_all_or_nothing [OF demo_tables_wf rt] rt show ?thesis by simp
qed

lemma other_user_keeps_view:
  assumes "tables_wf (tables_of s)" and "p \<in> set (problems (tables_of s))" and "problem_author p \<noteq> user"
  shows "problem_view (problem_id p) (tables_of (snd (problem_api env contains order user req s))) =
    problem_view (problem_id p) (tables_of s)"
proof -
  have v: "frame (problem_id p) (problem_view (problem_id p) (tables_of s)) (tables_of s)"
    using assms(2) by (simp add: frame_def problem_ids_def)
  have "frame (problem_id p) (problem_view (problem_id p) (tables_of s)) (tables_of (snd (problem_api env contains order user req s)))"
    unfolding problem_api_tables
    using frame_update [OF assms v] frame_delete [OF assms v] frame_replace [OF assms v] frame_create v
    by (cases req) (auto simp: keeps_def ret_def)
  then show ?thesis by (simp add: frame_def)
qed

text \<open>C14. A problem belongs to its author: whatever any other user asks of the API, the problem's row, its tags
  and its test cases stay exactly as they are.  This is what the handlers do, which compare the user with the author and
  know no other role; \<open>docs/problems-api.md\<close> grants PATCH, DELETE and the PUT of the cases to ``author/admin'', so an
  administrator who is not the author is refused where the document lets him in.\<close>
theorem only_author_changes_problem:
  assumes "tables_wf (tables_of s)" and "p \<in> set (problems (tables_of s))" and "problem_author p \<noteq> user"
  shows "problem_view (problem_id p) (tables_of (snd (problem_api env contains order user req s))) =
    problem_view (problem_id p) (tables_of s)"
  by (rule other_user_keeps_view [OF assms])

theorem only_author_changes_problem_witness:
  "problem_view 1 (tables_of (snd (problem_api demo_env (\<lambda>_ _. True) (\<lambda>ps. ps) 8 (DeleteProblem 1) demo_db))) =
   problem_view 1 (tables_of demo_db)"
  using only_author_changes_problem [OF demo_tables_wf, of "demo_problem 1 7 10" 8 demo_env "\<lambda>_ _. True" "\<lambda>ps. ps" "DeleteProblem 1"]
  by (simp add: demo_db_def demo_tables_def demo_problem_def)

text \<open>C32. Hidden test cases are not listed to anyone but the author: the answer to another user is the one it
  would be if the database held no hidden cases at all.\<close>
theorem hidden_cases_not_listed:
  assumes "tables_wf (tables_of s)" and "p \<in> set (problems (tables_of s))" and "problem_author p \<noteq> user"
  shows "fst (get_test_cases_handler env user (problem_id p) s) =
    fst (get_test_cases_handler env user (problem_id p)
      (s\<lparr>tables_of := (tables_of s)\<lparr>test_cases := filter (\<lambda>c. row_case_type c = ExampleCase) (test_cases (tables_of s))\<rparr>\<rparr>))"
proof -
  let ?s = "s\<lparr>tables_of := (tables_of s)\<lparr>test_cases := filter (\<lambda>c. row_case_type c = ExampleCase) (test_cases (tables_of s))\<rparr>\<rparr>"
  have find: "find_problem env (problem_id p) ?s = map_prod id (\<lambda>t. t\<lparr>tables_of := tables_of ?s\<rparr>) (find_problem env (problem_id p) s)"
    by (simp add: find_problem_def and_then_def query_def fail_def ret_def split: option.split)
  show ?thesis
  proof (cases "find_problem env (problem_id p) s")
    case (Pair r t)
    show ?thesis
    proof (cases r)
      case (Inl e)
      with Pair find show ?thesis by (simp add: get_test_cases_handler_def test_cases_get_def respond_def and_then_def)
    next
      case (Inr q)
      with find_problem_view [OF assms(1,2)] Pair have "q = p" by simp
      moreover have "tables_of t = tables_of s" using only_readsD [OF only_reads_find Pair] .
      ultimately show ?thesis
        using Pair Inr find assms(3)
        by (simp add: get_test_cases_handler_def test_cases_get_def respond_def and_then_def query_def Let_def conj_commute cong: filter_cong)
    qed
  qed
qed

theorem hidden_cases_not_listed_witness:
  "fst (get_test_cases_handler demo_env 8 1 demo_db) =
   fst (get_test_cases_handler demo_env 8 1 (demo_db\<lparr>tables_of := demo_tables\<lparr>test_cases :=
     [\<lparr>case_id = 11, case_problem = 1, row_input = ''1 2'', row_output = ''3'', row_case_type = ExampleCase\<rparr>]\<rparr>\<rparr>))"
  using hidden_cases_not_listed [OF demo_tables_wf, of "demo_problem 1 7 10" 8 demo_env]
  by (simp add: demo_db_def demo_tables_def demo_problem_def)

text \<open>The tag filter keeps exactly the problems that have every one of the given tags, if no tag is given
  twice; with a repeated tag it keeps none.\<close>
theorem tag_filter_asks_for_all:
  assumes "tables_wf t" and "tags \<noteq> []"
  shows "set (tag_filtered tags t) =
    (if distinct tags then {pid. \<forall>tag \<in> set tags. (pid, tag) \<in> set (problems_tags t)} else {})"
proof -
  let ?rows = "\<lambda>pid. filter (\<lambda>pt. fst pt = pid) (filter (\<lambda>pt. snd pt \<in> set tags) (problems_tags t))"
  have dist: "distinct (?rows pid)" and set: "set (?rows pid) = Pair pid ` {tag \<in> set tags. (pid, tag) \<in> set (problems_tags t)}" for pid
    using assms(1) by (auto simp: tables_wf_def)
  have len: "length (?rows pid) = card {tag \<in> set tags. (pid, tag) \<in> set (problems_tags t)}" for pid
    using distinct_card [OF dist, of pid] by (simp only: set card_image inj_on_def) (simp add: card_image inj_on_def)
  have le: "card {tag \<in> set tags. (pid, tag) \<in> set (problems_tags t)} \<le> card (set tags)" for pid
    by (auto intro: card_mono)
  have all: "card {tag \<in> set tags. (pid, tag) \<in> set (problems_tags t)} = card (set tags) \<longleftrightarrow>
      (\<forall>tag \<in> set tags. (pid, tag) \<in> set (problems_tags t))" for pid
    using card_subset_eq [of "set tags" "{tag \<in> set tags. (pid, tag) \<in> set (problems_tags t)}"]
    by (auto intro: arg_cong [where f = card])
  have "pid \<in> set (tag_filtered tags t) \<longleftrightarrow> ?rows pid \<noteq> [] \<and> length (?rows pid) = length tags" for pid
    by (auto simp: tag_filtered_def Let_def filter_empty_conv)
  then have mem: "pid \<in> set (tag_filtered tags t) \<longleftrightarrow> length (?rows pid) = length tags" for pid
    using assms(2) by (metis length_0_conv)
  show ?thesis
  proof (cases "distinct tags")
    case True
    then have n: "length tags = card (set tags)" by (simp add: distinct_card)
    have "pid \<in> set (tag_filtered tags t) \<longleftrightarrow> (\<forall>tag \<in> set tags. (pid, tag) \<in> set (problems_tags t))" for pid
      unfolding mem len n by (rule all)
    with True show ?thesis by (simp add: set_eq_iff)
  next
    case False
    then have "card (set tags) < length tags" using card_length card_distinct le_neq_implies_less by blast
    then have "length (?rows pid) \<noteq> length tags" for pid using le [of pid] len [of pid] by linarith
    then have "pid \<notin> set (tag_filtered tags t)" for pid using mem [of pid] by (simp only: not_False_eq_True)
    then have "set (tag_filtered tags t) = {}" by (simp only: set_eq_iff empty_iff simp_thms)
    with False show ?thesis by simp
  qed
qed

lemma concat_chunks: "concat (map (\<lambda>k. take l (drop (k * l) xs)) [0..<n]) = take (n * l) xs"
proof (induction n)
  case (Suc n)
  then show ?case using take_add [of "n * l" l xs] by (simp add: add.commute)
qed simp

text \<open>The problems a listing selects, without regard to pages.\<close>

definition chosen :: "(string \<Rightarrow> string \<Rightarrow> bool) \<Rightarrow> list_queries \<Rightarrow> tables \<Rightarrow> problem_row list" where
  "chosen contains q t =
     selected contains q (case q_tag q of None \<Rightarrow> None | Some tags \<Rightarrow> if tags = [] then None else Some (tag_filtered tags t)) t"

lemma chosen_page [simp]: "chosen contains (q\<lparr>q_page := p\<rparr>) = chosen contains q"
  by (intro ext) (simp add: chosen_def selected_def)

lemma problems_list_run:
  assumes "\<And>i. up env i" and perm: "\<And>ps. mset (order ps) = mset ps"
  shows "map_sum id (\<lambda>resp. (map item_id (list_problems resp), list_total resp)) (fst (problems_list env contains order q s)) =
    Inr (map problem_id (take (unat (page_limit q)) (drop (unat (page_number q * page_limit q))
           (ordered_by_creation order (chosen contains q (tables_of s))))), length (chosen contains q (tables_of s)))"
proof -
  have empty: "order [] = []" using perm [of "[]"] by simp
  have none: "selected contains q (Some []) t = []" for t by (simp add: selected_def)
  show ?thesis
    using assms(1)
    by (auto simp: problems_list_def and_then_def ret_def query_def chosen_def none ordered_by_creation_def empty Let_def list_item_of_def comp_def
        split: option.splits)
qed

lemma filter_same_key:
  "distinct (map f xs) \<Longrightarrow> k \<in> set xs \<Longrightarrow> filter (\<lambda>x. f k = f x) xs = [k]"
proof (induction xs)
  case (Cons x xs)
  show ?case
  proof (cases "x = k")
    case True
    with Cons.prems have "filter (\<lambda>x. f k = f x) xs = []" by (auto simp: filter_empty_conv)
    with True show ?thesis by simp
  next
    case False
    with Cons.prems have "k \<in> set xs" "f k \<noteq> f x" by (auto simp: image_iff)
    with Cons show ?thesis by simp
  qed
qed simp

text \<open>Without ties there is one order by a key.\<close>

lemma sort_key_unique:
  assumes "mset ys = mset xs" and "distinct (map f xs)"
  shows "sort_key f ys = sort_key f xs"
proof (rule sym, rule properties_for_sort_key)
  show "mset (sort_key f ys) = mset xs" by (simp add: assms(1))
  show "sorted (map f (sort_key f ys))" by simp
  have "mset (map f (sort_key f ys)) = mset (map f xs)" by (simp add: assms(1))
  with assms(2) have "distinct (map f (sort_key f ys))" by (metis mset_eq_imp_distinct_iff)
  moreover have "set (sort_key f ys) = set xs" using mset_eq_setD [OF assms(1)] by simp
  ultimately show "filter (\<lambda>x. f k = f x) (sort_key f ys) = filter (\<lambda>x. f k = f x) xs" if "k \<in> set (sort_key f ys)" for k
    using that filter_same_key [of f _ k] assms(2) by metis
qed

text \<open>C33. The pages of the listing partition it: with any filters, tags included, and while the table does not change, the pages one after
  the other are all selected problems by their time of creation, each exactly once, if no two of them were created at the same
  time; every page reports their number; a page has 20 problems unless a limit is given, and a limit
  above 100 is 100.  Each page is a query of its own, for which the database may read the rows in any order.  With
  two problems of the same time pages can repeat one and miss the other, see \<open>pages_overlap_on_ties\<close>.\<close>
theorem pages_partition_listing:
  assumes "\<And>i. up env i" and "tables_wf (tables_of s)" and "\<And>k ps. mset (order k ps) = mset ps"
    and "distinct (map problem_created_at (chosen contains q (tables_of s)))"
    and "length (chosen contains q (tables_of s)) \<le> n * unat (page_limit q)" and "n * unat (page_limit q) < 2 ^ 64"
  shows "let page = (\<lambda>k. case fst (problems_list env contains (order k) (q\<lparr>q_page := Some (of_nat k)\<rparr>) s) of
               Inr resp \<Rightarrow> map item_id (list_problems resp) | Inl e \<Rightarrow> []);
           listing = concat (map page [0..<n])
     in listing = map problem_id (sort_key problem_created_at (chosen contains q (tables_of s))) \<and>
        distinct listing \<and> set listing = problem_id ` set (chosen contains q (tables_of s)) \<and>
        map_sum id list_total (fst (problems_list env contains (order k) q s)) = Inr (length (chosen contains q (tables_of s))) \<and>
        page_limit q = (case q_limit q of None \<Rightarrow> 20 | Some l \<Rightarrow> if 100 < l then 100 else l)"
proof -
  let ?sel = "chosen contains q (tables_of s)" and ?l = "unat (page_limit q)"
  let ?all = "sort_key problem_created_at ?sel"
  have sorted: "ordered_by_creation (order k) ?sel = ?all" for k
    unfolding ordered_by_creation_def using sort_key_unique [OF assms(3) assms(4)] .
  have offset: "unat (of_nat k * page_limit q) = k * ?l" if "k < n" for k
  proof -
    have "k * ?l < 2 ^ 64" using that assms(6) by (meson le_less_trans less_imp_le mult_le_mono1)
    moreover have "of_nat k * page_limit q = of_nat (k * ?l)" by simp
    ultimately show ?thesis by (simp only: unat_of_nat) (simp add: take_bit_nat_eq_self_iff)
  qed
  have limits: "page_limit (q\<lparr>q_page := p\<rparr>) = page_limit q" for p by (simp add: page_limit_def)
  define page where "page k = (case fst (problems_list env contains (order k) (q\<lparr>q_page := Some (of_nat k)\<rparr>) s) of
      Inr resp \<Rightarrow> map item_id (list_problems resp) | Inl e \<Rightarrow> [])" for k
  have page: "page k = map problem_id (take ?l (drop (k * ?l) ?all))" if "k < n" for k
    using problems_list_run [of env "order k" contains "q\<lparr>q_page := Some (of_nat k)\<rparr>" s, OF assms(1,3)] offset [OF that]
    by (cases "fst (problems_list env contains (order k) (q\<lparr>q_page := Some (of_nat k)\<rparr>) s)")
       (simp_all add: page_def page_number_def limits sorted)
  have "concat (map page [0..<n]) = concat (map (\<lambda>k. map problem_id (take ?l (drop (k * ?l) ?all))) [0..<n])"
    by (intro arg_cong [where f = concat] map_cong refl) (simp add: page)
  also have "\<dots> = map problem_id (concat (map (\<lambda>k. take ?l (drop (k * ?l) ?all)) [0..<n]))"
    by (simp add: map_concat comp_def)
  also have "\<dots> = map problem_id ?all" using assms(5) by (simp add: concat_chunks)
  finally have listing: "concat (map page [0..<n]) = map problem_id ?all" .
  have "distinct (map problem_id ?sel)"
    using assms(2) by (simp add: tables_wf_def chosen_def selected_def distinct_map_filter)
  then have "distinct (map problem_id ?all)" by (metis mset_eq_imp_distinct_iff mset_map mset_sort)
  moreover have "map_sum id list_total (fst (problems_list env contains (order k) q s)) = Inr (length ?sel)"
    using problems_list_run [of env "order k" contains q s, OF assms(1,3)]
    by (cases "fst (problems_list env contains (order k) q s)") simp_all
  moreover have "page_limit q = (case q_limit q of None \<Rightarrow> 20 | Some l \<Rightarrow> if 100 < l then 100 else l)"
    by (auto simp: page_limit_def min_def split: option.splits)
  ultimately show ?thesis unfolding Let_def page_def [symmetric] listing by simp
qed

definition demo_queries :: list_queries where
  "demo_queries = \<lparr>q_limit = Some 1, q_page = None, q_query = None, q_difficulty = None, q_tag = None\<rparr>"

definition page_of :: "(problem_row list \<Rightarrow> problem_row list) \<Rightarrow> u64 \<Rightarrow> db \<Rightarrow> uuid list" where
  "page_of order k s = (case fst (problems_list (demo_env\<lparr>up := \<lambda>_. True\<rparr>) (\<lambda>_ _. True) order (demo_queries\<lparr>q_page := Some k\<rparr>) s) of
     Inr resp \<Rightarrow> map item_id (list_problems resp) | Inl e \<Rightarrow> [])"

theorem pages_partition_listing_witness:
  "concat (map (\<lambda>k. page_of (if even k then rev else id) (of_nat k) demo_db) [0..<3]) = [1, 2]"
  using pages_partition_listing [of "demo_env\<lparr>up := \<lambda>_. True\<rparr>" demo_db "\<lambda>k. if even k then rev else id" "\<lambda>_ _. True" demo_queries 3 0] demo_tables_wf
  by (simp add: demo_queries_def page_limit_def demo_db_def demo_tables_def chosen_def selected_def demo_problem_def page_of_def Let_def)

text \<open>The order by the time of creation alone is not total: of two problems created at the same time the first page and the second
  can both show the same one.\<close>
theorem pages_overlap_on_ties:
  "let s = demo_db\<lparr>tables_of := demo_tables\<lparr>problems := [demo_problem 1 7 10, demo_problem 2 8 10]\<rparr>\<rparr>
   in page_of id 0 s = [1] \<and> page_of rev 1 s = [1]"
  by (simp add: page_of_def problems_list_def and_then_def ret_def query_def demo_queries_def page_limit_def page_number_def
      ordered_by_creation_def demo_db_def demo_tables_def selected_def demo_problem_def list_item_of_def Let_def demo_env_def)

end
