(* ===== verification/Submissions.thy ===== *)
theory Submissions
  imports Problems_Api Auth_Extractor Manager_Http
begin

text \<open>
  Submissions from the API to the verdict: the repository (\<open>api_server_db/src/repositories/submissions.rs\<close>),
  the submission server (\<open>api_server_submission/src\<close>), the message broker between them and the processor
  (\<open>submission_processor/src\<close>).  JSON bodies are lists of named fields; the names are those the serde
  attributes of the structs give.  The broker is the queue of messages, the list of those that were
  delivered and not acknowledged, and those it has lost: messages are published non-persistent and without
  confirms, so a broker that restarts forgets them.
\<close>

subsection \<open>The repository\<close>

record verdict_codec =
  to_value :: "verdict_response \<Rightarrow> string option"
  from_value :: "string \<Rightarrow> verdict_response option"

datatype submission_outcome = SubmissionPending | SubmissionCompleted verdict_response

definition task_for :: "problem_row \<Rightarrow> case_row list \<Rightarrow> string \<Rightarrow> acceptable_language \<Rightarrow> verdict_task" where
  "task_for p cases source lang =
     \<lparr>task_source = source,
      task_cases = map (\<lambda>c. \<lparr>case_input = row_input c, case_output = row_output c\<rparr>) cases,
      task_limits = \<lparr>limit_cpu_time_ms = problem_cpu_time_ms p, limit_wall_time_ms = problem_wall_time_ms p,
                     limit_memory_bytes = problem_memory_bytes p, limit_output_bytes = problem_output_bytes p\<rparr>,
      task_language = language_of_acceptable lang, stop_on_first_error = True\<rparr>"

definition insert_submission :: "db_env \<Rightarrow> submission_row \<Rightarrow> unit repo" where
  "insert_submission env r =
     execute env (\<lambda>t. submission_id r \<notin> set (map submission_id (submissions t)) \<and> submission_problem r \<in> problem_ids t)
       (\<lambda>t. t\<lparr>submissions := submissions t @ [r]\<rparr>)"

definition create_pending :: "db_env \<Rightarrow> uuid \<Rightarrow> uuid \<Rightarrow> string \<Rightarrow> acceptable_language \<Rightarrow> (uuid \<times> verdict_task) repo" where
  "create_pending env pid user source lang =
     and_then (find_problem env pid) (\<lambda>p.
     and_then (query env (\<lambda>t. filter (\<lambda>c. case_problem c = pid) (test_cases t))) (\<lambda>cases.
     and_then (draw_id env) (\<lambda>sid.
     and_then
       (insert_submission env
          \<lparr>submission_id = sid, submission_problem = pid, submission_user = user, submission_source = source,
           submission_status = Pending, submission_result = None, submission_language = lang,
           submitted_at = utc_now env, completed_at = None\<rparr>) (\<lambda>_.
       ret (sid, task_for p cases source lang)))))"

definition save_submission :: "db_env \<Rightarrow> submission_row \<Rightarrow> unit repo" where
  "save_submission env r =
     execute env (\<lambda>t. submission_id r \<in> set (map submission_id (submissions t)))
       (\<lambda>t. t\<lparr>submissions := map (\<lambda>q. if submission_id q = submission_id r then r else q) (submissions t)\<rparr>)"

definition mark_completed :: "db_env \<Rightarrow> verdict_codec \<Rightarrow> uuid \<Rightarrow> verdict_response \<Rightarrow> unit repo" where
  "mark_completed env codec sid result =
     and_then (query env (\<lambda>t. List.find (\<lambda>r. submission_id r = sid) (submissions t))) (\<lambda>found.
       case found of
         None \<Rightarrow> fail RepoNotFound
       | Some r \<Rightarrow>
           (case to_value codec result of
              None \<Rightarrow> fail RepoInternal
            | Some json \<Rightarrow>
                save_submission env
                  (r\<lparr>submission_status := Completed, submission_result := Some json, completed_at := Some (utc_now env)\<rparr>)))"

definition submission_get :: "db_env \<Rightarrow> verdict_codec \<Rightarrow> uuid \<Rightarrow> uuid \<Rightarrow> submission_outcome option repo" where
  "submission_get env codec user sid =
     and_then (query env (\<lambda>t. List.find (\<lambda>r. submission_id r = sid \<and> submission_user r = user) (submissions t))) (\<lambda>found.
       case found of
         None \<Rightarrow> ret None
       | Some r \<Rightarrow>
           if submission_status r = Pending then ret (Some SubmissionPending)
           else
             (case submission_result r of
                None \<Rightarrow> fail RepoInternal
              | Some json \<Rightarrow>
                  (case from_value codec json of
                     None \<Rightarrow> fail RepoInternal
                   | Some verdict \<Rightarrow> ret (Some (SubmissionCompleted verdict)))))"

subsection \<open>Messages\<close>

datatype json_field = JsonText string | JsonTask verdict_task

type_synonym json_object = "(string \<times> json_field) list"

text \<open>The key of a field under \<open>rename_all = "camelCase"\<close>.\<close>

definition ascii_upper :: "char \<Rightarrow> char" where
  "ascii_upper c = (let n = of_char c :: nat in if 97 \<le> n \<and> n \<le> 122 then char_of (n - 32) else c)"

fun camel_case :: "string \<Rightarrow> string" where
  "camel_case [] = []"
| "camel_case [c] = [c]"
| "camel_case (c # d # cs) = (if c = CHR ''_'' then ascii_upper d # camel_case cs else c # camel_case (d # cs))"

text \<open>\<open>SubmitMessage\<close> as the server writes it and as the processor reads it.\<close>

definition message_with :: "string \<Rightarrow> string \<Rightarrow> string \<Rightarrow> verdict_task \<Rightarrow> json_object" where
  "message_with id_key task_key sid task = [(id_key, JsonText sid), (task_key, JsonTask task)]"

definition submit_payload :: "string \<Rightarrow> verdict_task \<Rightarrow> json_object" where
  "submit_payload = message_with (camel_case ''submission_id'') (camel_case ''task'')"

definition submit_message_of :: "json_object \<Rightarrow> (string \<times> verdict_task) option" where
  "submit_message_of body =
     (case (map_of body ''submission_id'', map_of body ''task'') of
        (Some (JsonText sid), Some (JsonTask task)) \<Rightarrow> Some (sid, task)
      | _ \<Rightarrow> None)"

text \<open>A form of the message that the processor reads correctly, if it reads it at all.  The Rust server writes
  \<open>submit_payload\<close>; the form with \<open>submission_id\<close> is that of \<open>packages/models/src/message.ts\<close>, which the
  processor's struct mirrors.\<close>

definition faithful_payload :: "(string \<Rightarrow> verdict_task \<Rightarrow> json_object) \<Rightarrow> bool" where
  "faithful_payload payload \<longleftrightarrow> (\<forall>sid task m. submit_message_of (payload sid task) = Some m \<longrightarrow> m = (sid, task))"

subsection \<open>The broker and the world around it\<close>

record publish_config =
  publish_exchange :: string
  publish_routing_key :: string

record topology =
  exchange_name :: string
  submit_queue :: string
  submit_route :: string

definition publish_config_default :: publish_config where
  "publish_config_default = \<lparr>publish_exchange = ''online-judge.exchange'', publish_routing_key = ''submit''\<rparr>"

definition topology_default :: topology where
  "topology_default =
     \<lparr>exchange_name = ''online-judge.exchange'', submit_queue = ''submit.queue'', submit_route = ''submit''\<rparr>"

record world =
  world_db :: db
  ready :: "json_object list"
  unacked :: "json_object list"
  lost_messages :: "json_object list"

text \<open>A direct exchange hands a message to the queue that is bound to its routing key; any other is dropped.  What
  the broker was handed it may lose at any later time (\<open>broker_loses\<close>).\<close>

definition publish :: "publish_config \<Rightarrow> topology \<Rightarrow> json_object \<Rightarrow> world \<Rightarrow> world" where
  "publish cfg topo m w =
     (if publish_exchange cfg = exchange_name topo \<and> publish_routing_key cfg = submit_route topo
      then w\<lparr>ready := ready w @ [m]\<rparr> else w)"

subsection \<open>The submission server\<close>

record post_request =
  post_source_code :: string
  post_problem_id :: uuid
  post_language :: acceptable_language

text \<open>\<open>payload\<close> writes the message; \<open>sent\<close> says whether the channel took the publication.  There are no confirms,
  so the answer does not depend on whether the broker keeps the message.\<close>

definition post_handler ::
  "auth_lib \<Rightarrow> db_env \<Rightarrow> (string \<Rightarrow> verdict_task \<Rightarrow> json_object) \<Rightarrow> publish_config \<Rightarrow> topology \<Rightarrow> bool \<Rightarrow> headers \<Rightarrow>
     post_request \<Rightarrow> world \<Rightarrow> (nat + uuid) \<times> world" where
  "post_handler lib env payload cfg topo sent h req w =
     (case user_id_required lib h of
        Inl rej \<Rightarrow> (Inl (rej_status rej), w)
      | Inr user \<Rightarrow>
          (case create_pending env (post_problem_id req) user (post_source_code req) (post_language req) (world_db w) of
             (Inl e, d) \<Rightarrow> (Inl 500, w\<lparr>world_db := d\<rparr>)
           | (Inr (sid, task), d) \<Rightarrow>
               if \<not> sent then (Inl 500, w\<lparr>world_db := d\<rparr>)
               else (Inr sid, publish cfg topo (payload (uuid_show lib sid) task) (w\<lparr>world_db := d\<rparr>))))"

definition get_handler ::
  "auth_lib \<Rightarrow> db_env \<Rightarrow> verdict_codec \<Rightarrow> headers \<Rightarrow> uuid \<Rightarrow> world \<Rightarrow> (nat + submission_outcome) \<times> world" where
  "get_handler lib env codec h sid w =
     (case user_id_required lib h of
        Inl rej \<Rightarrow> (Inl (rej_status rej), w)
      | Inr user \<Rightarrow>
          (case submission_get env codec user sid (world_db w) of
             (Inl e, d) \<Rightarrow> (Inl 500, w\<lparr>world_db := d\<rparr>)
           | (Inr None, d) \<Rightarrow> (Inl 404, w\<lparr>world_db := d\<rparr>)
           | (Inr (Some r), d) \<Rightarrow> (Inr r, w\<lparr>world_db := d\<rparr>)))"

subsection \<open>The processor\<close>

text \<open>\<open>judge\<close> is the answer of the judge client; the result is the submission id on success and whether the
  message was acknowledged.\<close>

definition process_message ::
  "auth_lib \<Rightarrow> db_env \<Rightarrow> verdict_codec \<Rightarrow> (verdict_task \<Rightarrow> sdk_error + verdict_task_result) \<Rightarrow> json_object \<Rightarrow> db \<Rightarrow>
     (string option \<times> bool) \<times> db" where
  "process_message lib env codec judge body d =
     (case submit_message_of body of
        None \<Rightarrow> ((None, True), d)
      | Some (sid, task) \<Rightarrow>
          (case judge task of
             Inl e \<Rightarrow> ((None, False), d)
           | Inr result \<Rightarrow>
               (let verdict = result_into_response result in
                case uuid_parse lib sid of
                  None \<Rightarrow> ((None, True), d)
                | Some submission_uuid \<Rightarrow>
                    (case mark_completed env codec submission_uuid verdict d of
                       (Inl e, d') \<Rightarrow> ((None, False), d')
                     | (Inr _, d') \<Rightarrow> ((Some sid, True), d')))))"

text \<open>One turn of the consumer; \<open>ack_sent\<close> says whether an acknowledgement reaches the broker.\<close>

definition consume ::
  "auth_lib \<Rightarrow> db_env \<Rightarrow> verdict_codec \<Rightarrow> (verdict_task \<Rightarrow> sdk_error + verdict_task_result) \<Rightarrow> bool \<Rightarrow> world \<Rightarrow> world" where
  "consume lib env codec judge ack_sent w =
     (case ready w of
        [] \<Rightarrow> w
      | m # ms \<Rightarrow>
          (let ((_, acked), d) = process_message lib env codec judge m (world_db w) in
           w\<lparr>world_db := d, ready := ms, unacked := (if acked \<and> ack_sent then unacked w else unacked w @ [m])\<rparr>))"

text \<open>The connection of the processor ends: what it has not acknowledged is queued again.\<close>

definition reconnect :: "world \<Rightarrow> world" where
  "reconnect w = w\<lparr>ready := unacked w @ ready w, unacked := []\<rparr>"

text \<open>The broker forgets the messages at the positions \<open>I\<close> of the queue and \<open>J\<close> of the unacknowledged ones.\<close>

definition broker_loses :: "nat set \<Rightarrow> nat set \<Rightarrow> world \<Rightarrow> world" where
  "broker_loses I J w = w\<lparr>ready := nths (ready w) (- I), unacked := nths (unacked w) (- J),
     lost_messages := lost_messages w @ nths (ready w) I @ nths (unacked w) J\<rparr>"

subsection \<open>The services together\<close>

text \<open>Requests, deliveries, reconnections and losses in any order; the time, the failures of the database and of the
  broker and the judge's answers may differ from step to step; \<open>judges\<close> says which answers are possible.\<close>

inductive service_step ::
  "auth_lib \<Rightarrow> verdict_codec \<Rightarrow> (verdict_task \<Rightarrow> sdk_error + verdict_task_result \<Rightarrow> bool) \<Rightarrow>
     (string \<Rightarrow> verdict_task \<Rightarrow> json_object) \<Rightarrow> publish_config \<Rightarrow> topology \<Rightarrow> world \<Rightarrow> world \<Rightarrow> bool"
  for lib codec judges payload cfg topo
where
  step_post: "service_step lib codec judges payload cfg topo w (snd (post_handler lib env payload cfg topo sent h req w))"
| step_get: "service_step lib codec judges payload cfg topo w (snd (get_handler lib env codec h sid w))"
| step_problems: "service_step lib codec judges payload cfg topo w (w\<lparr>world_db := snd (problem_api env contains order user req (world_db w))\<rparr>)"
| step_consume: "(\<And>task. judges task (judge task)) \<Longrightarrow>
    service_step lib codec judges payload cfg topo w (consume lib env codec judge ack_sent w)"
| step_reconnect: "service_step lib codec judges payload cfg topo w (reconnect w)"
| step_loses: "service_step lib codec judges payload cfg topo w (broker_loses I J w)"

definition empty_world :: "db \<Rightarrow> world" where
  "empty_world d = \<lparr>world_db = d, ready = [], unacked = [], lost_messages = []\<rparr>"

abbreviation rows_of :: "world \<Rightarrow> submission_row list" where
  "rows_of w \<equiv> submissions (tables_of (world_db w))"

subsection \<open>Lemmas\<close>

lemma keeps_submissions_execute:
  "(\<And>t. submissions (f t) = submissions t) \<Longrightarrow> keeps (\<lambda>t. submissions t = v) (execute env ok f)"
  by (rule keeps_execute) simp

lemma keeps_submissions_tags: "keeps (\<lambda>t. submissions t = v) (insert_tags env pid tags)"
  by (induction tags) (simp_all add: keeps_reads only_reads_basic keeps_and_then insert_tag_def keeps_submissions_execute)

lemma keeps_submissions_cases: "keeps (\<lambda>t. submissions t = v) (insert_cases env pid cs)"
  by (induction cs) (simp_all add: keeps_reads only_reads_basic keeps_and_then insert_case_def keeps_submissions_execute)

lemma keeps_submissions_operations:
  "keeps (\<lambda>t. submissions t = v) (problems_create env req author)"
  "keeps (\<lambda>t. submissions t = v) (update_problem env pid author upd)"
  "keeps (\<lambda>t. submissions t = v) (problems_delete env pid author)"
  "keeps (\<lambda>t. submissions t = v) (test_cases_replace env pid cases)"
  unfolding problems_create_def update_problem_def problems_delete_def test_cases_replace_def save_problem_def delete_tags_def
    insert_problem_def Let_def
  by (intro keeps_and_then keeps_transaction;
      simp add: keeps_reads repo_rules keeps_and_then keeps_transaction keeps_submissions_execute keeps_submissions_tags keeps_submissions_cases split: option.split)+

lemma problem_api_submissions:
  "submissions (tables_of (snd (problem_api env contains order user req s))) = submissions (tables_of s)"
proof -
  have "keeps (\<lambda>t. submissions t = v) (and_then (problems_get env pid)
      (\<lambda>problem. if detail_author problem \<noteq> user then fail RepoForbidden else test_cases_replace env pid cases))" for v pid cases
    by (intro keeps_and_then) (simp_all add: keeps_reads repo_rules keeps_submissions_operations)
  then show ?thesis
    unfolding problem_api_tables using keeps_submissions_operations [where v = "submissions (tables_of s)"]
    by (cases req) (auto simp: keeps_def ret_def)
qed

lemma only_reads_submission_get: "only_reads (submission_get env codec user sid)"
  unfolding submission_get_def by (intro repo_rules) (simp add: repo_rules split: option.split)

lemma get_handler_rows [simp]: "rows_of (snd (get_handler lib env codec h sid w)) = rows_of w"
  by (simp add: get_handler_def only_readsD [OF only_reads_submission_get] split: sum.splits prod.splits option.splits)

text \<open>What a creation and a completion do to the rows.\<close>

lemma create_pending_rows:
  assumes "create_pending env pid user source lang d = (r, d')"
  shows "submissions (tables_of d') = submissions (tables_of d) \<or>
    (\<exists>row. submissions (tables_of d') = submissions (tables_of d) @ [row] \<and> submission_status row = Pending \<and>
      submission_id row \<notin> submission_id ` set (submissions (tables_of d)))"
  using assms
  by (cases "find_problem env pid d")
     (auto simp: create_pending_def and_then_def query_def draw_id_def insert_submission_def execute_def ret_def Let_def
        dest!: only_readsD [OF only_reads_find] split: sum.splits if_splits)

lemma create_pending_Inr:
  assumes "create_pending env pid user source lang d = (Inr (sid, task), d')"
  shows "\<exists>row. submissions (tables_of d') = submissions (tables_of d) @ [row] \<and> submission_id row = sid \<and> submission_user row = user \<and>
    submission_problem row = pid \<and> submission_source row = source \<and> submission_language row = lang \<and> submission_status row = Pending \<and> sid \<notin> set (map submission_id (submissions (tables_of d))) \<and>
    (\<exists>p \<in> set (problems (tables_of d)). problem_id p = pid \<and> problem_deleted_at p = None \<and>
       task = task_for p (filter (\<lambda>c. case_problem c = pid) (test_cases (tables_of d))) source lang)"
proof (cases "find_problem env pid d")
  case (Pair r d1)
  then have d1: "tables_of d1 = tables_of d" by (rule only_readsD [OF only_reads_find])
  from assms Pair obtain p where p: "r = Inr p" by (cases r) (auto simp: create_pending_def and_then_def)
  with Pair have "p \<in> set (problems (tables_of d)) \<and> problem_id p = pid \<and> problem_deleted_at p = None"
    by (auto simp: find_problem_def and_then_def query_def ret_def fail_def dest!: find_Some_split split: if_splits option.splits)
  with assms Pair p d1 show ?thesis
    by (auto simp: create_pending_def and_then_def query_def draw_id_def insert_submission_def execute_def ret_def split: if_splits)
qed

definition completed :: "uuid \<Rightarrow> submission_row list \<Rightarrow> bool" where
  "completed sid rows \<longleftrightarrow> (\<exists>r \<in> set rows. submission_id r = sid \<and> submission_status r = Completed)"

lemma mark_completed_cases:
  assumes "mark_completed env codec sid result d = (r, d')"
  shows "(r \<noteq> Inr () \<and> submissions (tables_of d') = submissions (tables_of d)) \<or>
    (\<exists>row json. row \<in> set (submissions (tables_of d)) \<and> submission_id row = sid \<and> to_value codec result = Some json \<and> r = Inr () \<and>
       submissions (tables_of d') = map (\<lambda>q. if submission_id q = sid
         then row\<lparr>submission_status := Completed, submission_result := Some json, completed_at := Some (utc_now env)\<rparr> else q)
         (submissions (tables_of d)))"
  using assms
  by (auto simp: mark_completed_def and_then_def query_def save_submission_def execute_def fail_def
      dest!: find_Some_split split: if_splits option.splits)

lemma mark_completed_Inr:
  assumes "mark_completed env codec sid result d = (Inr u, d')"
  shows "completed sid (submissions (tables_of d'))"
proof -
  from mark_completed_cases [OF assms] obtain row json where row: "row \<in> set (submissions (tables_of d))" "submission_id row = sid"
    and d': "submissions (tables_of d') = map (\<lambda>q. if submission_id q = sid
         then row\<lparr>submission_status := Completed, submission_result := Some json, completed_at := Some (utc_now env)\<rparr> else q)
         (submissions (tables_of d))" by auto
  have "row\<lparr>submission_status := Completed, submission_result := Some json, completed_at := Some (utc_now env)\<rparr> \<in> set (submissions (tables_of d'))"
    unfolding d' using row by (auto simp: image_iff intro!: bexI [of _ row])
  from bexI [OF _ this, of "\<lambda>r. submission_id r = sid \<and> submission_status r = Completed"] row(2)
  show ?thesis by (simp add: completed_def)
qed

lemma mark_completed_keeps:
  assumes "mark_completed env codec sid result d = (r, d')" and "completed s (submissions (tables_of d))"
  shows "completed s (submissions (tables_of d'))"
proof (cases "s = sid")
  case True
  with assms mark_completed_cases [OF assms(1)] mark_completed_Inr show ?thesis by (cases r) auto
next
  case False
  from assms(2) obtain q where "q \<in> set (submissions (tables_of d))" "submission_id q = s" "submission_status q = Completed"
    by (auto simp: completed_def)
  with False mark_completed_cases [OF assms(1)] show ?thesis by (fastforce simp: completed_def image_iff)
qed

lemma post_handler_rows:
  "rows_of (snd (post_handler lib env payload cfg topo sent h req w)) = rows_of w \<or>
   (\<exists>row. rows_of (snd (post_handler lib env payload cfg topo sent h req w)) = rows_of w @ [row] \<and> submission_status row = Pending \<and>
      submission_id row \<notin> submission_id ` set (rows_of w))"
proof (cases "user_id_required lib h")
  case (Inr user)
  obtain r d where d: "create_pending env (post_problem_id req) user (post_source_code req) (post_language req) (world_db w) = (r, d)"
    by fastforce
  have "world_db (snd (post_handler lib env payload cfg topo sent h req w)) = d"
    using Inr d by (auto simp: post_handler_def publish_def split: sum.splits prod.splits)
  with create_pending_rows [OF d] show ?thesis by simp
qed (simp add: post_handler_def)

lemma process_message_rows:
  assumes "process_message lib env codec judge body d = ((x, acked), d')" and "completed s (submissions (tables_of d))"
  shows "completed s (submissions (tables_of d'))"
  using assms by (auto simp: process_message_def Let_def split: option.splits sum.splits prod.splits dest: mark_completed_keeps)

lemma process_message_acked:
  assumes "process_message lib env codec judge body d = ((x, True), d')" and "submit_message_of body = Some (uuid_show lib sid, task)"
    and "uuid_law lib"
  shows "completed sid (submissions (tables_of d'))"
  using assms
  by (auto simp: process_message_def Let_def uuid_law_def split: option.splits sum.splits prod.splits dest: mark_completed_Inr)

lemma submit_message_of_with: "submit_message_of (message_with ''submission_id'' ''task'' sid task) = Some (sid, task)"
  by (simp add: submit_message_of_def message_with_def)

lemma faithful_payloadD: "faithful_payload payload \<Longrightarrow> submit_message_of (payload sid task) = Some b \<Longrightarrow> b = (sid, task)"
  unfolding faithful_payload_def by blast

lemma submit_message_of_payload: "submit_message_of (submit_payload sid task) = None"
  by (simp add: submit_message_of_def submit_payload_def message_with_def ascii_upper_def)

subsection \<open>What becomes of an accepted submission\<close>

text \<open>A row with the content of a request of \<open>user\<close>.\<close>

definition submitted :: "uuid \<Rightarrow> post_request \<Rightarrow> submission_row \<Rightarrow> bool" where
  "submitted user req r \<longleftrightarrow> submission_user r = user \<and> submission_problem r = post_problem_id req \<and>
     submission_source r = post_source_code req \<and> submission_language r = post_language req"

definition broker_saw :: "world \<Rightarrow> json_object set" where
  "broker_saw w = set (ready w) \<union> set (unacked w) \<union> set (lost_messages w)"

text \<open>Submission \<open>sid\<close> stays in the table with its content; it is completed, or its message \<open>m\<close> is in the broker's hands,
  or lost by it, or one the processor cannot read.\<close>

definition accounted :: "uuid \<Rightarrow> uuid \<Rightarrow> post_request \<Rightarrow> json_object \<Rightarrow> world \<Rightarrow> bool" where
  "accounted sid user req m w \<longleftrightarrow>
     sid \<in> submission_id ` set (rows_of w) \<and> (\<forall>r \<in> set (rows_of w). submission_id r = sid \<longrightarrow> submitted user req r) \<and>
     (completed sid (rows_of w) \<or> m \<in> broker_saw w \<or> submit_message_of m = None)"

lemma accountedI:
  assumes "accounted sid user req m w"
    and "submission_id ` set (rows_of w) \<subseteq> submission_id ` set (rows_of w')"
    and "\<And>r. r \<in> set (rows_of w') \<Longrightarrow> submission_id r = sid \<Longrightarrow> r \<in> set (rows_of w) \<or>
      (\<exists>q \<in> set (rows_of w). submission_id q = sid \<and> (\<forall>u p. submitted u p r = submitted u p q))"
    and "completed sid (rows_of w) \<Longrightarrow> completed sid (rows_of w')"
    and "m \<in> broker_saw w \<Longrightarrow> m \<in> broker_saw w' \<or> submit_message_of m = None \<or> completed sid (rows_of w')"
  shows "accounted sid user req m w'"
  unfolding accounted_def
proof (intro conjI ballI impI)
  show "sid \<in> submission_id ` set (rows_of w')" using assms(1) subsetD [OF assms(2)] by (simp add: accounted_def)
next
  fix r assume r: "r \<in> set (rows_of w')" "submission_id r = sid"
  have all: "\<forall>q \<in> set (rows_of w). submission_id q = sid \<longrightarrow> submitted user req q" using assms(1) by (simp add: accounted_def)
  from assms(3) [OF r] show "submitted user req r"
  proof
    assume "r \<in> set (rows_of w)"
    with all r(2) show ?thesis by simp
  next
    assume "\<exists>q \<in> set (rows_of w). submission_id q = sid \<and> (\<forall>u p. submitted u p r = submitted u p q)"
    then obtain q where "q \<in> set (rows_of w)" "submission_id q = sid" "submitted user req r = submitted user req q" by metis
    with all show ?thesis by simp
  qed
next
  have "completed sid (rows_of w) \<or> m \<in> broker_saw w \<or> submit_message_of m = None" using assms(1) by (simp add: accounted_def)
  with assms(4,5) show "completed sid (rows_of w') \<or> m \<in> broker_saw w' \<or> submit_message_of m = None" by argo
qed

lemma accounted_rows:
  assumes "accounted sid user req m w" and "rows_of w' = rows_of w" and "broker_saw w' = broker_saw w"
  shows "accounted sid user req m w'"
  using assms by (simp add: accounted_def)

lemma completed_append: "completed sid rows \<Longrightarrow> completed sid (rows @ rest)"
  by (auto simp: completed_def)

lemma process_message_marks:
  assumes "process_message lib env codec judge body d = ((x, acked), d')"
  shows "submissions (tables_of d') = submissions (tables_of d) \<or>
    (\<exists>row json. row \<in> set (submissions (tables_of d)) \<and> submissions (tables_of d') = map (\<lambda>q. if submission_id q = submission_id row
       then row\<lparr>submission_status := Completed, submission_result := Some json, completed_at := Some (utc_now env)\<rparr> else q)
       (submissions (tables_of d)))"
proof (cases "d' = d")
  case False
  with assms obtain s task v sid r where "submit_message_of body = Some (s, task)" "judge task = Inr v" "uuid_parse lib s = Some sid"
    and "mark_completed env codec sid (result_into_response v) d = (r, d')"
    by (auto simp: process_message_def Let_def split: option.splits sum.splits prod.splits)
  from mark_completed_cases [OF this(4)] show ?thesis
  proof (elim disjE exE conjE)
    fix row json
    assume row: "row \<in> set (submissions (tables_of d))" "submission_id row = sid"
      and "submissions (tables_of d') = map (\<lambda>q. if submission_id q = sid
        then row\<lparr>submission_status := Completed, submission_result := Some json, completed_at := Some (utc_now env)\<rparr> else q)
        (submissions (tables_of d))"
    then show ?thesis unfolding row(2) [symmetric] by (intro disjI2 exI conjI)
  qed simp
qed simp

lemma marked_ids:
  "submission_id ` set (map (\<lambda>q. if submission_id q = submission_id row
      then row\<lparr>submission_status := c, submission_result := j, completed_at := t\<rparr> else q) rows) = submission_id ` set rows"
proof -
  have "submission_id (if submission_id q = submission_id row
      then row\<lparr>submission_status := c, submission_result := j, completed_at := t\<rparr> else q) = submission_id q" for q by simp
  then show ?thesis by (simp only: set_map image_image)
qed

lemma process_message_kept:
  assumes "process_message lib env codec judge body d = ((x, acked), d')"
  shows "submission_id ` set (submissions (tables_of d')) = submission_id ` set (submissions (tables_of d))"
    and "r \<in> set (submissions (tables_of d')) \<Longrightarrow> r \<in> set (submissions (tables_of d)) \<or>
      (\<exists>q \<in> set (submissions (tables_of d)). submission_id q = submission_id r \<and> (\<forall>u p. submitted u p r = submitted u p q))"
proof -
  show "submission_id ` set (submissions (tables_of d')) = submission_id ` set (submissions (tables_of d))"
    using process_message_marks [OF assms] by (elim disjE exE conjE) (simp_all only: marked_ids)
  show "r \<in> set (submissions (tables_of d)) \<or>
      (\<exists>q \<in> set (submissions (tables_of d)). submission_id q = submission_id r \<and> (\<forall>u p. submitted u p r = submitted u p q))"
    if "r \<in> set (submissions (tables_of d'))"
    using process_message_marks [OF assms] that by (elim disjE exE conjE) (auto simp: submitted_def split: if_splits)
qed

lemma accounted_consume:
  assumes acc: "accounted sid user req m w" and "uuid_law lib" and "\<And>b. submit_message_of m = Some b \<Longrightarrow> fst b = uuid_show lib sid"
  shows "accounted sid user req m (consume lib env codec judge ack_sent w)"
proof (cases "ready w")
  case (Cons m' ms)
  obtain x acked d where p: "process_message lib env codec judge m' (world_db w) = ((x, acked), d)" by (metis surj_pair)
  let ?w = "w\<lparr>world_db := d, ready := ms, unacked := (if acked \<and> ack_sent then unacked w else unacked w @ [m'])\<rparr>"
  have "accounted sid user req m ?w"
  proof (rule accountedI [OF acc])
    show "submission_id ` set (rows_of w) \<subseteq> submission_id ` set (rows_of ?w)" using process_message_kept(1) [OF p] by simp
    fix r assume "r \<in> set (rows_of ?w)" "submission_id r = sid"
    with process_message_kept(2) [OF p, of r] show "r \<in> set (rows_of w) \<or>
      (\<exists>q \<in> set (rows_of w). submission_id q = sid \<and> (\<forall>u p. submitted u p r = submitted u p q))" by simp
  next
    assume "completed sid (rows_of w)"
    with process_message_rows [OF p] show "completed sid (rows_of ?w)" by simp
  next
    assume saw: "m \<in> broker_saw w"
    show "m \<in> broker_saw ?w \<or> submit_message_of m = None \<or> completed sid (rows_of ?w)"
    proof (cases "m = m' \<and> acked \<and> submit_message_of m \<noteq> None")
      case True
      then obtain b where b: "submit_message_of m' = Some b" by auto
      then have "submit_message_of m' = Some (uuid_show lib sid, snd b)" using assms(3) [of b] True by (cases b) auto
      with process_message_acked [OF _ this assms(2)] p True show ?thesis by simp
    next
      case False
      with saw Cons show ?thesis by (cases "submit_message_of m") (auto simp: broker_saw_def)
    qed
  qed
  then show ?thesis using Cons p by (simp add: consume_def)
qed (simp add: consume_def acc)

lemma nths_split: "set (nths xs (- I)) \<union> set (nths xs I) = set xs"
  by (auto simp: set_nths) (metis in_set_conv_nth)

lemma broker_loses_saw [simp]: "broker_saw (broker_loses I J w) = broker_saw w"
  using nths_split [of "ready w" I] nths_split [of "unacked w" J] by (auto simp: broker_saw_def broker_loses_def)

lemma accounted_post:
  assumes "accounted sid user req m w"
  shows "accounted sid user req m (snd (post_handler lib env payload cfg topo sent h req' w))"
proof -
  let ?w = "snd (post_handler lib env payload cfg topo sent h req' w)"
  have "broker_saw w \<subseteq> broker_saw ?w"
    by (auto simp: post_handler_def publish_def broker_saw_def split: sum.splits prod.splits)
  moreover have "sid \<in> submission_id ` set (rows_of w)" using assms by (simp add: accounted_def)
  ultimately show ?thesis
    using post_handler_rows [of lib env payload cfg topo sent h req' w]
    by (intro accountedI [OF assms]) (auto simp: completed_append)
qed

lemma accounted_step:
  assumes acc: "accounted sid user req m w" and "uuid_law lib" and "\<And>b. submit_message_of m = Some b \<Longrightarrow> fst b = uuid_show lib sid"
    and "service_step lib codec judges payload cfg topo w w'"
  shows "accounted sid user req m w'"
  using assms(4)
proof cases
  case (step_post env sent h req')
  then show ?thesis using accounted_post [OF acc] by simp
next
  case (step_get env h sid)
  have "broker_saw w' = broker_saw w"
    unfolding step_get by (auto simp: get_handler_def broker_saw_def split: sum.splits prod.splits option.splits)
  with accounted_rows [OF acc] step_get show ?thesis by simp
next
  case (step_problems env contains order user req)
  then show ?thesis by (intro accounted_rows [OF acc]) (simp_all add: problem_api_submissions broker_saw_def)
next
  case (step_consume judge env ack_sent)
  then show ?thesis using accounted_consume [OF acc assms(2,3)] by simp
next
  case step_reconnect
  then show ?thesis by (intro accounted_rows [OF acc]) (auto simp: reconnect_def broker_saw_def)
next
  case (step_loses I J)
  then show ?thesis by (intro accounted_rows [OF acc]) (simp_all, simp add: broker_loses_def)
qed

subsection \<open>What the server writes the processor cannot read\<close>

definition unread_inv :: "auth_lib \<Rightarrow> world \<Rightarrow> bool" where
  "unread_inv lib w \<longleftrightarrow>
     (\<forall>r \<in> set (rows_of w). submission_status r = Pending) \<and>
     (\<forall>m \<in> set (ready w) \<union> set (unacked w). submit_message_of m = None)"

lemma process_unread: "submit_message_of m = None \<Longrightarrow> process_message lib env codec judge m d = ((None, True), d)"
  by (simp add: process_message_def)

lemma unread_inv_step:
  assumes "unread_inv lib w" and "service_step lib codec judges submit_payload cfg topo w w'"
  shows "unread_inv lib w'"
  using assms(2)
proof cases
  case (step_post env sent h req)
  have "set (ready w') \<union> set (unacked w') \<subseteq> set (ready w) \<union> set (unacked w) \<union> range (\<lambda>(sid, task). submit_payload sid task)"
    unfolding step_post by (auto simp: post_handler_def publish_def split: sum.splits prod.splits)
  moreover have "\<forall>r \<in> set (rows_of w'). submission_status r = Pending"
    using post_handler_rows [of lib env submit_payload cfg topo sent h req w] assms(1) unfolding step_post unread_inv_def by auto
  ultimately show ?thesis using assms(1) submit_message_of_payload unfolding unread_inv_def by auto
next
  case (step_get env h sid)
  have "ready w' = ready w" "unacked w' = unacked w"
    unfolding step_get by (auto simp: get_handler_def split: sum.splits prod.splits option.splits)
  with step_get assms(1) show ?thesis by (simp add: unread_inv_def)
next
  case (step_problems env contains order user req)
  with assms(1) show ?thesis by (simp add: unread_inv_def problem_api_submissions)
next
  case (step_consume env judge ack_sent)
  with assms(1) show ?thesis
    by (cases "ready w") (auto simp: unread_inv_def consume_def process_unread)
next
  case step_reconnect
  with assms(1) show ?thesis by (simp add: unread_inv_def reconnect_def Un_commute)
next
  case (step_loses I J)
  with assms(1) show ?thesis by (auto simp: unread_inv_def broker_loses_def dest: in_set_nthsD)
qed

lemma find_fresh:
  "x \<notin> set (map f xs) \<Longrightarrow> List.find (\<lambda>r. f r = x \<and> P r) (xs @ [y]) = (if f y = x \<and> P y then Some y else None)"
  by (induction xs) auto

subsection \<open>Properties\<close>


text \<open>C11. The Rust submission server and the processor do not agree on the name of the id: the server writes
  \<open>submissionId\<close>, the processor reads \<open>submission_id\<close>.  So every message is discarded and acknowledged, and
  no submission to this server is ever completed, in any run of the services.\<close>
theorem submissions_never_judged:
  assumes "reach (empty_world d) (service_step lib codec judges submit_payload cfg topo) w"
    and "\<forall>r \<in> set (submissions (tables_of d)). submission_status r = Pending"
  shows "(\<forall>r \<in> set (rows_of w). submission_status r = Pending) \<and>
    (\<forall>m \<in> set (ready w) \<union> set (unacked w). \<forall>env judge. process_message lib env codec judge m (world_db w) = ((None, True), world_db w))"
proof -
  have "unread_inv lib w"
    using assms(1)
  proof induction
    case reach_init
    then show ?case using assms(2) by (simp add: unread_inv_def empty_world_def)
  next
    case (reach_step s t)
    then show ?case using unread_inv_step by blast
  qed
  then show ?thesis using process_unread unfolding unread_inv_def by blast
qed

text \<open>C15. What a user learns of a submission: after a post that was accepted and the delivery of its message to the
  processor, with the database up and the judge answering, the query of the user who submitted returns the verdict of the judge on the
  submitted program and the problem's test cases if the processor can read the message, and says that the submission is
  pending if it cannot; any other user's query is answered with 404.  The message that the Rust server itself writes
  cannot be read, so there the user waits for ever; the message with the field names of
  \<open>packages/models/src/message.ts\<close> is read.\<close>
theorem verdict_reaches_user:
  assumes "uuid_law lib" and "faithful_payload payload"
    and "publish_exchange cfg = exchange_name topo" and "publish_routing_key cfg = submit_route topo"
    and "\<And>i. up env i" 
    and "\<And>t. \<exists>j. to_value codec (result_into_response (verdict_of t)) = Some j \<and>
      from_value codec j = Some (result_into_response (verdict_of t))"
    and "user_id_required lib h = Inr user" and "ready w = []"
    and "post_handler lib env payload cfg topo True h req w = (Inr sid, w')"
    and "user_id_required lib h' = Inr user'"
  shows "\<exists>p. p \<in> set (problems (tables_of (world_db w))) \<and> problem_id p = post_problem_id req \<and>
    (let task = task_for p (filter (\<lambda>c. case_problem c = post_problem_id req) (test_cases (tables_of (world_db w))))
                  (post_source_code req) (post_language req);
         answer = fst (get_handler lib env codec h' sid (consume lib env codec (\<lambda>t. Inr (verdict_of t)) True w'))
     in answer = (if user' \<noteq> user then Inl 404
                  else if submit_message_of (payload (uuid_show lib sid) task) = None then Inr SubmissionPending
                  else Inr (SubmissionCompleted (result_into_response (verdict_of task)))) \<and>
        (payload = submit_payload \<and> user' = user \<longrightarrow> answer = Inr SubmissionPending) \<and>
        (payload = message_with ''submission_id'' ''task'' \<and> user' = user \<longrightarrow>
           answer = Inr (SubmissionCompleted (result_into_response (verdict_of task)))))"
proof -
  obtain r d where create: "create_pending env (post_problem_id req) user (post_source_code req) (post_language req) (world_db w) = (r, d)"
    by fastforce
  from assms(7,9) create obtain task where r: "r = Inr (sid, task)"
    and w': "world_db w' = d" "ready w' = [payload (uuid_show lib sid) task]"
    using assms(3,4,8) by (auto simp: post_handler_def publish_def split: sum.splits)
  from create_pending_Inr [OF create[unfolded r]] obtain row p where
    row: "submissions (tables_of d) = rows_of w @ [row]" "submission_id row = sid" "submission_user row = user"
      "submission_status row = Pending" "sid \<notin> set (map submission_id (rows_of w))"
    and p: "p \<in> set (problems (tables_of (world_db w)))" "problem_id p = post_problem_id req"
    and task: "task = task_for p (filter (\<lambda>c. case_problem c = post_problem_id req) (test_cases (tables_of (world_db w))))
        (post_source_code req) (post_language req)" by blast
  let ?v = "result_into_response (verdict_of task)" and ?m = "payload (uuid_show lib sid) task"
  let ?w = "consume lib env codec (\<lambda>t. Inr (verdict_of t)) True w'"
  from assms(6) obtain json where json: "to_value codec ?v = Some json" "from_value codec json = Some ?v" by blast
  let ?row = "row\<lparr>submission_status := Completed, submission_result := Some json, completed_at := Some (utc_now env)\<rparr>"
  have find: "List.find (\<lambda>r. submission_id r = sid \<and> P r) (rows_of w @ [x]) = (if submission_id x = sid \<and> P x then Some x else None)" for P x
    using row(5) by (rule find_fresh)
  have answer: "fst (get_handler lib env codec h' sid ?w) =
     (if user' \<noteq> user then Inl 404 else if submit_message_of ?m = None then Inr SubmissionPending else Inr (SubmissionCompleted ?v))"
  proof (cases "submit_message_of ?m")
    case None
    with w' process_unread [of ?m] have "world_db ?w = d" by (simp add: consume_def)
    moreover have "fst (submission_get env codec user' sid d) = Inr (if user' = user then Some SubmissionPending else None)"
      using assms(5) row(2-4) find [of "\<lambda>r. submission_user r = user'" row]
      by (simp add: submission_get_def and_then_def query_def ret_def row(1))
    ultimately show ?thesis using assms(10) None by (cases "submission_get env codec user' sid d") (simp add: get_handler_def)
  next
    case (Some b)
    with faithful_payloadD [OF assms(2) Some] have read: "submit_message_of ?m = Some (uuid_show lib sid, task)" by simp
    obtain d' where mark: "mark_completed env codec sid ?v d = (Inr (), d')" and d': "submissions (tables_of d') = rows_of w @ [?row]"
    proof -
      have "List.find (\<lambda>r. submission_id r = sid) (submissions (tables_of d)) = Some row"
        using find [of "\<lambda>_. True" row] row by simp
      moreover have "map (\<lambda>q. if submission_id q = sid then ?row else q) (rows_of w) = rows_of w"
        using row(5) by (intro map_idI) auto
      ultimately show ?thesis
        using that assms(5) json row by (simp add: mark_completed_def and_then_def query_def save_submission_def execute_def)
    qed
    have "world_db ?w = d'"
      using w' mark assms(1) read by (simp add: consume_def process_message_def Let_def uuid_law_def)
    moreover have "fst (submission_get env codec user' sid d') = Inr (if user' = user then Some (SubmissionCompleted ?v) else None)"
      using assms(5) json row(2,3) find [of "\<lambda>r. submission_user r = user'" ?row]
      by (simp add: submission_get_def and_then_def query_def ret_def d')
    ultimately show ?thesis
      using assms(10) read by (cases "submission_get env codec user' sid d'") (simp add: get_handler_def)
  qed
  with p task show ?thesis
    by (intro exI [of _ p]) (auto simp: Let_def submit_message_of_payload submit_message_of_with)
qed

subsection \<open>Services to run\<close>

definition hidden_case_shown :: verdict_task_result where
  "hidden_case_shown = Stopped (WrongAnswer \<lparr>case_input = ''40 2'', case_output = ''42''\<rparr> ''41'' [])"

text \<open>A codec that knows this one verdict.\<close>

definition demo_verdicts :: verdict_codec where
  "demo_verdicts =
     \<lparr>to_value = \<lambda>v. if v = result_into_response hidden_case_shown then Some ''j'' else None,
      from_value = \<lambda>j. if j = ''j'' then Some (result_into_response hidden_case_shown) else None\<rparr>"

definition demo_post :: post_request where
  "demo_post = \<lparr>post_source_code = ''int main() {}'', post_problem_id = 1, post_language = AcceptableCpp\<rparr>"

definition demo_headers :: headers where
  "demo_headers = [''x-user-id'' \<mapsto> [''7'']]"

definition demo_world :: world where
  "demo_world = empty_world (demo_db\<lparr>tables_of := demo_tables\<lparr>problems := [demo_problem 1 8 10]\<rparr>\<rparr>)"

lemma demo_user: "user_id_required demo_lib demo_headers = Inr 7"
proof -
  have "uuid_parse demo_lib ''7'' = Some 7" by (rule demo_lib_run)
  then show ?thesis
    by (simp add: user_id_required_def extract_x_user_id_def header_get_def demo_headers_def to_str_def visible_def)
qed

lemma service_reach_intros:
  "reach i (service_step lib codec judges payload cfg topo) w \<Longrightarrow>
     reach i (service_step lib codec judges payload cfg topo) (snd (post_handler lib env payload cfg topo sent h req w))"
  "reach i (service_step lib codec judges payload cfg topo) w \<Longrightarrow> (\<And>task. judges task (judge task)) \<Longrightarrow>
     reach i (service_step lib codec judges payload cfg topo) (consume lib env codec judge ack_sent w)"
  "reach i (service_step lib codec judges payload cfg topo) w \<Longrightarrow> reach i (service_step lib codec judges payload cfg topo) (reconnect w)"
  "reach i (service_step lib codec judges payload cfg topo) w \<Longrightarrow> reach i (service_step lib codec judges payload cfg topo) (broker_loses I J w)"
  by (rule reach_step, assumption, rule service_step.intros; assumption?)+

lemma defaults_agree: "publish_exchange publish_config_default = exchange_name topology_default"
  "publish_routing_key publish_config_default = submit_route topology_default"
  by (simp_all add: publish_config_default_def topology_default_def)

lemma payloads_faithful: "faithful_payload submit_payload" "faithful_payload (message_with ''submission_id'' ''task'')"
  by (simp_all add: faithful_payload_def submit_message_of_payload submit_message_of_with)

lemma demo_posted:
  "post_handler demo_lib demo_env payload publish_config_default topology_default True demo_headers demo_post demo_world =
     (Inr 100, snd (post_handler demo_lib demo_env payload publish_config_default topology_default True demo_headers demo_post demo_world))"
  using demo_user
  by (simp add: post_handler_def create_pending_def and_then_def find_problem_def query_def ret_def draw_id_def insert_submission_def
      execute_def demo_env_def demo_world_def empty_world_def demo_db_def demo_tables_def demo_problem_def demo_post_def problem_ids_def)


theorem submissions_never_judged_witness:
  "filter (\<lambda>r. submission_status r = Completed)
     (rows_of (consume demo_lib demo_env demo_verdicts (\<lambda>_. Inr hidden_case_shown) True
       (snd (post_handler demo_lib demo_env submit_payload publish_config_default topology_default True demo_headers demo_post demo_world)))) = []"
proof -
  let ?w = "consume demo_lib demo_env demo_verdicts (\<lambda>_. Inr hidden_case_shown) True
     (snd (post_handler demo_lib demo_env submit_payload publish_config_default topology_default True demo_headers demo_post demo_world))"
  have r: "reach demo_world (service_step demo_lib demo_verdicts (\<lambda>_ _. True) submit_payload publish_config_default topology_default) ?w"
    by (intro service_reach_intros reach_init TrueI)
  have "\<forall>r \<in> set (rows_of ?w). submission_status r = Pending"
    using submissions_never_judged [OF r[unfolded demo_world_def], folded demo_world_def] by (simp add: demo_db_def demo_tables_def)
  then show ?thesis by (simp add: filter_empty_conv)
qed

lemma always_up: "up (demo_env\<lparr>up := \<lambda>_. True\<rparr>) i" by simp

lemma demo_posted_up:
  "\<exists>w'. post_handler demo_lib (demo_env\<lparr>up := \<lambda>_. True\<rparr>) payload publish_config_default topology_default True
     demo_headers demo_post demo_world = (Inr 100, w')"
  using demo_user
  by (simp add: post_handler_def create_pending_def and_then_def find_problem_def query_def ret_def draw_id_def insert_submission_def
      execute_def demo_env_def demo_world_def empty_world_def demo_db_def demo_tables_def demo_problem_def demo_post_def problem_ids_def)

theorem verdict_reaches_user_witness:
  "let env = demo_env\<lparr>up := \<lambda>_. True\<rparr>;
       answer = (\<lambda>payload. fst (get_handler demo_lib env demo_verdicts demo_headers 100
         (consume demo_lib env demo_verdicts (\<lambda>t. Inr hidden_case_shown) True
           (snd (post_handler demo_lib env payload publish_config_default topology_default True demo_headers demo_post demo_world)))))
   in answer submit_payload = Inr SubmissionPending \<and>
      answer (message_with ''submission_id'' ''task'') = Inr (SubmissionCompleted (result_into_response hidden_case_shown))"
proof -
  have "ready demo_world = []" by (simp add: demo_world_def empty_world_def)
  note facts = this
  have codec: "\<exists>j. to_value demo_verdicts (result_into_response hidden_case_shown) = Some j \<and>
      from_value demo_verdicts j = Some (result_into_response hidden_case_shown)"
    by (simp add: demo_verdicts_def)
  obtain w1 w2 where
    post: "post_handler demo_lib (demo_env\<lparr>up := \<lambda>_. True\<rparr>) submit_payload publish_config_default
      topology_default True demo_headers demo_post demo_world = (Inr 100, w1)"
    "post_handler demo_lib (demo_env\<lparr>up := \<lambda>_. True\<rparr>) (message_with ''submission_id'' ''task'') publish_config_default
      topology_default True demo_headers demo_post demo_world = (Inr 100, w2)"
    using demo_posted_up by blast
  note answers = verdict_reaches_user [OF demo_lib_laws(3) _ defaults_agree always_up _ demo_user facts _ demo_user,
      where verdict_of = "\<lambda>_. hidden_case_shown" and codec = demo_verdicts]
  from answers [OF payloads_faithful(1) codec post(1)] answers [OF payloads_faithful(2) codec post(2)] post
  show ?thesis by (auto simp: Let_def)
qed

text \<open>Hidden test cases reach everybody who submits a wrong program: the listing of test cases hides them
  from other users, but the verdict a submitter reads contains the case that failed, with its input and its
  expected output.\<close>
theorem hidden_case_reaches_submitter:
  "let env = demo_env\<lparr>up := \<lambda>_. True\<rparr>;
       judge = (\<lambda>t. Inr (Stopped (WrongAnswer (last (task_cases t)) ''41'' [])));
       w = consume demo_lib env demo_verdicts judge True
             (snd (post_handler demo_lib env (message_with ''submission_id'' ''task'') publish_config_default topology_default True
                     demo_headers demo_post demo_world))
   in fst (get_handler demo_lib env demo_verdicts demo_headers 100 w) =
        Inr (SubmissionCompleted (RStopped (RWrongAnswer \<lparr>case_input = ''40 2'', case_output = ''42''\<rparr> ''41'' []))) \<and>
      map_sum id (map row_input \<circ> snd) (fst (get_test_cases_handler env 7 1 (world_db w))) = Inr [''1 2'']"
proof -
  have id: "uuid_parse demo_lib (uuid_show demo_lib 100) = Some 100"
    using demo_lib_laws(3) by (simp add: uuid_law_def)
  show ?thesis
    using demo_user id
    by (simp add: Let_def post_handler_def create_pending_def and_then_def find_problem_def query_def ret_def draw_id_def
        insert_submission_def execute_def demo_env_def demo_world_def empty_world_def demo_db_def demo_tables_def demo_problem_def
        demo_post_def problem_ids_def publish_def publish_config_default_def topology_default_def consume_def process_message_def
        submit_message_of_with task_for_def mark_completed_def save_submission_def demo_verdicts_def hidden_case_shown_def
        get_handler_def submission_get_def get_test_cases_handler_def test_cases_get_def respond_def)
qed

end
