(* ===== verification/Submission_Verdicts.thy ===== *)
theory Submission_Verdicts
  imports Submissions
begin

text \<open>
  What a completed submission tells its user (\<open>api_server_submission\<close>, \<open>submission_processor\<close>,
  \<open>api_server_db/src/repositories/submissions.rs\<close>): in every run of the services, with other submissions,
  changes of the problem, failures and redeliveries in between, the verdict of a submission is the judge's
  verdict on the task that was made when the submission was accepted.
\<close>

definition messages :: "world \<Rightarrow> json_object set" where
  "messages w = set (ready w) \<union> set (unacked w)"

abbreviation ids_of :: "world \<Rightarrow> uuid set" where
  "ids_of w \<equiv> submission_id ` set (rows_of w)"

text \<open>Every message is about a submission of the table.\<close>

definition messages_known :: "auth_lib \<Rightarrow> world \<Rightarrow> bool" where
  "messages_known lib w \<longleftrightarrow>
     (\<forall>m \<in> messages w. \<forall>s task. submit_message_of m = Some (s, task) \<longrightarrow> (\<exists>sid \<in> ids_of w. uuid_parse lib s = Some sid))"

text \<open>Submission \<open>sid\<close>, which was accepted with \<open>task\<close>: its messages carry this task, and if it is completed then
  with a verdict of the judge on this task.\<close>

definition tracked ::
  "auth_lib \<Rightarrow> verdict_codec \<Rightarrow> (verdict_task \<Rightarrow> sdk_error + verdict_task_result \<Rightarrow> bool) \<Rightarrow> uuid \<Rightarrow> verdict_task \<Rightarrow> world \<Rightarrow> bool" where
  "tracked lib codec judges sid task w \<longleftrightarrow>
     sid \<in> ids_of w \<and>
     (\<forall>m \<in> messages w. \<forall>s t. submit_message_of m = Some (s, t) \<longrightarrow> uuid_parse lib s = Some sid \<longrightarrow> t = task) \<and>
     (\<forall>r \<in> set (rows_of w). submission_id r = sid \<longrightarrow> submission_status r = Completed \<longrightarrow>
        (\<exists>v json. judges task (Inr v) \<and> to_value codec (result_into_response v) = Some json \<and> submission_result r = Some json))"

lemma messages_knownD:
  "messages_known lib w \<Longrightarrow> m \<in> messages w \<Longrightarrow> submit_message_of m = Some (s, task) \<Longrightarrow>
     \<exists>sid \<in> ids_of w. uuid_parse lib s = Some sid"
  by (simp add: messages_known_def)

lemma messages_knownI:
  "(\<And>m s task. m \<in> messages w \<Longrightarrow> submit_message_of m = Some (s, task) \<Longrightarrow> \<exists>sid \<in> ids_of w. uuid_parse lib s = Some sid) \<Longrightarrow>
     messages_known lib w"
  unfolding messages_known_def by blast

lemma messages_known_mono:
  assumes "messages_known lib w" and "messages w' \<subseteq> messages w" and "ids_of w \<subseteq> ids_of w'"
  shows "messages_known lib w'"
proof (rule messages_knownI)
  fix m s task assume m: "m \<in> messages w'" "submit_message_of m = Some (s, task)"
  from messages_knownD [OF assms(1) subsetD [OF assms(2) m(1)] m(2)] assms(3) show "\<exists>sid \<in> ids_of w'. uuid_parse lib s = Some sid" by blast
qed

lemma trackedD:
  assumes "tracked lib codec judges sid task w"
  shows "sid \<in> ids_of w"
    and "m \<in> messages w \<Longrightarrow> submit_message_of m = Some (s, t) \<Longrightarrow> uuid_parse lib s = Some sid \<Longrightarrow> t = task"
    and "r \<in> set (rows_of w) \<Longrightarrow> submission_id r = sid \<Longrightarrow> submission_status r = Completed \<Longrightarrow>
      \<exists>v json. judges task (Inr v) \<and> to_value codec (result_into_response v) = Some json \<and> submission_result r = Some json"
  using assms unfolding tracked_def by blast+

lemma trackedI:
  assumes "sid \<in> ids_of w"
    and "\<And>m s t. m \<in> messages w \<Longrightarrow> submit_message_of m = Some (s, t) \<Longrightarrow> uuid_parse lib s = Some sid \<Longrightarrow> t = task"
    and "\<And>r. r \<in> set (rows_of w) \<Longrightarrow> submission_id r = sid \<Longrightarrow> submission_status r = Completed \<Longrightarrow>
      \<exists>v json. judges task (Inr v) \<and> to_value codec (result_into_response v) = Some json \<and> submission_result r = Some json"
  shows "tracked lib codec judges sid task w"
  using assms unfolding tracked_def by blast

lemma tracked_mono:
  assumes "tracked lib codec judges sid task w" and "messages w' \<subseteq> messages w" and "ids_of w \<subseteq> ids_of w'"
    and "\<And>r. r \<in> set (rows_of w') \<Longrightarrow> submission_id r = sid \<Longrightarrow> submission_status r = Completed \<Longrightarrow> r \<in> set (rows_of w)"
  shows "tracked lib codec judges sid task w'"
proof (rule trackedI)
  show "sid \<in> ids_of w'" using trackedD(1) [OF assms(1)] assms(3) by blast
next
  fix m s t assume m: "m \<in> messages w'" "submit_message_of m = Some (s, t)" "uuid_parse lib s = Some sid"
  from trackedD(2) [OF assms(1) subsetD [OF assms(2) m(1)] m(2,3)] show "t = task" .
next
  fix r assume r: "r \<in> set (rows_of w')" "submission_id r = sid" "submission_status r = Completed"
  from trackedD(3) [OF assms(1) assms(4) [OF r] r(2,3)]
  show "\<exists>v json. judges task (Inr v) \<and> to_value codec (result_into_response v) = Some json \<and> submission_result r = Some json" .
qed

subsection \<open>What the steps do to messages and rows\<close>

lemma post_handler_cases:
  assumes "post_handler lib env payload cfg topo sent h req w = (r, w')"
  obtains (refused) code where "r = Inl code" and "messages w' = messages w"
      and "rows_of w' = rows_of w \<or> (\<exists>row. rows_of w' = rows_of w @ [row] \<and> submission_status row = Pending)"
  | (accepted) sid task row p where "r = Inr sid" and "messages w' \<subseteq> insert (payload (uuid_show lib sid) task) (messages w)"
      and "rows_of w' = rows_of w @ [row]" and "submission_id row = sid" and "submission_status row = Pending" and "sid \<notin> ids_of w"
      and "p \<in> set (problems (tables_of (world_db w)))" and "problem_id p = post_problem_id req"
      and "task = task_for p (filter (\<lambda>c. case_problem c = post_problem_id req) (test_cases (tables_of (world_db w))))
        (post_source_code req) (post_language req)"
proof (cases r)
  case (Inl code)
  have "messages w' = messages w"
    using assms Inl by (auto simp: post_handler_def messages_def split: sum.splits prod.splits if_splits)
  moreover have "rows_of w' = rows_of w \<or> (\<exists>row. rows_of w' = rows_of w @ [row] \<and> submission_status row = Pending)"
    using post_handler_rows [of lib env payload cfg topo sent h req w] assms by auto
  ultimately show ?thesis using refused Inl by blast
next
  case (Inr sid)
  with assms obtain user where user: "user_id_required lib h = Inr user" by (auto simp: post_handler_def split: sum.splits)
  obtain r' d where create: "create_pending env (post_problem_id req) user (post_source_code req) (post_language req) (world_db w) = (r', d)"
    by fastforce
  with assms Inr user obtain task where r': "r' = Inr (sid, task)" by (auto simp: post_handler_def split: sum.splits if_splits)
  have w': "world_db w' = d" "messages w' \<subseteq> insert (payload (uuid_show lib sid) task) (messages w)"
    using assms Inr user create r' by (auto simp: post_handler_def publish_def messages_def split: if_splits)
  from create_pending_Inr [OF create [unfolded r']] w' accepted [OF Inr w'(2)] show ?thesis by auto
qed

lemma completed_ids:
  assumes "submission_id row = sid"
  shows "submission_id ` set (map (\<lambda>q. if submission_id q = sid
      then row\<lparr>submission_status := Completed, submission_result := Some json, completed_at := t\<rparr> else q) rows) = submission_id ` set rows"
proof -
  have "submission_id (if submission_id q = sid
      then row\<lparr>submission_status := Completed, submission_result := Some json, completed_at := t\<rparr> else q) = submission_id q" for q
    using assms by simp
  then show ?thesis by (simp only: set_map image_image)
qed

lemma consume_cases:
  assumes "consume lib env codec judge ack_sent w = w'"
  obtains (unchanged) "rows_of w' = rows_of w" and "messages w' \<subseteq> messages w"
  | (marks) m s task v sid row json where "m \<in> messages w" and "submit_message_of m = Some (s, task)" and "judge task = Inr v"
      and "uuid_parse lib s = Some sid" and "to_value codec (result_into_response v) = Some json" and "messages w' \<subseteq> messages w"
      and "row \<in> set (rows_of w)" and "submission_id row = sid"
      and "rows_of w' = map (\<lambda>q. if submission_id q = sid
         then row\<lparr>submission_status := Completed, submission_result := Some json, completed_at := Some (utc_now env)\<rparr> else q) (rows_of w)"
proof (cases "ready w")
  case Nil
  with assms have "w' = w" by (simp add: consume_def)
  with unchanged show ?thesis by simp
next
  case (Cons m ms)
  obtain x acked d where p: "process_message lib env codec judge m (world_db w) = ((x, acked), d)" by (metis surj_pair)
  have db: "world_db w' = d" and sub: "messages w' \<subseteq> messages w"
    using assms Cons p by (auto simp: consume_def messages_def split: if_splits)
  show ?thesis
  proof (cases "submissions (tables_of d) = rows_of w")
    case True
    with unchanged db sub show ?thesis by simp
  next
    case False
    with p obtain s task v sid r where m: "submit_message_of m = Some (s, task)" "judge task = Inr v" "uuid_parse lib s = Some sid"
      and mc: "mark_completed env codec sid (result_into_response v) (world_db w) = (r, d)"
      by (auto simp: process_message_def Let_def split: option.splits sum.splits prod.splits)
    have "m \<in> messages w" using Cons by (simp add: messages_def)
    with mark_completed_cases [OF mc] False db sub m marks show ?thesis by blast
  qed
qed

lemma broker_loses_messages: "messages (broker_loses I J w) \<subseteq> messages w"
  by (auto simp: messages_def broker_loses_def dest: in_set_nthsD)

lemma quiet_steps:
  "rows_of (snd (get_handler lib env codec h sid w)) = rows_of w \<and> messages (snd (get_handler lib env codec h sid w)) = messages w"
  "rows_of (w\<lparr>world_db := snd (problem_api env contains order user req (world_db w))\<rparr>) = rows_of w \<and>
     messages (w\<lparr>world_db := snd (problem_api env contains order user req (world_db w))\<rparr>) = messages w"
  "rows_of (reconnect w) = rows_of w \<and> messages (reconnect w) = messages w"
  by (auto simp: messages_def problem_api_submissions reconnect_def)
     (auto simp: get_handler_def split: sum.splits prod.splits option.splits)

text \<open>Every step but a post keeps the ids and adds no message.\<close>

lemma step_keeps:
  assumes "service_step lib codec judges payload cfg topo w w'"
  obtains (posted) env sent h req r where "post_handler lib env payload cfg topo sent h req w = (r, w')"
  | (quiet) "rows_of w' = rows_of w" and "messages w' \<subseteq> messages w"
  | (completes) m s task v sid row json t where "m \<in> messages w" and "submit_message_of m = Some (s, task)" and "judges task (Inr v)"
      and "uuid_parse lib s = Some sid" and "to_value codec (result_into_response v) = Some json" and "messages w' \<subseteq> messages w"
      and "submission_id row = sid" and "rows_of w' = map (\<lambda>q. if submission_id q = sid
         then row\<lparr>submission_status := Completed, submission_result := Some json, completed_at := t\<rparr> else q) (rows_of w)"
  using assms
proof cases
  case (step_post env sent h req)
  with posted show ?thesis by (metis surjective_pairing)
next
  case (step_get env h sid)
  with quiet quiet_steps(1) show ?thesis by simp
next
  case (step_problems env contains order user req)
  with quiet quiet_steps(2) show ?thesis by simp
next
  case (step_consume judge env ack_sent)
  from step_consume(1) [symmetric] show ?thesis
  proof (cases rule: consume_cases)
    case unchanged
    then show ?thesis by (rule quiet)
  next
    case (marks m s task v sid row json)
    have "judges task (Inr v)" using step_consume(2) [of task] marks(3) by simp
    from completes [OF marks(1,2) this marks(4,5,6,8,9)] show ?thesis .
  qed
next
  case step_reconnect
  with quiet quiet_steps(3) show ?thesis by simp
next
  case (step_loses I J)
  with quiet broker_loses_messages [of I J w] show ?thesis by (simp add: broker_loses_def)
qed

lemma messages_known_step:
  assumes known: "messages_known lib w" and "uuid_law lib" and "faithful_payload payload" and "service_step lib codec judges payload cfg topo w w'"
  shows "messages_known lib w'"
  using assms(4)
proof (cases rule: step_keeps)
  case (posted env sent h req r)
  then show ?thesis
  proof (cases rule: post_handler_cases)
    case (refused code)
    from refused(3) have "ids_of w \<subseteq> ids_of w'" by auto
    with messages_known_mono [OF known] refused(2) show ?thesis by simp
  next
    case (accepted sid task row p)
    show ?thesis
    proof (rule messages_knownI)
      fix m s t assume m: "m \<in> messages w'" "submit_message_of m = Some (s, t)"
      show "\<exists>sid \<in> ids_of w'. uuid_parse lib s = Some sid"
      proof (cases "m \<in> messages w")
        case True
        from messages_knownD [OF known this m(2)] accepted(3) show ?thesis by auto
      next
        case False
        with m accepted(2) have "submit_message_of (payload (uuid_show lib sid) task) = Some (s, t)" by auto
        with faithful_payloadD [OF assms(3)] have "s = uuid_show lib sid" by blast
        with assms(2) accepted(3,4) show ?thesis by (simp add: uuid_law_def)
      qed
    qed
  qed
next
  case quiet
  then show ?thesis by (intro messages_known_mono [OF known]) simp_all
next
  case (completes m s task v sid row json t)
  from completed_ids [OF completes(7)] completes(8) have "ids_of w' = ids_of w" by simp
  with completes(6) show ?thesis by (intro messages_known_mono [OF known]) simp_all
qed

lemma tracked_step:
  assumes tr: "tracked lib codec judges sid task w" and "uuid_law lib" and "faithful_payload payload" and "service_step lib codec judges payload cfg topo w w'"
  shows "tracked lib codec judges sid task w'"
  using assms(4)
proof (cases rule: step_keeps)
  case (posted env sent h req r)
  then show ?thesis
  proof (cases rule: post_handler_cases)
    case (refused code)
    show ?thesis by (rule tracked_mono [OF tr]) (use refused(2,3) in auto)
  next
    case (accepted sid' task' row p)
    have "sid' \<noteq> sid" using trackedD(1) [OF tr] accepted(6) by blast
    with assms(2) have parse: "uuid_parse lib (uuid_show lib sid') \<noteq> Some sid" by (simp add: uuid_law_def)
    show ?thesis
    proof (rule trackedI)
      show "sid \<in> ids_of w'" using trackedD(1) [OF tr] accepted(3) by simp
    next
      fix m s t assume m: "m \<in> messages w'" "submit_message_of m = Some (s, t)" "uuid_parse lib s = Some sid"
      have "m \<noteq> payload (uuid_show lib sid') task'"
        using faithful_payloadD [OF assms(3), of "uuid_show lib sid'" task'] m(2,3) parse by auto
      with accepted(2) m(1) have "m \<in> messages w" by blast
      from trackedD(2) [OF tr this m(2,3)] show "t = task" .
    next
      fix r assume r: "r \<in> set (rows_of w')" "submission_id r = sid" "submission_status r = Completed"
      with accepted(3,5) have "r \<in> set (rows_of w)" by auto
      from trackedD(3) [OF tr this r(2,3)]
      show "\<exists>v json. judges task (Inr v) \<and> to_value codec (result_into_response v) = Some json \<and> submission_result r = Some json" .
    qed
  qed
next
  case quiet
  show ?thesis by (rule tracked_mono [OF tr]) (use quiet in auto)
next
  case (completes m s t v sid' row json time)
  from completed_ids [OF completes(7)] completes(8) have ids: "ids_of w' = ids_of w" by simp
  show ?thesis
  proof (cases "sid' = sid")
    case False
    have "r \<in> set (rows_of w)" if "r \<in> set (rows_of w')" "submission_id r = sid" for r
      using that False completes(7,8) by auto
    with ids completes(6) show ?thesis by (intro tracked_mono [OF tr]) simp_all
  next
    case True
    with trackedD(2) [OF tr completes(1,2)] completes(4) have t: "t = task" by simp
    show ?thesis
    proof (rule trackedI)
      show "sid \<in> ids_of w'" using trackedD(1) [OF tr] ids by simp
    next
      fix m s t assume m: "m \<in> messages w'" "submit_message_of m = Some (s, t)" "uuid_parse lib s = Some sid"
      from trackedD(2) [OF tr subsetD [OF completes(6) m(1)] m(2,3)] show "t = task" .
    next
      fix r assume "r \<in> set (rows_of w')" "submission_id r = sid"
      then have "submission_result r = Some json" using True completes(8) by auto
      with completes(3,5) t
      show "\<exists>v json. judges task (Inr v) \<and> to_value codec (result_into_response v) = Some json \<and> submission_result r = Some json" by blast
    qed
  qed
qed

lemma messages_known_reach:
  assumes "reach (empty_world d) (service_step lib codec judges payload cfg topo) w" and "uuid_law lib" and "faithful_payload payload"
  shows "messages_known lib w"
  using assms(1)
proof induction
  case reach_init
  show ?case by (simp add: messages_known_def messages_def empty_world_def)
next
  case (reach_step s t)
  from messages_known_step [OF reach_step.IH assms(2,3) reach_step.hyps(2)] show ?case .
qed

lemma tracked_reach:
  assumes "reach w0 (service_step lib codec judges payload cfg topo) w" and "tracked lib codec judges sid task w0" and "uuid_law lib" and "faithful_payload payload"
  shows "tracked lib codec judges sid task w"
  using assms(1)
proof induction
  case reach_init
  show ?case by (rule assms(2))
next
  case (reach_step s t)
  from tracked_step [OF reach_step.IH assms(3,4) reach_step.hyps(2)] show ?case .
qed

lemma accepted_tracked:
  assumes "post_handler lib env payload cfg topo sent h req w = (Inr sid, w')" and "messages_known lib w" and "uuid_law lib" and "faithful_payload payload"
  obtains p where "p \<in> set (problems (tables_of (world_db w)))" and "problem_id p = post_problem_id req"
    and "tracked lib codec judges sid (task_for p (filter (\<lambda>c. case_problem c = post_problem_id req) (test_cases (tables_of (world_db w))))
      (post_source_code req) (post_language req)) w'"
  using assms(1)
proof (cases rule: post_handler_cases)
  case (accepted sid' task row p)
  then have sid: "sid' = sid" by simp
  have "tracked lib codec judges sid task w'"
    unfolding tracked_def
  proof (intro conjI allI impI ballI)
    show "sid \<in> ids_of w'" using accepted sid by simp
  next
    fix m s t assume "m \<in> messages w'" "submit_message_of m = Some (s, t)" "uuid_parse lib s = Some sid"
    moreover have "m \<notin> messages w"
      using accepted(6) assms(2) calculation(2,3) unfolding messages_known_def sid by force
    ultimately have "submit_message_of (payload (uuid_show lib sid') task) = Some (s, t)" using accepted(2) by auto
    with faithful_payloadD [OF assms(4)] show "t = task" by blast
  next
    fix r assume "r \<in> set (rows_of w')" "submission_id r = sid" "submission_status r = Completed"
    moreover have "r \<notin> set (rows_of w)" using accepted(4,6) \<open>submission_id r = sid\<close> sid by (auto simp: image_iff)
    ultimately show "\<exists>v json. judges task (Inr v) \<and> to_value codec (result_into_response v) = Some json \<and> submission_result r = Some json"
      using accepted(3,5) by auto
  qed
  with that accepted show ?thesis by blast
qed simp

lemma get_handler_completed:
  assumes "fst (get_handler lib env codec h sid w) = Inr (SubmissionCompleted verdict)"
  shows "\<exists>r json. r \<in> set (rows_of w) \<and> submission_id r = sid \<and> submission_status r = Completed \<and>
    submission_result r = Some json \<and> from_value codec json = Some verdict"
  using assms
  by (auto simp: get_handler_def submission_get_def and_then_def query_def ret_def fail_def dest!: find_Some_split
      split: sum.splits prod.splits option.splits if_splits intro: submission_status.exhaust)

text \<open>When a query answers that an accepted submission is completed, after any run of the services from its
  acceptance on, its verdict is one the judge gave on the task made of the submitted source and of the
  problem's test cases and limits when the submission was accepted.\<close>

lemma submission_verdict:
  assumes "uuid_law lib" and "\<And>v json. to_value codec v = Some json \<Longrightarrow> from_value codec json = Some v"
    and "faithful_payload payload" and "reach (empty_world d) (service_step lib codec judges payload cfg topo) w"
    and "post_handler lib env payload cfg topo sent h req w = (Inr sid, w1)"
    and "reach w1 (service_step lib codec judges payload cfg topo) w2"
    and "fst (get_handler lib env' codec h' sid w2) = Inr (SubmissionCompleted verdict)"
  obtains p result where "p \<in> set (problems (tables_of (world_db w)))" and "problem_id p = post_problem_id req"
    and "verdict = result_into_response result"
    and "judges (task_for p (filter (\<lambda>c. case_problem c = post_problem_id req) (test_cases (tables_of (world_db w))))
      (post_source_code req) (post_language req)) (Inr result)"
proof -
  from accepted_tracked [OF assms(5) messages_known_reach [OF assms(4,1,3)] assms(1,3)] obtain p where
    p: "p \<in> set (problems (tables_of (world_db w)))" "problem_id p = post_problem_id req"
    and tr: "tracked lib codec judges sid (task_for p (filter (\<lambda>c. case_problem c = post_problem_id req)
      (test_cases (tables_of (world_db w)))) (post_source_code req) (post_language req)) w1" by metis
  from get_handler_completed [OF assms(7)] obtain r json where r: "r \<in> set (rows_of w2)" "submission_id r = sid"
      "submission_status r = Completed" "submission_result r = Some json" "from_value codec json = Some verdict" by blast
  from trackedD(3) [OF tracked_reach [OF assms(6) tr assms(1,3)] r(1-3)] r(4) obtain result where
    j: "judges (task_for p (filter (\<lambda>c. case_problem c = post_problem_id req) (test_cases (tables_of (world_db w))))
      (post_source_code req) (post_language req)) (Inr result)" and v: "to_value codec (result_into_response result) = Some json" by auto
  from assms(2) [OF v] r(5) have "verdict = result_into_response result" by simp
  from that [OF p this j] show thesis .
qed

end
