(* ===== verification/Endpoints.thy ===== *)
theory Endpoints
  imports Gateway_Pipeline Submissions
begin

text \<open>
  The routers of the HTTP services: \<open>auth/src/router.rs\<close> (\<open>router\<close>, \<open>jwks_router\<close>, nested in
  \<open>api_server_auth/src/main.rs\<close>), \<open>api_server/src/routers/problems.rs\<close> (\<open>router\<close>, nested in
  \<open>api_server/src/main.rs\<close>) and \<open>api_server_submission/src/router.rs\<close> (\<open>router\<close>).  A service is a function of
  a request's method, path, query, headers and body; the parsers of bodies and queries are parameters that
  answer the parsed value or the status of the rejection.  Whether a path matches the pattern of a route is
  decided by the web framework, a parameter too (\<open>matcher\<close>).
\<close>

subsection \<open>Route tables\<close>

datatype segment = Exactly string | Capture

type_synonym 'e route_table = "(segment list \<times> (string \<times> 'e) list) list"

text \<open>The captured segments if the path matches.\<close>

type_synonym matcher = "segment list \<Rightarrow> string \<Rightarrow> string list option"

text \<open>Of an entry the method decides; the framework lets \<open>GET\<close> handlers answer \<open>HEAD\<close>.\<close>

datatype 'e dispatched = NoPath | NoMethod | Endpoint 'e "string list"

fun dispatch :: "matcher \<Rightarrow> 'e route_table \<Rightarrow> string \<Rightarrow> string \<Rightarrow> 'e dispatched" where
  "dispatch pm [] m path = NoPath"
| "dispatch pm ((pattern, methods) # rest) m path =
     (case pm pattern path of
        None \<Rightarrow> dispatch pm rest m path
      | Some cs \<Rightarrow>
          (case map_of methods (if m = ''HEAD'' then ''GET'' else m) of
             None \<Rightarrow> NoMethod
           | Some e \<Rightarrow> Endpoint e cs))"

definition nest :: "string list \<Rightarrow> 'e route_table \<Rightarrow> 'e route_table" where
  "nest base table = map (\<lambda>(pattern, methods). (map Exactly base @ pattern, methods)) table"

text \<open>What a service does with a request that reaches no handler.\<close>

definition served :: "'e dispatched \<Rightarrow> ('e \<Rightarrow> string list \<Rightarrow> 's \<Rightarrow> (nat + 'r) \<times> 's) \<Rightarrow> 's \<Rightarrow> (nat + 'r) \<times> 's" where
  "served d handler s =
     (case d of
        NoPath \<Rightarrow> (Inl 404, s)
      | NoMethod \<Rightarrow> (Inl 405, s)
      | Endpoint e cs \<Rightarrow> handler e cs s)"

definition identity_or_status :: "auth_lib \<Rightarrow> headers \<Rightarrow> nat + uuid" where
  "identity_or_status lib h = map_sum rej_status id (user_id_required lib h)"

text \<open>The only capture of a path is an identifier.\<close>

definition path_id :: "auth_lib \<Rightarrow> string list \<Rightarrow> nat + uuid" where
  "path_id lib cs =
     (case cs of
        [] \<Rightarrow> Inl 500
      | c # _ \<Rightarrow> (case uuid_parse lib c of None \<Rightarrow> Inl 400 | Some u \<Rightarrow> Inr u))"

subsection \<open>The problem API\<close>

datatype problem_endpoint =
    List_Problems | Create_Problem | Get_Stat | Get_Problem | Update_Problem | Delete_Problem | Get_Test_Cases | Replace_Test_Cases

definition problem_router :: "problem_endpoint route_table" where
  "problem_router =
     [([], [(''GET'', List_Problems), (''POST'', Create_Problem)]),
      ([Exactly ''stat''], [(''GET'', Get_Stat)]),
      ([Capture], [(''GET'', Get_Problem), (''PATCH'', Update_Problem), (''DELETE'', Delete_Problem)]),
      ([Capture, Exactly ''cases''], [(''GET'', Get_Test_Cases), (''PUT'', Replace_Test_Cases)])]"

record problem_bodies =
  parse_queries :: "string option \<Rightarrow> nat + list_queries"
  parse_create :: "string \<Rightarrow> nat + create_request"
  parse_update :: "string \<Rightarrow> nat + update_request"
  parse_cases :: "string \<Rightarrow> nat + case_input_request list"

text \<open>The arguments of a handler, extracted in their order; a handler without \<open>UserId\<close> is given no identity.\<close>

fun problem_extract ::
  "auth_lib \<Rightarrow> problem_bodies \<Rightarrow> problem_endpoint \<Rightarrow> string list \<Rightarrow> string option \<Rightarrow> headers \<Rightarrow> string \<Rightarrow>
     nat + (uuid option \<times> api_request)"
where
  "problem_extract lib pb List_Problems cs qs h body =
     sum_bind (parse_queries pb qs) (\<lambda>q. Inr (None, ListProblems q))"
| "problem_extract lib pb Create_Problem cs qs h body =
     sum_bind (identity_or_status lib h) (\<lambda>user.
     sum_bind (parse_create pb body) (\<lambda>req. Inr (Some user, CreateProblem req)))"
| "problem_extract lib pb Get_Stat cs qs h body = Inr (None, GetStat)"
| "problem_extract lib pb Get_Problem cs qs h body =
     sum_bind (path_id lib cs) (\<lambda>pid. Inr (None, GetProblem pid))"
| "problem_extract lib pb Update_Problem cs qs h body =
     sum_bind (identity_or_status lib h) (\<lambda>user.
     sum_bind (path_id lib cs) (\<lambda>pid.
     sum_bind (parse_update pb body) (\<lambda>req. Inr (Some user, UpdateProblem pid req))))"
| "problem_extract lib pb Delete_Problem cs qs h body =
     sum_bind (identity_or_status lib h) (\<lambda>user.
     sum_bind (path_id lib cs) (\<lambda>pid. Inr (Some user, DeleteProblem pid)))"
| "problem_extract lib pb Get_Test_Cases cs qs h body =
     sum_bind (identity_or_status lib h) (\<lambda>user.
     sum_bind (path_id lib cs) (\<lambda>pid. Inr (Some user, GetTestCases pid)))"
| "problem_extract lib pb Replace_Test_Cases cs qs h body =
     sum_bind (identity_or_status lib h) (\<lambda>user.
     sum_bind (path_id lib cs) (\<lambda>pid.
     sum_bind (parse_cases pb body) (\<lambda>cases. Inr (Some user, ReplaceTestCases pid cases))))"

definition problem_handler ::
  "auth_lib \<Rightarrow> problem_bodies \<Rightarrow> db_env \<Rightarrow> (string \<Rightarrow> string \<Rightarrow> bool) \<Rightarrow> (problem_row list \<Rightarrow> problem_row list) \<Rightarrow>
     string option \<Rightarrow> headers \<Rightarrow> string \<Rightarrow> problem_endpoint \<Rightarrow> string list \<Rightarrow> db \<Rightarrow> (nat + nat) \<times> db" where
  "problem_handler lib pb env contains order qs h body e cs d =
     (case problem_extract lib pb e cs qs h body of
        Inl status \<Rightarrow> (Inl status, d)
      | Inr (user, req) \<Rightarrow> problem_api env contains order (case user of Some u \<Rightarrow> u | None \<Rightarrow> 0) req d)"

definition problem_server ::
  "matcher \<Rightarrow> auth_lib \<Rightarrow> problem_bodies \<Rightarrow> db_env \<Rightarrow> (string \<Rightarrow> string \<Rightarrow> bool) \<Rightarrow> (problem_row list \<Rightarrow> problem_row list) \<Rightarrow>
     string \<Rightarrow> string \<Rightarrow> string option \<Rightarrow> headers \<Rightarrow> string \<Rightarrow> db \<Rightarrow> (nat + nat) \<times> db" where
  "problem_server pm lib pb env contains order m path qs h body =
     served (dispatch pm (nest [''api'', ''v1'', ''problems''] problem_router) m path)
       (problem_handler lib pb env contains order qs h body)"

subsection \<open>The submission server\<close>

datatype submission_endpoint = Post_Submission | Get_Submission

definition submission_router :: "submission_endpoint route_table" where
  "submission_router =
     [([Exactly ''api'', Exactly ''v2'', Exactly ''submissions''], [(''POST'', Post_Submission), (''GET'', Get_Submission)])]"

record submission_bodies =
  parse_post :: "string \<Rightarrow> nat + post_request"
  parse_get :: "string option \<Rightarrow> nat + uuid"

datatype submission_reply = Posted uuid | Queried submission_outcome

fun submission_handler ::
  "auth_lib \<Rightarrow> submission_bodies \<Rightarrow> db_env \<Rightarrow> verdict_codec \<Rightarrow> (string \<Rightarrow> verdict_task \<Rightarrow> json_object) \<Rightarrow> publish_config \<Rightarrow>
     topology \<Rightarrow> bool \<Rightarrow> string option \<Rightarrow> headers \<Rightarrow> string \<Rightarrow> submission_endpoint \<Rightarrow> string list \<Rightarrow> world \<Rightarrow>
     (nat + submission_reply) \<times> world"
where
  "submission_handler lib sb env vc payload cfg topo sent qs h body Post_Submission cs w =
     (case identity_or_status lib h of
        Inl status \<Rightarrow> (Inl status, w)
      | Inr _ \<Rightarrow>
          (case parse_post sb body of
             Inl status \<Rightarrow> (Inl status, w)
           | Inr req \<Rightarrow> map_prod (map_sum id Posted) id (post_handler lib env payload cfg topo sent h req w)))"
| "submission_handler lib sb env vc payload cfg topo sent qs h body Get_Submission cs w =
     (case parse_get sb qs of
        Inl status \<Rightarrow> (Inl status, w)
      | Inr sid \<Rightarrow> map_prod (map_sum id Queried) id (get_handler lib env vc h sid w))"

definition submission_server ::
  "matcher \<Rightarrow> auth_lib \<Rightarrow> submission_bodies \<Rightarrow> db_env \<Rightarrow> verdict_codec \<Rightarrow> (string \<Rightarrow> verdict_task \<Rightarrow> json_object) \<Rightarrow> publish_config \<Rightarrow>
     topology \<Rightarrow> bool \<Rightarrow> string \<Rightarrow> string \<Rightarrow> string option \<Rightarrow> headers \<Rightarrow> string \<Rightarrow> world \<Rightarrow>
     (nat + submission_reply) \<times> world" where
  "submission_server pm lib sb env vc payload cfg topo sent m path qs h body =
     served (dispatch pm submission_router m path)
       (submission_handler lib sb env vc payload cfg topo sent qs h body)"

subsection \<open>The authorization server\<close>

datatype auth_endpoint = Token_Endpoint | Revoke_Endpoint | Introspect_Endpoint | Register_Endpoint | Jwks_Endpoint

definition auth_router :: "auth_endpoint route_table" where
  "auth_router =
     [([Exactly ''token''], [(''POST'', Token_Endpoint)]),
      ([Exactly ''revoke''], [(''POST'', Revoke_Endpoint)]),
      ([Exactly ''introspect''], [(''POST'', Introspect_Endpoint)]),
      ([Exactly ''register''], [(''POST'', Register_Endpoint)])]"

definition jwks_router :: "auth_endpoint route_table" where
  "jwks_router = [([Exactly ''jwks.json''], [(''GET'', Jwks_Endpoint)])]"

record auth_bodies =
  parse_token :: "string \<Rightarrow> nat + token_request"
  parse_revoke :: "string \<Rightarrow> nat + string"
  parse_introspect :: "string \<Rightarrow> nat + (string \<times> token_type)"
  parse_register :: "string \<Rightarrow> nat + (string \<times> string \<times> string)"

datatype auth_reply =
    TokenReply token_response
  | RevokeReply
  | IntrospectReply introspection
  | RegisterReply string string
  | JwksReply "jwk list"

fun auth_handler ::
  "auth_lib \<Rightarrow> key_codec \<Rightarrow> auth_bodies \<Rightarrow> auth_app \<Rightarrow> u64 \<Rightarrow> string \<Rightarrow> auth_endpoint \<Rightarrow> string list \<Rightarrow> auth_state \<Rightarrow>
     (nat + auth_reply) \<times> auth_state"
where
  "auth_handler lib kc ab app now body Token_Endpoint cs s =
     (case parse_token ab body of
        Inl status \<Rightarrow> (Inl status, s)
      | Inr req \<Rightarrow> map_prod (map_sum fst TokenReply) id (token_handler lib app now req s))"
| "auth_handler lib kc ab app now body Revoke_Endpoint cs s =
     (case parse_revoke ab body of
        Inl status \<Rightarrow> (Inl status, s)
      | Inr token \<Rightarrow> map_prod (\<lambda>_. Inr RevokeReply) id (revoke_handler lib app now token s))"
| "auth_handler lib kc ab app now body Introspect_Endpoint cs s =
     (case parse_introspect ab body of
        Inl status \<Rightarrow> (Inl status, s)
      | Inr (token, hint) \<Rightarrow> map_prod (Inr \<circ> IntrospectReply) id (introspect_handler lib app now token hint s))"
| "auth_handler lib kc ab app now body Register_Endpoint cs s =
     (case parse_register ab body of
        Inl status \<Rightarrow> (Inl status, s)
      | Inr (name, pwd, mail) \<Rightarrow>
          map_prod (map_sum fst (\<lambda>(access, refresh). RegisterReply access refresh)) id (register_handler lib app now name pwd mail s))"
| "auth_handler lib kc ab app now body Jwks_Endpoint cs s = (map_sum id JwksReply (jwks_handler kc app), s)"

definition auth_server ::
  "matcher \<Rightarrow> auth_lib \<Rightarrow> key_codec \<Rightarrow> auth_bodies \<Rightarrow> auth_app \<Rightarrow> u64 \<Rightarrow> string \<Rightarrow> string \<Rightarrow> string \<Rightarrow> auth_state \<Rightarrow>
     (nat + auth_reply) \<times> auth_state" where
  "auth_server pm lib kc ab app now m path body =
     served (dispatch pm (auth_router @ nest [''.well-known''] jwks_router) m path)
       (auth_handler lib kc ab app now body)"

subsection \<open>Lemmas\<close>

lemma problem_extract_identity:
  "problem_extract lib pb e cs qs h body = Inr (Some user, req) \<Longrightarrow> user_id_required lib h = Inr user"
  by (cases e; cases "user_id_required lib h") (auto simp: identity_or_status_def)

lemma problem_extract_anonymous:
  "problem_extract lib pb e cs qs h body = Inr (None, req) \<Longrightarrow>
     tables_of (snd (problem_api env contains order user req d)) = tables_of d"
  by (cases e) (auto simp: problem_api_tables ret_def simp del: problem_api.simps)

text \<open>Whatever request the problem server gets, a problem changes only if the header names its author.\<close>

lemma problem_server_identity:
  assumes "tables_wf (tables_of d)" and "p \<in> set (problems (tables_of d))"
    and "problem_view (problem_id p) (tables_of (snd (problem_server pm lib pb env contains order m path qs h body d))) \<noteq>
      problem_view (problem_id p) (tables_of d)"
  shows "user_id_required lib h = Inr (problem_author p)"
proof -
  from assms(3) obtain e cs user req where
    x: "problem_extract lib pb e cs qs h body = Inr (user, req)"
    and changed: "problem_view (problem_id p) (tables_of (snd (problem_api env contains order (case user of Some u \<Rightarrow> u | None \<Rightarrow> 0) req d))) \<noteq>
      problem_view (problem_id p) (tables_of d)"
    by (auto simp: problem_server_def served_def problem_handler_def split: dispatched.splits sum.splits)
  show ?thesis
  proof (cases user)
    case None
    with x changed show ?thesis by (simp add: problem_extract_anonymous)
  next
    case (Some u)
    with changed other_user_keeps_view [OF assms(1,2), of u] have "u = problem_author p" by auto
    with Some x problem_extract_identity show ?thesis by auto
  qed
qed

lemma create_pending_user:
  "create_pending env pid user source lang d = (r, d') \<Longrightarrow>
     row \<in> set (submissions (tables_of d')) \<Longrightarrow> row \<notin> set (submissions (tables_of d)) \<Longrightarrow> submission_user row = user"
  by (auto simp: create_pending_def and_then_def find_problem_def query_def draw_id_def insert_submission_def execute_def ret_def fail_def
      split: sum.splits prod.splits option.splits if_splits)

lemma post_handler_user:
  assumes "row \<in> set (rows_of (snd (post_handler lib env payload cfg topo sent h req w)))" and "row \<notin> set (rows_of w)"
  shows "user_id_required lib h = Inr (submission_user row)"
  using assms
  by (auto simp: post_handler_def publish_def split: sum.splits prod.splits if_splits dest: create_pending_user)

text \<open>Likewise a new submission is the header's user's.\<close>

lemma submission_server_identity:
  assumes "row \<in> set (rows_of (snd (submission_server pm lib sb env vc payload cfg topo sent m path qs h body w)))"
    and "row \<notin> set (rows_of w)"
  shows "user_id_required lib h = Inr (submission_user row)"
proof -
  from assms obtain e cs where
    "row \<in> set (rows_of (snd (submission_handler lib sb env vc payload cfg topo sent qs h body e cs w)))"
    by (auto simp: submission_server_def served_def split: dispatched.splits)
  with assms(2) show ?thesis
    by (cases e) (auto simp: get_handler_rows split: sum.splits dest: post_handler_user)
qed

text \<open>And only its own submissions are shown to a user.\<close>

lemma get_handler_owner:
  assumes "fst (get_handler lib env vc h sid w) = Inr outcome"
  shows "\<exists>row \<in> set (rows_of w). submission_id row = sid \<and> user_id_required lib h = Inr (submission_user row)"
  using assms
  by (auto simp: get_handler_def submission_get_def and_then_def query_def ret_def fail_def dest!: find_Some_split
      split: sum.splits prod.splits option.splits if_splits)

lemma submission_server_owner:
  assumes "fst (submission_server pm lib sb env vc payload cfg topo sent m path qs h body w) = Inr (Queried outcome)"
  shows "\<exists>sid. \<exists>row \<in> set (rows_of w). parse_get sb qs = Inr sid \<and> submission_id row = sid \<and>
    user_id_required lib h = Inr (submission_user row)"
proof -
  from assms obtain e cs where
    "fst (submission_handler lib sb env vc payload cfg topo sent qs h body e cs w) = Inr (Queried outcome)"
    by (auto simp: submission_server_def served_def split: dispatched.splits)
  then show ?thesis
    by (cases e; cases "fst (get_handler lib env vc h (projr (parse_get sb qs)) w)")
      (auto simp: map_sum_def split: sum.splits dest: get_handler_owner)
qed

text \<open>The tables of the authorization server: users are unique, and every refresh token is a user's.\<close>

definition auth_wf :: "auth_state \<Rightarrow> bool" where
  "auth_wf s \<longleftrightarrow> unique_users s \<and> distinct (map token_row_id (refresh_tokens s)) \<and>
     (\<forall>r \<in> set (refresh_tokens s). token_user r \<in> user_id ` set (users s))"

lemma issue_tokens_rows:
  "issue_tokens lib app now uid s = (r, t) \<Longrightarrow> users t = users s \<and>
     (refresh_tokens t = refresh_tokens s \<or>
      (\<exists>row. refresh_tokens t = refresh_tokens s @ [row] \<and> token_user row = uid \<and> (\<forall>v \<in> set (refresh_tokens s). token_row_id v \<noteq> token_row_id row)))"
  by (auto simp: issue_tokens_def insert_refresh_def draw_def Let_def split: option.splits if_splits)

lemma password_grant_rows:
  assumes "password_grant lib app now name pwd s = (r, t)"
  shows "users t = users s \<and>
     (refresh_tokens t = refresh_tokens s \<or>
      (\<exists>row. refresh_tokens t = refresh_tokens s @ [row] \<and> token_user row \<in> user_id ` set (users s) \<and>
         (\<forall>v \<in> set (refresh_tokens s). token_row_id v \<noteq> token_row_id row)))"
  using assms
  by (auto simp: password_grant_def db_query_eq find_user_def split: option.splits prod.splits if_splits issue_result.splits
      dest!: issue_tokens_rows find_Some_split)

lemma auth_reads:
  "refresh_grant lib app now token s = (r, t) \<Longrightarrow> users t = users s \<and> refresh_tokens t = refresh_tokens s"
  "introspect_handler lib app now token hint s = (i, t) \<Longrightarrow> users t = users s \<and> refresh_tokens t = refresh_tokens s"
  by (auto simp: refresh_grant_def introspect_handler_def introspect_user_def db_query_eq split: option.splits prod.splits if_splits)

lemma revoke_rows:
  "revoke_handler lib app now token s = (r, t) \<Longrightarrow>
     users t = users s \<and> (\<exists>P. refresh_tokens t = filter P (refresh_tokens s))"
  by (auto simp: revoke_handler_def db_query_eq delete_refresh_def Let_def split: option.splits prod.splits if_splits
      intro: exI [of _ "\<lambda>_. True"])

lemma register_rows:
  assumes "register_handler lib app now name pwd mail s = (r, t)"
  shows "refresh_tokens t = refresh_tokens s \<or>
    (\<exists>row. refresh_tokens t = refresh_tokens s @ [row] \<and> token_user row \<in> user_id ` set (users t) \<and>
       (\<forall>v \<in> set (refresh_tokens s). token_row_id v \<noteq> token_row_id row))"
  using assms
  by (auto simp: register_handler_def db_query_eq insert_user_def draw_def Let_def new_user_row_def
        dest!: issue_tokens_rows split: if_splits option.splits prod.splits issue_result.splits)

text \<open>What a request may do to the refresh tokens.\<close>

definition tokens_follow :: "auth_state \<Rightarrow> auth_state \<Rightarrow> bool" where
  "tokens_follow s t \<longleftrightarrow>
     refresh_tokens t = refresh_tokens s \<or> (\<exists>P. refresh_tokens t = filter P (refresh_tokens s)) \<or>
     (\<exists>row. refresh_tokens t = refresh_tokens s @ [row] \<and> token_user row \<in> user_id ` set (users t) \<and>
        (\<forall>v \<in> set (refresh_tokens s). token_row_id v \<noteq> token_row_id row))"

lemma auth_wf_follows:
  assumes "auth_wf s" and "unique_users t" and "set (users s) \<subseteq> set (users t)" and "tokens_follow s t"
  shows "auth_wf t"
proof -
  have old: "token_user r \<in> user_id ` set (users t)" if "r \<in> set (refresh_tokens s)" for r
    using assms(1,3) that unfolding auth_wf_def by blast
  have "distinct (map token_row_id (filter P (refresh_tokens s)))" for P
    using assms(1) by (simp add: auth_wf_def distinct_map_filter)
  moreover have "distinct (map token_row_id (refresh_tokens s @ [row]))"
    if "\<forall>v \<in> set (refresh_tokens s). token_row_id v \<noteq> token_row_id row" for row
    using assms(1) that by (fastforce simp: auth_wf_def)
  ultimately show ?thesis
    using assms old unfolding tokens_follow_def auth_wf_def by (elim disjE exE conjE) auto
qed

lemma tokens_follow_intros:
  "refresh_tokens t = refresh_tokens s \<Longrightarrow> tokens_follow s t"
  "refresh_tokens t = filter P (refresh_tokens s) \<Longrightarrow> tokens_follow s t"
  "refresh_tokens t = refresh_tokens s @ [row] \<Longrightarrow> token_user row \<in> user_id ` set (users t) \<Longrightarrow>
     \<forall>v \<in> set (refresh_tokens s). token_row_id v \<noteq> token_row_id row \<Longrightarrow> tokens_follow s t"
  unfolding tokens_follow_def by blast+

lemma map_prod_id_eq: "map_prod f id x = (r, t) \<longleftrightarrow> (\<exists>r'. x = (r', t) \<and> r = f r')"
  by (cases x) auto

text \<open>A request other than a registration keeps the users.\<close>

lemma auth_handler_users:
  assumes "auth_handler lib kc ab app now body e cs s = (r, t)" and "e \<noteq> Register_Endpoint"
  shows "users t = users s \<and> tokens_follow s t"
proof (cases e)
  case Token_Endpoint
  show ?thesis
  proof (cases "parse_token ab body")
    case (Inl status)
    with Token_Endpoint assms show ?thesis by (simp add: tokens_follow_def)
  next
    case (Inr req)
    with Token_Endpoint assms(1) obtain r' where "token_handler lib app now req s = (r', t)"
      by (auto simp: map_prod_id_eq)
    then show ?thesis
      by (cases req) (auto dest!: password_grant_rows auth_reads intro: tokens_follow_intros)
  qed
qed (use assms in \<open>auto simp: map_prod_id_eq split: sum.splits prod.splits dest!: revoke_rows auth_reads intro: tokens_follow_intros\<close>)

text \<open>One request: the tables stay well-formed, users are only added, and a new user is unverified.\<close>

lemma auth_handler_tables:
  assumes "auth_wf s" and "auth_handler lib kc ab app now body e cs s = (r, t)"
  shows "auth_wf t \<and> (\<exists>new. users t = users s @ new \<and> (\<forall>u \<in> set new. \<not> email_verified u))"
proof (cases "e = Register_Endpoint")
  case False
  have unique: "unique_users s" using assms(1) by (simp add: auth_wf_def)
  from auth_handler_users [OF assms(2) False] unique show ?thesis
    using auth_wf_follows [OF assms(1), of t] by (simp add: unique_users_def)
next
  case True
  show ?thesis
  proof (cases "parse_register ab body")
    case (Inl status)
    with True assms show ?thesis by simp
  next
    case (Inr given)
    obtain name pwd mail where given: "given = (name, pwd, mail)" by (cases given)
    with Inr True assms(2) obtain r' where reg: "register_handler lib app now name pwd mail s = (r', t)"
      by (auto simp: map_prod_id_eq)
    have "unique_users t \<and> (\<exists>new. users t = users s @ new \<and> (\<forall>u \<in> set new. \<not> email_verified u))"
      using register_users [OF reg] assms(1) by (force simp: auth_wf_def unique_users_def new_user_row_def image_iff)
    moreover have "tokens_follow s t"
      using register_rows [OF reg] by (auto intro: tokens_follow_intros)
    ultimately show ?thesis using auth_wf_follows [OF assms(1)] by auto
  qed
qed

text \<open>Requests to the authorization server, one after the other; the database may fail at any time.\<close>

inductive auth_step :: "matcher \<Rightarrow> auth_lib \<Rightarrow> key_codec \<Rightarrow> auth_bodies \<Rightarrow> auth_state \<Rightarrow> auth_state \<Rightarrow> bool" for pm lib kc ab where
  auth_request: "auth_step pm lib kc ab s (snd (auth_server pm lib kc ab app now m path body s))"

lemma auth_step_tables:
  assumes "auth_step pm lib kc ab s t" and "auth_wf s"
  shows "auth_wf t \<and> (\<exists>new. users t = users s @ new \<and> (\<forall>u \<in> set new. \<not> email_verified u))"
  using assms(1)
proof cases
  case (auth_request app now m path body)
  obtain r where "auth_server pm lib kc ab app now m path body s = (r, t)"
    using auth_request by (metis prod.collapse)
  then consider "t = s" | e cs r' where "auth_handler lib kc ab app now body e cs s = (r', t)"
    by (auto simp: auth_server_def served_def split: dispatched.splits)
  then show ?thesis using auth_handler_tables assms(2) by cases auto
qed

definition empty_auth :: auth_state where
  "empty_auth = \<lparr>users = [], refresh_tokens = [], db_calls = 0, drawn = 0\<rparr>"

interpretation auth_tables: inductive_invariant empty_auth "auth_step pm lib kc ab" "\<lambda>_. True" auth_wf
  by unfold_locales (simp_all add: empty_auth_def auth_wf_def unique_users_def auth_step_tables [unfolded auth_wf_def unique_users_def])

subsection \<open>Properties\<close>

text \<open>C5. What the services do for a user behind the gateway: if a request that came in on a route that requires
  authentication changes a problem, makes a submission or is shown one, then it carried a token of that
  problem's author or of that submission's owner, whatever else was in the request.  The code knows no administrators: what
  \<open>docs/problems-api.md\<close> grants an ``author/admin'' is granted to the author alone.\<close>
theorem gateway_users_own_changes:
  assumes "uuid_law (gw_lib gw)" and "\<And>uid. list_all visible (uuid_show (gw_lib gw) uid)"
    and "match_route (gw_routes gw) (req_path req) = Some r" and "route_auth r = Required"
    and "gateway_call gw clock now peer body req ls = (Some (resp, Some sent), ls')"
    and "tables_wf (tables_of d)"
  shows "\<exists>token c uid. header_get (req_headers req) ''authorization'' = Some (''Bearer '' @ token) \<and>
    jwks_verify (gw_lib gw) (gw_jwks gw) now token = Inr c \<and> uuid_parse (gw_lib gw) (claim_sub c) = Some uid \<and>
    (\<forall>p \<in> set (problems (tables_of d)).
       problem_view (problem_id p) (tables_of (snd (problem_server pm (gw_lib gw) pb env contains order (sent_method sent) path qs
         (sent_headers sent) (sent_body sent) d))) \<noteq> problem_view (problem_id p) (tables_of d) \<longrightarrow> problem_author p = uid) \<and>
    (let (answer, w') = submission_server pm (gw_lib gw) sb env vc payload cfg topo delivered (sent_method sent) path qs
         (sent_headers sent) (sent_body sent) w in
     (\<forall>row \<in> set (rows_of w') - set (rows_of w). submission_user row = uid) \<and>
     (\<forall>outcome. answer = Inr (Queried outcome) \<longrightarrow>
        (\<exists>row \<in> set (rows_of w). parse_get sb qs = Inr (submission_id row) \<and> submission_user row = uid)))"
proof -
  from required_route_identity [OF assms(1-5)] obtain token c uid where
    token: "header_get (req_headers req) ''authorization'' = Some (''Bearer '' @ token)"
      "jwks_verify (gw_lib gw) (gw_jwks gw) now token = Inr c" "uuid_parse (gw_lib gw) (claim_sub c) = Some uid"
    and uid: "user_id_required (gw_lib gw) (sent_headers sent) = Inr uid" by blast
  let ?posted = "submission_server pm (gw_lib gw) sb env vc payload cfg topo delivered (sent_method sent) path qs (sent_headers sent) (sent_body sent) w"
  have "problem_author p = uid" if "p \<in> set (problems (tables_of d))"
      and "problem_view (problem_id p) (tables_of (snd (problem_server pm (gw_lib gw) pb env contains order (sent_method sent) path qs
         (sent_headers sent) (sent_body sent) d))) \<noteq> problem_view (problem_id p) (tables_of d)" for p
    using problem_server_identity [OF assms(6) that] uid by simp
  moreover have "submission_user row = uid" if "row \<in> set (rows_of (snd ?posted))" and "row \<notin> set (rows_of w)" for row
    using submission_server_identity [OF that] uid by simp
  moreover have "\<exists>row \<in> set (rows_of w). parse_get sb qs = Inr (submission_id row) \<and> submission_user row = uid"
    if "fst ?posted = Inr (Queried outcome)" for outcome
    using submission_server_owner [OF that] uid by auto
  ultimately show ?thesis
    using token by (auto simp: Let_def split: prod.splits)
qed

text \<open>C10. The tables of the authorization server through any sequence of requests: ids, names and addresses of users
  stay unique, every refresh token belongs to a user, users are only ever added, and no request verifies an
  address.\<close>
theorem auth_tables_kept:
  assumes "reach empty_auth (auth_step pm lib kc ab) s" and "reach s (auth_step pm lib kc ab) t"
  shows "auth_wf t \<and> (\<exists>new. users t = users s @ new) \<and> (\<forall>u \<in> set (users t). \<not> email_verified u)"
proof -
  have "auth_wf t \<and> (\<exists>new. users t = users s @ new \<and> (\<forall>u \<in> set new. \<not> email_verified u))"
    if "auth_wf s" and "reach s (auth_step pm lib kc ab) t" for s t
    using that(2,1)
  proof (induction rule: reach.induct)
    case reach_init
    then show ?case by simp
  next
    case (reach_step u t)
    then obtain new where "auth_wf u" "users u = users s @ new" "\<forall>u \<in> set new. \<not> email_verified u" by blast
    with auth_step_tables [OF reach_step.hyps(2)] show ?case by auto
  qed
  note run = this
  from auth_tables.inv_reach [OF assms(1)] have wf: "auth_wf s" .
  from run [OF auth_tables.inv_init assms(1)] have "\<forall>u \<in> set (users s). \<not> email_verified u" by (auto simp: empty_auth_def)
  with run [OF wf assms(2)] show ?thesis by auto
qed

subsection \<open>Matching paths\<close>

text \<open>What the framework documents of patterns: a literal segment matches itself and a capture one segment that is
  not empty.\<close>

fun split_slash :: "string \<Rightarrow> string list" where
  "split_slash [] = [[]]"
| "split_slash (c # cs) =
     (if c = CHR ''/'' then [] # split_slash cs
      else (case split_slash cs of [] \<Rightarrow> [[c]] | w # ws \<Rightarrow> (c # w) # ws))"

definition path_segments :: "string \<Rightarrow> string list" where
  "path_segments path = (case path of c # rest \<Rightarrow> if c = CHR ''/'' then split_slash rest else [] | [] \<Rightarrow> [])"

fun captures :: "segment list \<Rightarrow> string list \<Rightarrow> string list option" where
  "captures [] [] = Some []"
| "captures (Exactly s # ps) (w # ws) = (if w = s then captures ps ws else None)"
| "captures (Capture # ps) (w # ws) = (if w = [] then None else map_option (Cons w) (captures ps ws))"
| "captures _ _ = None"

definition matcher_law :: "matcher \<Rightarrow> bool" where
  "matcher_law pm \<longleftrightarrow> (\<forall>pattern path. pm pattern path = captures pattern (path_segments path))"

definition demo_matcher :: matcher where
  "demo_matcher pattern path = captures pattern (path_segments path)"

lemma demo_matcher_law: "matcher_law demo_matcher"
  by (simp add: matcher_law_def demo_matcher_def)

subsection \<open>Witnesses\<close>

definition demo_problem_bodies :: problem_bodies where
  "demo_problem_bodies =
     \<lparr>parse_queries = (\<lambda>_. Inl 400), parse_create = (\<lambda>_. Inl 400), parse_update = (\<lambda>_. Inl 400), parse_cases = (\<lambda>_. Inl 400)\<rparr>"

definition demo_submission_bodies :: submission_bodies where
  "demo_submission_bodies = \<lparr>parse_post = (\<lambda>_. Inr demo_post), parse_get = (\<lambda>_. Inl 400)\<rparr>"

definition demo_auth_bodies :: auth_bodies where
  "demo_auth_bodies =
     \<lparr>parse_token = (\<lambda>_. Inl 400), parse_revoke = (\<lambda>_. Inl 400), parse_introspect = (\<lambda>_. Inl 400),
      parse_register = (\<lambda>_. Inr (''Alice'', ''password'', ''A@b''))\<rparr>"

theorem gateway_users_own_changes_witness:
  "\<exists>resp sent s'. gateway_call (demo_gateway Required) (\<lambda>_. False, 5) 60 ''10.0.0.1'' (Some [])
     (demo_request [''authorization'' \<mapsto> [''Bearer A''], ''x-user-id'' \<mapsto> [''1'']]) no_limiters = (Some (resp, Some sent), s') \<and>
   (\<forall>row \<in> set (rows_of (snd (submission_server demo_matcher demo_lib demo_submission_bodies demo_env demo_verdicts submit_payload
       publish_config_default topology_default True (sent_method sent) ''/api/v2/submissions'' None (sent_headers sent) (sent_body sent) demo_world))).
      submission_user row = 7)"
proof -
  obtain resp sent s' where call: "gateway_call (demo_gateway Required) (\<lambda>_. False, 5) 60 ''10.0.0.1'' (Some [])
     (demo_request [''authorization'' \<mapsto> [''Bearer A''], ''x-user-id'' \<mapsto> [''1'']]) no_limiters = (Some (resp, Some sent), s')"
    using demo_required_call by blast
  have gw: "gw_lib (demo_gateway Required) = demo_lib" "gw_jwks (demo_gateway Required) = demo_manager"
    by (simp_all add: demo_gateway_def)
  from gateway_users_own_changes [OF _ _ demo_match _ call demo_tables_wf, unfolded gw, OF demo_lib_laws(3) demo_uuid_visible,
      where sb = demo_submission_bodies and env = demo_env and vc = demo_verdicts and payload = submit_payload and
        cfg = publish_config_default and topo = topology_default and delivered = True and path = "''/api/v2/submissions''" and
        qs = None and pm = demo_matcher and w = demo_world and pb = demo_problem_bodies and contains = "\<lambda>_ _. True" and order = id]
  obtain token c uid where token: "header_get (req_headers (demo_request [''authorization'' \<mapsto> [''Bearer A''], ''x-user-id'' \<mapsto> [''1'']]))
      ''authorization'' = Some (''Bearer '' @ token)"
    and verified: "jwks_verify demo_lib demo_manager 60 token = Inr c" "uuid_parse demo_lib (claim_sub c) = Some uid"
    and rows: "\<forall>row \<in> set (rows_of (snd (submission_server demo_matcher demo_lib demo_submission_bodies demo_env demo_verdicts submit_payload
       publish_config_default topology_default True (sent_method sent) ''/api/v2/submissions'' None (sent_headers sent) (sent_body sent) demo_world))) -
         set (rows_of demo_world). submission_user row = uid"
    by (simp add: demo_route_def split_beta Let_def) blast
  from token have bearer: "''Bearer A'' = ''Bearer '' @ token" by (simp add: demo_request_def header_get_def)
  with verified demo_token have "uuid_show demo_lib uid = ''7''"
    using gateway_verify_token_Some [of demo_lib demo_manager 60 "Some ''Bearer A''" "''7''"] by auto
  then have "uid = 7"
    using demo_lib_laws(3) demo_lib_run(6) unfolding uuid_law_def by (metis option.inject)
  with call rows show ?thesis by (auto simp: demo_world_def empty_world_def demo_tables_def demo_db_def)
qed

theorem auth_tables_kept_witness:
  "auth_wf (snd (auth_server demo_matcher demo_lib demo_codec demo_auth_bodies demo_app 50 ''POST'' ''/register'' [] empty_auth))"
proof -
  have "reach empty_auth (auth_step demo_matcher demo_lib demo_codec demo_auth_bodies)
     (snd (auth_server demo_matcher demo_lib demo_codec demo_auth_bodies demo_app 50 ''POST'' ''/register'' [] empty_auth))"
    by (rule reach.reach_step, rule reach.reach_init, rule auth_request)
  then show ?thesis by (rule conjunct1 [OF auth_tables_kept [OF reach.reach_init]])
qed

subsection \<open>The example configuration\<close>

text \<open>\<open>config/gateway.example.yaml\<close>.\<close>

definition example_gateway_config :: gateway_config where
  "example_gateway_config =
     \<lparr>routes = [\<lparr>route_path = ''/'', route_auth = NoAuth, rate_limit = \<lparr>per_sec = 10, burst = 60\<rparr>, upstream = ''localhost:9000'',
                 route_match = Prefix\<rparr>],
      jwks_url = ''localhost:9001'', addr = ''localhost:9080'', upstream_timeout_secs = 30, max_connections = 1024,
      drain_timeout_secs = 60\<rparr>"

lemma captures_first: "captures (Exactly s # ps) ws = Some cs \<Longrightarrow> ws \<noteq> [] \<and> hd ws = s"
  by (cases ws) (auto split: if_splits)

lemma dispatch_first:
  "dispatch pm table m path \<noteq> NoPath \<Longrightarrow> matcher_law pm \<Longrightarrow> \<forall>(pattern, methods) \<in> set table. \<exists>s \<in> firsts. \<exists>ps. pattern = Exactly s # ps \<Longrightarrow>
     path_segments path \<noteq> [] \<and> hd (path_segments path) \<in> firsts"
  by (induction pm table m path rule: dispatch.induct) (auto simp: matcher_law_def split: option.splits dest!: captures_first)

lemma served_paths:
  assumes "matcher_law pm" and "dispatch pm (nest [''api'', ''v1'', ''problems''] problem_router) m path \<noteq> NoPath \<or>
    dispatch pm submission_router m path \<noteq> NoPath \<or>
    dispatch pm (auth_router @ nest [''.well-known''] jwks_router) m path \<noteq> NoPath"
  shows "\<exists>c rest. path = CHR ''/'' # c # rest \<and> c \<noteq> CHR ''/'' \<and> path \<noteq> ''/healthz''"
proof -
  let ?firsts = "{''api'', ''token'', ''revoke'', ''introspect'', ''register'', ''.well-known''}"
  have tables: "\<forall>(pattern, methods) \<in> set (nest [''api'', ''v1'', ''problems''] problem_router). \<exists>s \<in> ?firsts. \<exists>ps. pattern = Exactly s # ps"
    "\<forall>(pattern, methods) \<in> set submission_router. \<exists>s \<in> ?firsts. \<exists>ps. pattern = Exactly s # ps"
    "\<forall>(pattern, methods) \<in> set (auth_router @ nest [''.well-known''] jwks_router). \<exists>s \<in> ?firsts. \<exists>ps. pattern = Exactly s # ps"
    by (simp_all add: nest_def problem_router_def submission_router_def auth_router_def jwks_router_def)
  from assms(2) have "path_segments path \<noteq> [] \<and> hd (path_segments path) \<in> ?firsts"
    by (elim disjE) (erule dispatch_first [OF _ assms(1)], rule tables)+
  then obtain rest where path: "path = CHR ''/'' # rest" and "hd (split_slash rest) \<in> {''api'', ''token'', ''revoke'', ''introspect'', ''register'', ''.well-known''}"
    by (auto simp: path_segments_def split: list.splits if_splits)
  then show ?thesis by (cases rest) auto
qed

text \<open>The example configuration of the gateway passes validation but serves nothing: its only route is the
  prefix \<open>/\<close>, which does not match the path of any endpoint of the services, so the gateway itself answers
  every request to one of them with 404.\<close>
theorem example_gateway_serves_nothing:
  assumes "matcher_law pm" and "gw_routes gw = routes example_gateway_config"
    and "dispatch pm (nest [''api'', ''v1'', ''problems''] problem_router) m (req_path req) \<noteq> NoPath \<or>
      dispatch pm submission_router m (req_path req) \<noteq> NoPath \<or>
      dispatch pm (auth_router @ nest [''.well-known''] jwks_router) m (req_path req) \<noteq> NoPath"
  shows "gateway_load (Inr example_gateway_config) = Inr example_gateway_config \<and>
    gateway_call gw clock now peer (Some body) req ls = (Some (error_response_of 404 ''no route matched'', None), ls)"
proof -
  from served_paths [OF assms(1,3)] obtain c rest where
    path: "req_path req = CHR ''/'' # c # rest" "c \<noteq> CHR ''/''" "req_path req \<noteq> ''/healthz''" by blast
  then have "match_route (gw_routes gw) (req_path req) = None"
    by (simp add: assms(2) example_gateway_config_def match_route_def match_step_def route_matches_def is_prefix_match_def)
  then have "gateway_call gw clock now peer (Some body) req ls = (Some (error_response_of 404 ''no route matched'', None), ls)"
    using path(3) by (simp add: gateway_call_def pipeline_def health_call_def route_call_def)
  moreover have "gateway_load (Inr example_gateway_config) = Inr example_gateway_config"
    by (simp add: gateway_load_def gateway_validate_def config_errors_def route_errors_def field_check_def example_gateway_config_def)
  ultimately show ?thesis by blast
qed

end
