(* ===== verification/Startup.thy ===== *)
theory Startup
  imports Settings Pool_Properties Endpoints
begin

text \<open>
  How the processes start: \<open>main.rs\<close> of \<open>api_server\<close>, \<open>api_server_auth\<close>, \<open>api_server_submission\<close>,
  \<open>submission_processor\<close>, \<open>judge_core_manager\<close>, \<open>judge_core_standalone\<close> and \<open>gateway\<close>, \<open>rabbitmq.rs\<close> of the
  processor, and \<open>judge_core_shared/src/utilities.rs\<close>.  A \<open>main\<close> is a straight line of calls to the
  host, each of which may fail; most failures leave the function as an error of its type.  \<open>ok\<close> says which
  calls succeed; the result comes with the calls that were made, in order.
\<close>

subsection \<open>Calls and stages\<close>

datatype exchange_kind = Direct

datatype host_call =
    DbConnect string
  | TcpBind string
  | UnixBind string
  | ReadFile string
  | CreateDirAll string
  | RemoveFile string
  | ServeHttp
  | ContainerdConnect string
  | ContainerdVersion
  | ListAgents
  | SpawnAutoscaler
  | ShutdownPool duration
  | AmqpConnect string
  | OpenChannel nat
  | ExchangeDeclare nat string exchange_kind bool
  | QueueDeclare nat string bool
  | QueueBind nat string string string
  | BasicQos nat nat
  | BasicConsume nat string
  | ConsumeLoop
  | AmqpClose
  | AskAcceptable

text \<open>A stage is a call and the error its failure ends the function with; \<open>None\<close> when the failure is ignored or
  there is none.\<close>

type_synonym 'e stage = "host_call \<times> 'e option"

fun run_stages :: "(host_call \<Rightarrow> bool) \<Rightarrow> 'e stage list \<Rightarrow> ('e + unit) \<times> host_call list" where
  "run_stages ok [] = (Inr (), [])"
| "run_stages ok ((c, e) # ss) =
     (case (if ok c then None else e) of
        Some err \<Rightarrow> (Inl err, [c])
      | None \<Rightarrow> map_prod id (Cons c) (run_stages ok ss))"

definition with_settings :: "'x + 'cfg \<Rightarrow> ('x \<Rightarrow> 'e) \<Rightarrow> ('cfg \<Rightarrow> ('e + unit) \<times> host_call list) \<Rightarrow> ('e + unit) \<times> host_call list" where
  "with_settings loaded err body = (case loaded of Inl x \<Rightarrow> (Inl (err x), []) | Inr cfg \<Rightarrow> body cfg)"

subsection \<open>The HTTP servers\<close>

datatype api_server_error = ApiConfig string | ApiDatabase | ApiIo

definition api_server_stages :: "string \<Rightarrow> api_server_error stage list" where
  "api_server_stages url =
     [(DbConnect url, Some ApiDatabase), (TcpBind ''localhost:9000'', Some ApiIo), (ServeHttp, Some ApiIo)]"

definition api_server_main :: "'v config_lib \<Rightarrow> (host_call \<Rightarrow> bool) \<Rightarrow> (api_server_error + unit) \<times> host_call list" where
  "api_server_main lib ok = with_settings (api_server_load lib) ApiConfig (\<lambda>url. run_stages ok (api_server_stages url))"

datatype auth_server_error = AuthIo | AuthConfig string | AuthDb

definition auth_server_stages :: "auth_server_config \<Rightarrow> auth_server_error stage list" where
  "auth_server_stages cfg =
     [(DbConnect (auth_database_url cfg), Some AuthDb),
      (ReadFile (public_pem_filepath cfg), Some AuthIo),
      (ReadFile (private_pem_filepath cfg), Some AuthIo),
      (TcpBind ''localhost:9001'', Some AuthIo),
      (ServeHttp, Some AuthIo)]"

definition auth_server_main :: "'v config_lib \<Rightarrow> (host_call \<Rightarrow> bool) \<Rightarrow> (auth_server_error + unit) \<times> host_call list" where
  "auth_server_main lib ok = with_settings (auth_server_load lib) AuthConfig (\<lambda>cfg. run_stages ok (auth_server_stages cfg))"

text \<open>The state the handlers share, made of the settings and the contents of the two files.\<close>

definition auth_app_of :: "auth_server_config \<Rightarrow> (string \<Rightarrow> string) \<Rightarrow> (nat \<Rightarrow> bool) \<Rightarrow> (nat \<Rightarrow> nat) \<Rightarrow> auth_app" where
  "auth_app_of cfg content db clock =
     \<lparr>private_key_pem = content (private_pem_filepath cfg), public_key_pem = content (public_pem_filepath cfg),
      access_token_ttl_secs = access_ttl_setting cfg, refresh_token_ttl_secs = refresh_ttl_setting cfg, db_up = db, clock_ns = clock\<rparr>"

datatype submission_server_error = SubmissionConfig string | SubmissionIo | SubmissionDb | SubmissionRabbitMq

definition submission_server_stages :: "submission_config \<Rightarrow> submission_server_error stage list" where
  "submission_server_stages cfg =
     [(TcpBind ''localhost:9002'', Some SubmissionIo),
      (DbConnect (submission_database_url cfg), Some SubmissionDb),
      (AmqpConnect (submission_amqp_url cfg), Some SubmissionRabbitMq),
      (OpenChannel 0, Some SubmissionRabbitMq),
      (ServeHttp, Some SubmissionIo)]"

definition submission_server_main :: "'v config_lib \<Rightarrow> (host_call \<Rightarrow> bool) \<Rightarrow> (submission_server_error + unit) \<times> host_call list" where
  "submission_server_main lib ok =
     with_settings (submission_load lib) SubmissionConfig (\<lambda>cfg. run_stages ok (submission_server_stages cfg))"

text \<open>The standalone judge has no settings; a failure is a panic.\<close>

definition standalone_main :: "(host_call \<Rightarrow> bool) \<Rightarrow> (unit + unit) \<times> host_call list" where
  "standalone_main ok = run_stages ok [(TcpBind ''0.0.0.0:8000'', Some ()), (ServeHttp, Some ())]"

subsection \<open>The processor\<close>

datatype processor_error = ProcessorAmqp | ProcessorJson | ProcessorDb | ProcessorRepo | ProcessorJudgeCore | ProcessorConfig string

text \<open>\<open>rabbitmq::init\<close>; its channel is number 0 of the connection.\<close>

definition rabbitmq_init_stages :: "string \<Rightarrow> topology \<Rightarrow> processor_error stage list" where
  "rabbitmq_init_stages url topo =
     [(AmqpConnect url, Some ProcessorAmqp),
      (OpenChannel 0, Some ProcessorAmqp),
      (ExchangeDeclare 0 (exchange_name topo) Direct True, Some ProcessorAmqp),
      (QueueDeclare 0 (submit_queue topo) True, Some ProcessorAmqp),
      (QueueBind 0 (submit_queue topo) (exchange_name topo) (submit_route topo), Some ProcessorAmqp),
      (BasicQos 0 1, Some ProcessorAmqp)]"

text \<open>The answer of the manager is not looked at, only whether there was one.\<close>

definition processor_stages :: "processor_config \<Rightarrow> processor_error stage list" where
  "processor_stages cfg =
     (let topo = topology_of (processor_rabbitmq cfg) in
      rabbitmq_init_stages (rabbitmq_url (processor_rabbitmq cfg)) topo @
      [(OpenChannel 1, Some ProcessorAmqp),
       (DbConnect (processor_database_url cfg), Some ProcessorDb)] @
      (if standalone_mode (processor_client cfg) then [] else [(AskAcceptable, Some ProcessorJudgeCore)]) @
      [(BasicConsume 1 (submit_queue topo), Some ProcessorAmqp),
       (ConsumeLoop, None),
       (AmqpClose, Some ProcessorAmqp)])"

definition processor_main :: "'v config_lib \<Rightarrow> (host_call \<Rightarrow> bool) \<Rightarrow> (processor_error + unit) \<times> host_call list" where
  "processor_main lib ok = with_settings (processor_load lib) ProcessorConfig (\<lambda>cfg. run_stages ok (processor_stages cfg))"

text \<open>The call that decides \<open>AskAcceptable\<close>: \<open>client.acceptable().await?\<close>.\<close>

definition acceptable_asked :: "(sdk_error + acceptablez_response) option \<Rightarrow> bool" where
  "acceptable_asked answer = (case answer of Some (Inr _) \<Rightarrow> True | _ \<Rightarrow> False)"

subsection \<open>The manager\<close>

datatype manager_error = ManagerConnect | ManagerRpc | ManagerPool | ManagerProvision | ManagerIo | ManagerConfigError string

definition manager_stages :: "manager_config \<Rightarrow> manager_error stage list" where
  "manager_stages cfg =
     [(ContainerdConnect (containerd_socket (server_section cfg)), Some ManagerConnect),
      (ContainerdVersion, Some ManagerRpc),
      (ListAgents, Some ManagerPool),
      (SpawnAutoscaler, None),
      (TcpBind (bind_address (server_section cfg)), Some ManagerIo),
      (ServeHttp, Some ManagerIo),
      (ShutdownPool (from_secs 60), Some ManagerPool)]"

text \<open>The loops of the autoscaler and of the pool run beside the stages that follow \<open>SpawnAutoscaler\<close>; here they are that one
  call.  They are tasks of the runtime and end with the process, so after a failed bind only the calls of the list are left to
  make; what the loops do to the agents while they run is the step relation of \<open>Pool\<close> and \<open>scaler_tick\<close>.\<close>

definition manager_main :: "'v config_lib \<Rightarrow> (host_call \<Rightarrow> bool) \<Rightarrow> (manager_error + unit) \<times> host_call list" where
  "manager_main lib ok = with_settings (manager_load lib) ManagerConfigError (\<lambda>cfg. run_stages ok (manager_stages cfg))"

text \<open>The provisioner and the pool it starts with: \<open>ListAgents\<close> is the call by which \<open>discover_agents\<close> learns of
  the containers that are there.\<close>

definition manager_provisioner :: "manager_config \<Rightarrow> provisioner" where
  "manager_provisioner cfg =
     provisioner_new (server_image (server_section cfg)) (namespace_setting (provisioner_section cfg))
       (runtime_setting (provisioner_section cfg))"

definition manager_pool :: "provision_error + string list \<Rightarrow> (string \<Rightarrow> bool) \<Rightarrow> nat \<Rightarrow> (pool_error + unit) \<times> pool_state" where
  "manager_pool listed alive now = discover_agents listed alive now pool_new"

subsection \<open>The gateway\<close>

datatype gateway_main_error = GatewayConfigFailed gateway_config_error | GatewayIo | GatewayJwks jwks_error

text \<open>Up to the loop that accepts connections; \<open>reply\<close> is what the first fetch of the keys gets.\<close>

definition gateway_boot ::
  "'v config_lib \<Rightarrow> jwks_lib \<Rightarrow> (host_call \<Rightarrow> bool) \<Rightarrow> fetch_reply \<Rightarrow> gateway_main_error + (gateway_config \<times> jwks_manager)" where
  "gateway_boot lib jl ok reply =
     (case gateway_load_config lib of
        Inl e \<Rightarrow> Inl (GatewayConfigFailed e)
      | Inr cfg \<Rightarrow>
          if \<not> ok (TcpBind (addr cfg)) then Inl GatewayIo
          else
            (case jwks_new jl (jwks_url cfg) reply of
               Inl e \<Rightarrow> Inl (GatewayJwks e)
             | Inr m \<Rightarrow> Inr (cfg, m)))"

subsection \<open>Binding a socket of the file system\<close>

definition parent_of :: "string \<Rightarrow> string option" where
  "parent_of path =
     (if path = [] \<or> path = ''/'' then None
      else Some (if parent_dir path = [] \<and> hd path = CHR ''/'' then ''/'' else parent_dir path))"

definition bind_unix_socket_stages :: "string \<Rightarrow> unit stage list" where
  "bind_unix_socket_stages path =
     (case parent_of path of None \<Rightarrow> [] | Some dir \<Rightarrow> [(CreateDirAll dir, Some ())]) @
     [(RemoveFile path, None), (UnixBind path, Some ())]"

definition bind_unix_socket :: "(host_call \<Rightarrow> bool) \<Rightarrow> string \<Rightarrow> (unit + unit) \<times> host_call list" where
  "bind_unix_socket ok path = run_stages ok (bind_unix_socket_stages path)"

subsection \<open>Lemmas\<close>

lemma run_stages_Inr:
  "fst (run_stages ok ss) = Inr () \<Longrightarrow> snd (run_stages ok ss) = map fst ss \<and> (\<forall>(c, e) \<in> set ss. e \<noteq> None \<longrightarrow> ok c)"
  by (induction ss) (fastforce split: if_splits option.splits)+

text \<open>A call is made only when every earlier one that matters succeeded.\<close>

lemma run_stages_reached:
  "c \<in> set (snd (run_stages ok ss)) \<Longrightarrow>
     \<exists>pre e post. ss = pre @ (c, e) # post \<and> (\<forall>(c', e') \<in> set pre. e' \<noteq> None \<longrightarrow> ok c')"
proof (induction ss)
  case (Cons stage ss)
  obtain c1 e1 where stage: "stage = (c1, e1)" by (cases stage)
  show ?case
  proof (cases "c = c1")
    case True
    then show ?thesis using stage by (intro exI [of _ "[]"]) auto
  next
    case False
    with Cons.prems stage have "c \<in> set (snd (run_stages ok ss))" and ok1: "e1 \<noteq> None \<longrightarrow> ok c1"
      by (auto split: if_splits option.splits)
    from Cons.IH [OF this(1)] obtain pre e post where
      "ss = pre @ (c, e) # post" "\<forall>(c', e') \<in> set pre. e' \<noteq> None \<longrightarrow> ok c'" by blast
    with stage ok1 show ?thesis by (intro exI [of _ "(c1, e1) # pre"]) auto
  qed
qed simp

lemma bind_unix_socket_outcome:
  "fst (bind_unix_socket ok path) = Inr () \<longleftrightarrow> (\<forall>dir. parent_of path = Some dir \<longrightarrow> ok (CreateDirAll dir)) \<and> ok (UnixBind path)"
  by (simp add: bind_unix_socket_def bind_unix_socket_stages_def split: option.splits)

subsection \<open>Properties\<close>

text \<open>C35. A manager that cannot start to listen ends with the error and without shutting the pool down: the agents
  it took over are not destroyed, and the next start takes the same ones over again, provided the containers
  are listed once each and still answer.\<close>
theorem manager_failed_start_keeps_agents:
  assumes "manager_load lib = Inr cfg" and "\<not> ok (TcpBind (bind_address (server_section cfg)))"
    and "ok (ContainerdConnect (containerd_socket (server_section cfg)))" and "ok ContainerdVersion" and "ok ListAgents"
    and "distinct ids"
  shows "fst (manager_main lib ok) = Inl ManagerIo \<and>
    (\<forall>d. ShutdownPool d \<notin> set (snd (manager_main lib ok))) \<and>
    (let (res, pool) = manager_pool (Inr ids) alive now in
       res = Inr () \<and> agent_ids pool = filter alive ids \<and> destroyed pool = filter (\<lambda>i. \<not> alive i) ids \<and>
       (let (res', pool') = manager_pool (Inr (agent_ids pool)) alive now' in
          res' = Inr () \<and> agent_ids pool' = agent_ids pool \<and> destroyed pool' = []))"
proof -
  have new: "wf_pool pool_new" "agent_ids pool_new = []" "destroyed pool_new = []"
    using wf.inv_init by (simp_all add: pool_new_def)
  have discovered: "fst (manager_pool (Inr js) alive t) = Inr () \<and> agent_ids (snd (manager_pool (Inr js) alive t)) = filter alive js \<and>
      destroyed (snd (manager_pool (Inr js) alive t)) = filter (\<lambda>i. \<not> alive i) js" if "distinct js" for js t
    using discover_fold [OF that _ new(1)] new by (simp add: manager_pool_def discover_agents_def)
  from assms(6) discovered [of ids now] discovered [of "filter alive ids" now']
  have "let (res, pool) = manager_pool (Inr ids) alive now in
       res = Inr () \<and> agent_ids pool = filter alive ids \<and> destroyed pool = filter (\<lambda>i. \<not> alive i) ids \<and>
       (let (res', pool') = manager_pool (Inr (agent_ids pool)) alive now' in
          res' = Inr () \<and> agent_ids pool' = agent_ids pool \<and> destroyed pool' = [])"
    by (simp add: split_beta Let_def filter_empty_conv)
  with assms(1-5) show ?thesis by (auto simp: manager_main_def with_settings_def manager_stages_def)
qed

text \<open>C38. The gateway reports itself healthy from its start on, whatever happens to the keys afterwards: it does not
  start without keys, and a refresh that fails keeps the old ones, so that \<open>/healthz\<close> never answers 503.\<close>
theorem gateway_always_reports_healthy:
  assumes "gateway_boot lib jl ok reply = Inr (cfg, m)"
    and "gw_jwks gw = foldl (jwks_tick jl) m fetched" and "req_path req = ''/healthz''"
  shows "ok (TcpBind (addr cfg)) \<and> gateway_load (Inr cfg) = Inr cfg \<and>
    (\<exists>resp. gateway_call gw clock now peer (Some body) req ls = (Some (resp, None), ls) \<and> resp_status resp = 200)"
proof -
  from assms(1) have boot: "gateway_load_config lib = Inr cfg" "ok (TcpBind (addr cfg))" "jwks_new jl (jwks_url cfg) reply = Inr m"
    by (auto simp: gateway_boot_def split: sum.splits if_splits)
  have valid: "gateway_load (Inr cfg) = Inr cfg"
    using boot(1) by (auto simp: gateway_load_config_def gateway_load_def split: sum.splits)
  have "is_ready (foldl (jwks_tick jl) n fetched)" if "is_ready n" for n
    using that by (induction fetched arbitrary: n) (auto simp: jwks_tick_def is_ready_def split: sum.splits)
  moreover have "is_ready m"
    using boot(3) by (auto simp: jwks_new_def jwks_refresh_def is_ready_def split: sum.splits prod.splits)
  ultimately have "is_ready (gw_jwks gw)" using assms(2) by simp
  with assms(3) boot(2) valid show ?thesis
    by (simp add: gateway_call_def pipeline_def health_call_def health_of_def)
qed

text \<open>With its default settings the authorization server cannot start: the paths of its keys are empty, so, as
  no file has an empty path, it ends with an I/O error (or already with a database error) before it listens.\<close>
theorem auth_server_needs_key_files:
  fixes lib :: "'v config_lib"
  assumes "unconfigured lib" and "\<not> ok (ReadFile [])"
  shows "fst (auth_server_main lib ok) \<in> {Inl AuthIo, Inl AuthDb} \<and>
    (\<forall>address. TcpBind address \<notin> set (snd (auth_server_main lib ok))) \<and> ServeHttp \<notin> set (snd (auth_server_main lib ok))"
proof -
  have "\<exists>cfg. auth_server_load lib = Inr cfg \<and> public_pem_filepath cfg = []"
    using assms(1) by (simp add: unconfigured_def auth_server_load_def auth_server_of_table_def config_section_def field_def)
  with assms(2) show ?thesis
    by (auto simp: auth_server_main_def with_settings_def auth_server_stages_def split: if_splits)
qed

text \<open>The processor asks the manager whether it accepts tasks and starts whatever the answer is.\<close>

theorem processor_ignores_acceptable:
  assumes "processor_load lib = Inr cfg" and "\<And>c. c \<noteq> AskAcceptable \<Longrightarrow> ok c"
    and "ok AskAcceptable = acceptable_asked (Some (Inr \<lparr>acceptable = False, acceptable_metrics = m\<rparr>))"
  shows "ConsumeLoop \<in> set (snd (processor_main lib ok))"
  using assms
  by (simp add: processor_main_def with_settings_def processor_stages_def rabbitmq_init_stages_def Let_def acceptable_asked_def)

subsection \<open>Witnesses\<close>

definition bare_config_lib :: "demo_value config_lib" where
  "bare_config_lib = demo_config_lib Map.empty (\<lambda>_. Map.empty)"

lemma bare_unconfigured: "unconfigured bare_config_lib"
  by (simp add: unconfigured_def bare_config_lib_def demo_config_build)

lemma bare_manager:
  "manager_load bare_config_lib =
     Inr \<lparr>pool_section = pool_config_default, scaler_section = scaler_config_default, server_section = server_config_default,
          provisioner_section = provisioner_config_default\<rparr>"
  using bare_unconfigured
  by (simp add: unconfigured_def manager_load_def manager_of_table_defs field_def pool_config_default_def scaler_config_default_def
      server_config_default_def provisioner_config_default_def)

theorem manager_failed_start_keeps_agents_witness:
  "fst (manager_main bare_config_lib (\<lambda>c. c \<noteq> TcpBind ''0.0.0.0:8000'')) = Inl ManagerIo \<and>
   agent_ids (snd (manager_pool (Inr [''a'', ''b'']) (\<lambda>i. i = ''a'') 5)) = [''a'']"
  using manager_failed_start_keeps_agents [OF bare_manager, of "\<lambda>c. c \<noteq> TcpBind ''0.0.0.0:8000''" "[''a'', ''b'']" "\<lambda>i. i = ''a''" 5]
  by (simp add: server_config_default_def split_beta)

definition demo_gateway_lib :: "demo_value config_lib" where
  "demo_gateway_lib =
     (demo_config_lib
        [''routes'' \<mapsto> DemoText [], ''jwks_url'' \<mapsto> DemoText ''auth/jwks.json'', ''addr'' \<mapsto> DemoText ''localhost:9080'',
         ''upstream_timeout_secs'' \<mapsto> DemoNumber 30, ''max_connections'' \<mapsto> DemoNumber 16, ''drain_timeout_secs'' \<mapsto> DemoNumber 60]
        (\<lambda>_. Map.empty))\<lparr>as_routes := \<lambda>_. Some []\<rparr>"

lemma demo_gateway_boot:
  "\<exists>cfg. gateway_boot demo_gateway_lib demo_jwks_lib (\<lambda>_. True) (Body ''keys'') = Inr (cfg, demo_manager)"
  using demo_manager_new
  by (simp add: gateway_boot_def gateway_load_config_def gateway_of_table_def demo_gateway_lib_def demo_config_lib_def settings_sources_def
      gateway_load_def gateway_validate_def config_errors_def field_check_def as_u64_def as_usize_def required_def)

theorem gateway_always_reports_healthy_witness:
  "\<exists>resp. gateway_call (demo_gateway Required \<lparr>gw_jwks := foldl (jwks_tick demo_jwks_lib) demo_manager [SendError]\<rparr>) (\<lambda>_. False, 5) 60
     ''10.0.0.1'' (Some []) (demo_request Map.empty \<lparr>req_path := ''/healthz''\<rparr>) no_limiters = (Some (resp, None), no_limiters) \<and>
   Gateway_Pipeline.http_response.resp_status resp = 200"
proof -
  obtain cfg where "gateway_boot demo_gateway_lib demo_jwks_lib (\<lambda>_. True) (Body ''keys'') = Inr (cfg, demo_manager)"
    using demo_gateway_boot by blast
  from gateway_always_reports_healthy [OF this,
      of "demo_gateway Required \<lparr>gw_jwks := foldl (jwks_tick demo_jwks_lib) demo_manager [SendError]\<rparr>" "[SendError]"
        "demo_request Map.empty \<lparr>req_path := ''/healthz''\<rparr>"]
  show ?thesis by simp
qed

end
