(* ===== verification/Broker.thy ===== *)
theory Broker
  imports Startup
begin

text \<open>
  The message broker between the submission server and the processor: what \<open>rabbitmq::init\<close> and \<open>main\<close> of
  \<open>submission_processor\<close> make of it, and what becomes of the messages that \<open>api_server_submission\<close> publishes.
  The broker is a parameter: how a command changes its state, which queues a message for an exchange and a
  key goes to, and how many unacknowledged messages a channel may hold.  \<open>broker_law\<close> is what AMQP 0-9-1
  documents of the commands used.
\<close>

record 'b broker =
  command :: "host_call \<Rightarrow> 'b \<Rightarrow> 'b"
  queues_for :: "'b \<Rightarrow> string \<Rightarrow> string \<Rightarrow> string set"
  prefetch :: "'b \<Rightarrow> nat \<Rightarrow> nat option"

text \<open>A direct exchange delivers to the queues bound with exactly the key of the message.  A new channel has no
  limit, and \<open>basic.qos\<close> limits the channel it is sent on.\<close>

definition broker_law :: "'b broker \<Rightarrow> bool" where
  "broker_law br \<longleftrightarrow>
     (\<forall>c b e k. queues_for br (command br c b) e k =
        (case c of QueueBind ch q e' k' \<Rightarrow> if e = e' \<and> k = k' then insert q (queues_for br b e k) else queues_for br b e k
         | _ \<Rightarrow> queues_for br b e k)) \<and>
     (\<forall>c b ch. prefetch br (command br c b) ch =
        (case c of BasicQos ch' n \<Rightarrow> if ch = ch' then Some n else prefetch br b ch
         | OpenChannel ch' \<Rightarrow> if ch = ch' then None else prefetch br b ch
         | _ \<Rightarrow> prefetch br b ch))"

definition broker_after :: "'b broker \<Rightarrow> host_call list \<Rightarrow> 'b \<Rightarrow> 'b" where
  "broker_after br calls b = fold (command br) calls b"

lemma queues_step:
  "broker_law br \<Longrightarrow> queues_for br (command br c b) e k =
     (case c of QueueBind ch q e' k' \<Rightarrow> if e = e' \<and> k = k' then insert q (queues_for br b e k) else queues_for br b e k
      | _ \<Rightarrow> queues_for br b e k)"
  by (simp add: broker_law_def)

lemma prefetch_step:
  "broker_law br \<Longrightarrow> prefetch br (command br c b) ch =
     (case c of BasicQos ch' n \<Rightarrow> if ch = ch' then Some n else prefetch br b ch
      | OpenChannel ch' \<Rightarrow> if ch = ch' then None else prefetch br b ch
      | _ \<Rightarrow> prefetch br b ch)"
  by (simp add: broker_law_def)

lemma queues_idle:
  "broker_law br \<Longrightarrow> set cs \<subseteq> {ConsumeLoop, AmqpClose} \<Longrightarrow> queues_for br (fold (command br) cs b) e k = queues_for br b e k"
  by (induction cs arbitrary: b) (auto simp: queues_step)

lemma prefetch_idle:
  "broker_law br \<Longrightarrow> set cs \<subseteq> {ConsumeLoop, AmqpClose} \<Longrightarrow> prefetch br (fold (command br) cs b) ch = prefetch br b ch"
  by (induction cs arbitrary: b) (auto simp: prefetch_step)

lemma consuming_calls:
  assumes "processor_load lib = Inr cfg" and "BasicConsume ch q \<in> set (snd (processor_main lib ok))"
  shows "\<exists>rest. snd (processor_main lib ok) =
      map fst (rabbitmq_init_stages (rabbitmq_url (processor_rabbitmq cfg)) (topology_of (processor_rabbitmq cfg))) @
      OpenChannel 1 # DbConnect (processor_database_url cfg) #
      (if standalone_mode (processor_client cfg) then [] else [AskAcceptable]) @ BasicConsume 1 (submit_queue (topology_of (processor_rabbitmq cfg))) # rest \<and>
      set rest \<subseteq> {ConsumeLoop, AmqpClose}"
  using assms
  by (auto simp: processor_main_def with_settings_def processor_stages_def rabbitmq_init_stages_def Let_def split: if_splits)

text \<open>C12. What the submission server publishes is handed to the queue the processor consumes from exactly when the
  settings of the two agree on exchange and key; this is what the queue model of \<open>publish\<close> says.\<close>
theorem published_messages_routed:
  assumes "broker_law br" and "processor_load lib = Inr cfg" and "submission_load lib' = Inr scfg"
    and "BasicConsume ch q \<in> set (snd (processor_main lib ok))"
    and "\<And>e k. queues_for br b e k = {}"
  shows "q \<in> queues_for br (broker_after br (snd (processor_main lib ok)) b)
        (publish_exchange (submission_publish scfg)) (publish_routing_key (submission_publish scfg)) \<longleftrightarrow>
      ready (publish (submission_publish scfg) (topology_of (processor_rabbitmq cfg)) m w) = ready w @ [m]"
proof -
  let ?topo = "topology_of (processor_rabbitmq cfg)"
  from consuming_calls [OF assms(2,4)] obtain rest where
    calls: "snd (processor_main lib ok) =
      map fst (rabbitmq_init_stages (rabbitmq_url (processor_rabbitmq cfg)) ?topo) @ OpenChannel 1 # DbConnect (processor_database_url cfg) #
      (if standalone_mode (processor_client cfg) then [] else [AskAcceptable]) @ BasicConsume 1 (submit_queue ?topo) # rest"
    and rest: "set rest \<subseteq> {ConsumeLoop, AmqpClose}" by blast
  from assms(4) calls rest have q: "q = submit_queue ?topo" by (auto simp: rabbitmq_init_stages_def split: if_splits)
  have "queues_for br (broker_after br (snd (processor_main lib ok)) b) e k =
      (if e = exchange_name ?topo \<and> k = submit_route ?topo then {q} else {})" for e k
    using assms(5) by (simp add: calls q broker_after_def rabbitmq_init_stages_def queues_step [OF assms(1)] queues_idle [OF assms(1) rest])
  then show ?thesis by (auto simp: publish_def)
qed

text \<open>The broker may hand the processor any number of messages at once: the limit of one message that the set-up asks for is
  put on the channel of the set-up, and the channel that consumes is another one, which has no limit.\<close>
theorem consumer_has_no_prefetch_limit:
  assumes "broker_law br" and "processor_load lib = Inr cfg" and "BasicConsume ch q \<in> set (snd (processor_main lib ok))"
  shows "prefetch br (broker_after br (snd (processor_main lib ok)) b) ch = None \<and>
    BasicQos 0 1 \<in> set (snd (processor_main lib ok)) \<and> ch \<noteq> 0"
proof -
  let ?topo = "topology_of (processor_rabbitmq cfg)"
  from consuming_calls [OF assms(2,3)] obtain rest where
    calls: "snd (processor_main lib ok) =
      map fst (rabbitmq_init_stages (rabbitmq_url (processor_rabbitmq cfg)) ?topo) @ OpenChannel 1 # DbConnect (processor_database_url cfg) #
      (if standalone_mode (processor_client cfg) then [] else [AskAcceptable]) @ BasicConsume 1 (submit_queue ?topo) # rest"
    and rest: "set rest \<subseteq> {ConsumeLoop, AmqpClose}" by blast
  from assms(3) calls rest have ch: "ch = 1" by (auto simp: rabbitmq_init_stages_def split: if_splits)
  show ?thesis
    by (simp add: calls ch broker_after_def rabbitmq_init_stages_def prefetch_step [OF assms(1)] prefetch_idle [OF assms(1) rest])
qed

subsection \<open>Witnesses\<close>

type_synonym demo_broker_state = "(string \<times> string \<times> string) set \<times> (nat \<Rightarrow> nat option)"

definition demo_broker :: "demo_broker_state broker" where
  "demo_broker =
     \<lparr>command = (\<lambda>c (bound, limit). case c of
          QueueBind ch q e k \<Rightarrow> (insert (q, e, k) bound, limit)
        | BasicQos ch n \<Rightarrow> (bound, limit(ch := Some n))
        | OpenChannel ch \<Rightarrow> (bound, limit(ch := None))
        | _ \<Rightarrow> (bound, limit)),
      queues_for = (\<lambda>(bound, limit) e k. {q. (q, e, k) \<in> bound}),
      prefetch = (\<lambda>(bound, limit) ch. limit ch)\<rparr>"

lemma demo_broker_law: "broker_law demo_broker"
  by (auto simp: broker_law_def demo_broker_def split: host_call.split)

lemma bare_processor:
  "\<exists>cfg. processor_load bare_config_lib = Inr cfg \<and> topology_of (processor_rabbitmq cfg) = topology_of rabbitmq_config_default"
  using bare_unconfigured
  by (simp add: unconfigured_def processor_load_def processor_of_table_def rabbitmq_of_table_def config_section_def field_def rabbitmq_config_default_def)

lemma bare_submission:
  "\<exists>cfg. submission_load bare_config_lib = Inr cfg \<and> submission_publish cfg = publish_config_default"
  using bare_unconfigured
  by (simp add: unconfigured_def submission_load_def submission_of_table_def config_section_def field_def publish_config_default_def Let_def)

lemma bare_processor_consumes:
  "BasicConsume 1 ''submit.queue'' \<in> set (snd (processor_main bare_config_lib (\<lambda>_. True)))"
  using bare_processor
  by (auto simp: processor_main_def with_settings_def processor_stages_def rabbitmq_init_stages_def Let_def topology_of_def
      rabbitmq_config_default_def)

theorem published_messages_routed_witness:
  "''submit.queue'' \<in> queues_for demo_broker
     (broker_after demo_broker (snd (processor_main bare_config_lib (\<lambda>_. True))) ({}, Map.empty)) ''online-judge.exchange'' ''submit''"
proof -
  obtain cfg scfg where cfg: "processor_load bare_config_lib = Inr cfg" "topology_of (processor_rabbitmq cfg) = topology_of rabbitmq_config_default"
    and scfg: "submission_load bare_config_lib = Inr scfg" "submission_publish scfg = publish_config_default"
    using bare_processor bare_submission by blast
  have published: "publish (submission_publish scfg) (topology_of (processor_rabbitmq cfg)) [] demo_world =
      demo_world\<lparr>ready := ready demo_world @ [[]]\<rparr>"
    unfolding scfg(2) cfg(2) by (simp add: publish_def publish_config_default_def topology_of_def rabbitmq_config_default_def)
  have fresh: "queues_for demo_broker ({}, Map.empty) e k = {}" for e k by (simp add: demo_broker_def)
  from published_messages_routed [OF demo_broker_law cfg(1) scfg(1) bare_processor_consumes fresh, where m = "[]" and w = demo_world] show ?thesis
    unfolding published by (simp add: scfg(2) publish_config_default_def)
qed

end
