(* ===== verification/Serving.thy ===== *)
theory Serving
  imports Broker Agent
begin

text \<open>
  The processes that accept connections themselves: \<open>main\<close> of the gateway and of the agent.  Both spawn a task per
  connection into a \<open>JoinSet\<close>, stop at an interrupt, wait for the tasks with a time limit and abort the rest.
  A process is driven by events: what it accepts, the interrupt, a task that ends, time that passes.
\<close>

subsection \<open>Tasks of a process\<close>

text \<open>A task that ended stays in its set until it is joined.\<close>

datatype task_state = TaskRunning | TaskEnded

type_synonym 'k join_set = "('k \<times> task_state) list"

text \<open>\<open>MainReturned True\<close> is the return of \<open>Ok(())\<close>, \<open>MainReturned False\<close> that of an I/O error.\<close>

datatype serve_phase = Accepting | Draining duration | MainReturned bool

text \<open>\<open>backlog\<close> counts the connections the kernel completed that nobody accepts any more; \<open>Incoming\<close> is such a
  completed connection, a refused one is no event.\<close>

record 'k process =
  phase :: serve_phase
  clock_now :: duration
  listening :: bool
  backlog :: nat
  task_set :: "'k join_set"
  admitted :: nat
  aborted :: "'k list"

definition process_new :: "'k process" where
  "process_new = \<lparr>phase = Accepting, clock_now = 0, listening = True, backlog = 0, task_set = [], admitted = 0, aborted = []\<rparr>"

text \<open>\<open>Interrupt\<close> is an interrupt that the loop sees.  Each turn of the loop waits for the interrupt with a new \<open>ctrl_c\<close>
  future, and \<open>select!\<close> takes either branch when both are ready: an interrupt that comes together with a connection, or while
  its turn is finished, may be seen by no future (\<open>MissedInterrupt\<close>), and then the loop goes on as if there had been none.\<close>

datatype serve_event = Incoming | AcceptError | Interrupt | MissedInterrupt | TaskEnds nat | Elapse duration

definition spawn_task :: "'k \<Rightarrow> ('k, 'm) process_scheme \<Rightarrow> ('k, 'm) process_scheme" where
  "spawn_task k p = p\<lparr>task_set := task_set p @ [(k, TaskRunning)], admitted := admitted p + 1\<rparr>"

text \<open>What happens by itself: a task, given by its place, ends, and time passes.\<close>

fun progress :: "serve_event \<Rightarrow> ('k, 'm) process_scheme \<Rightarrow> ('k, 'm) process_scheme" where
  "progress (TaskEnds i) p =
     (if i < length (task_set p) then p\<lparr>task_set := (task_set p)[i := (fst (task_set p ! i), TaskEnded)]\<rparr> else p)"
| "progress (Elapse d) p = p\<lparr>clock_now := clock_now p + d\<rparr>"
| "progress _ p = p"

definition running_tasks :: "'k join_set \<Rightarrow> 'k join_set" where
  "running_tasks js = filter (\<lambda>(k, st). st = TaskRunning) js"

definition still_draining :: "('k, 'm) process_scheme \<Rightarrow> bool" where
  "still_draining p \<longleftrightarrow> task_set p \<noteq> [] \<and> running_tasks (task_set p) = task_set p"

text \<open>The set is dropped with the process, or shut down before: its tasks are aborted.\<close>

definition exit_process :: "bool \<Rightarrow> ('k, 'm) process_scheme \<Rightarrow> ('k, 'm) process_scheme" where
  "exit_process ok p =
     p\<lparr>phase := MainReturned ok, listening := False, aborted := map fst (running_tasks (task_set p)), task_set := []\<rparr>"

text \<open>\<open>timeout\<close> polls the joining loop first and its own timer after it.\<close>

definition drain_poll :: "('k, 'm) process_scheme \<Rightarrow> ('k, 'm) process_scheme" where
  "drain_poll p =
     (case phase p of
        Draining deadline \<Rightarrow>
          (let q = p\<lparr>task_set := running_tasks (task_set p)\<rparr> in
           if task_set q = [] \<or> deadline \<le> clock_now q then exit_process True q else q)
      | _ \<Rightarrow> p)"

subsection \<open>The agent\<close>

text \<open>The listener lives as long as \<open>main\<close>, so that connections are completed while tasks are drained.\<close>

definition agent_drain_limit :: duration where
  "agent_drain_limit = from_secs 60"

definition agent_serve :: "serve_event \<Rightarrow> unit process \<Rightarrow> unit process" where
  "agent_serve ev p =
     (case phase p of
        Accepting \<Rightarrow>
          (case ev of
             Incoming \<Rightarrow> spawn_task () p
           | AcceptError \<Rightarrow> exit_process False p
           | Interrupt \<Rightarrow> drain_poll (p\<lparr>phase := Draining (clock_now p + agent_drain_limit)\<rparr>)
           | _ \<Rightarrow> progress ev p)
      | Draining _ \<Rightarrow> drain_poll (if ev = Incoming then p\<lparr>backlog := backlog p + 1\<rparr> else progress ev p)
      | MainReturned _ \<Rightarrow> p)"

text \<open>What \<open>Provisioner::destroy\<close> of the manager waits for the exit.\<close>

definition destroy_wait :: duration where
  "destroy_wait = from_secs 90"

subsection \<open>The gateway\<close>

datatype connection_task = HandleConnection | Send503

record gateway_process = "connection_task process" +
  permits :: nat

definition gateway_process_new :: "gateway_config \<Rightarrow> gateway_process" where
  "gateway_process_new cfg = process.extend process_new \<lparr>permits = max_connections cfg\<rparr>"

definition try_acquire :: "gateway_process \<Rightarrow> gateway_process option" where
  "try_acquire a = (if 0 < permits a then Some (a\<lparr>permits := permits a - 1\<rparr>) else None)"

definition release_permit :: "gateway_process \<Rightarrow> gateway_process" where
  "release_permit a = a\<lparr>permits := permits a + 1\<rparr>"

text \<open>One accepted stream: the permit is bound in the match arm and dropped where the arm ends.\<close>

definition accept_stream :: "gateway_process \<Rightarrow> gateway_process" where
  "accept_stream a =
     (case try_acquire a of
        Some a1 \<Rightarrow> release_permit (spawn_task HandleConnection a1)
      | None \<Rightarrow> spawn_task Send503 a)"

definition gateway_serve :: "gateway_config \<Rightarrow> serve_event \<Rightarrow> gateway_process \<Rightarrow> gateway_process" where
  "gateway_serve cfg ev p =
     (case phase p of
        Accepting \<Rightarrow>
          (case ev of
             Incoming \<Rightarrow> accept_stream p
           | AcceptError \<Rightarrow> exit_process False p
           | Interrupt \<Rightarrow> drain_poll (p\<lparr>listening := False, phase := Draining (clock_now p + from_secs (drain_timeout_secs cfg))\<rparr>)
           | _ \<Rightarrow> progress ev p)
      | Draining _ \<Rightarrow> drain_poll (progress ev p)
      | MainReturned _ \<Rightarrow> p)"

subsection \<open>The contract of a draining process\<close>

fun elapsed :: "serve_event list \<Rightarrow> duration" where
  "elapsed [] = 0"
| "elapsed (Elapse d # evs) = d + elapsed evs"
| "elapsed (_ # evs) = elapsed evs"

lemma elapsed_Cons: "elapsed (ev # evs) = elapsed [ev] + elapsed evs"
  by (cases ev) simp_all

lemma progress_fields [simp]:
  "phase (progress ev p) = phase p" "aborted (progress ev p) = aborted p" "admitted (progress ev p) = admitted p"
  "length (task_set (progress ev p)) = length (task_set p)" "clock_now (progress ev p) = clock_now p + elapsed [ev]"
  "listening (progress ev p) = listening p" "backlog (progress ev p) = backlog p"
  by (cases ev; simp)+

lemma spawn_task_fields [simp]:
  "phase (spawn_task k p) = phase p" "aborted (spawn_task k p) = aborted p" "admitted (spawn_task k p) = admitted p + 1"
  "task_set (spawn_task k p) = task_set p @ [(k, TaskRunning)]" "clock_now (spawn_task k p) = clock_now p"
  by (simp_all add: spawn_task_def)

lemma drain_poll_cases:
  assumes "phase q = Draining t"
  shows "admitted (drain_poll q) = admitted q \<and>
    (phase (drain_poll q) = MainReturned True \<and> (aborted (drain_poll q) \<noteq> [] \<longrightarrow> t \<le> clock_now q) \<or>
     phase (drain_poll q) = Draining t \<and> clock_now (drain_poll q) = clock_now q \<and> clock_now q < t \<and>
       aborted (drain_poll q) = aborted q \<and> still_draining (drain_poll q) \<and>
       listening (drain_poll q) = listening q \<and> backlog (drain_poll q) = backlog q)"
  using assms by (auto simp: drain_poll_def exit_process_def running_tasks_def still_draining_def Let_def)

locale draining_process =
  fixes serve :: "serve_event \<Rightarrow> 's \<Rightarrow> 's"
    and view :: "'s \<Rightarrow> 'k process"
    and limit :: duration
  assumes serve_incoming: "phase (view s) = Accepting \<Longrightarrow> \<exists>k. view (serve Incoming s) = spawn_task k (view s)"
    and serve_error: "phase (view s) = Accepting \<Longrightarrow> view (serve AcceptError s) = exit_process False (view s)"
    and serve_interrupt: "phase (view s) = Accepting \<Longrightarrow>
      \<exists>b. view (serve Interrupt s) = drain_poll ((view s)\<lparr>listening := b, phase := Draining (clock_now (view s) + limit)\<rparr>)"
    and serve_missed: "phase (view s) = Accepting \<Longrightarrow> view (serve MissedInterrupt s) = view s"
    and serve_ends: "phase (view s) = Accepting \<Longrightarrow> view (serve (TaskEnds i) s) = progress (TaskEnds i) (view s)"
    and serve_elapse: "phase (view s) = Accepting \<Longrightarrow> view (serve (Elapse d) s) = progress (Elapse d) (view s)"
    and serve_draining: "phase (view s) = Draining t \<Longrightarrow> \<exists>n. view (serve ev s) = drain_poll ((progress ev (view s))\<lparr>backlog := n\<rparr>)"
    and serve_returned: "phase (view s) = MainReturned ok \<Longrightarrow> view (serve ev s) = view s"
begin

lemma returned_stays: "phase (view s) = MainReturned ok \<Longrightarrow> view (fold serve evs s) = view s"
  by (induction evs arbitrary: s) (simp_all add: serve_returned)

text \<open>As long as it accepts, a process joins nothing.\<close>

lemma drain_step:
  assumes "phase (view s) = Draining t"
  shows "admitted (view (serve ev s)) = admitted (view s) \<and>
    (phase (view (serve ev s)) = MainReturned True \<and> (aborted (view (serve ev s)) \<noteq> [] \<longrightarrow> t \<le> clock_now (view s) + elapsed [ev]) \<or>
     phase (view (serve ev s)) = Draining t \<and> clock_now (view (serve ev s)) = clock_now (view s) + elapsed [ev] \<and>
       clock_now (view s) + elapsed [ev] < t \<and> aborted (view (serve ev s)) = aborted (view s) \<and>
       still_draining (view (serve ev s)))"
proof -
  from serve_draining [OF assms] obtain n where "view (serve ev s) = drain_poll ((progress ev (view s))\<lparr>backlog := n\<rparr>)" by blast
  with drain_poll_cases [of "(progress ev (view s))\<lparr>backlog := n\<rparr>" t] assms show ?thesis by auto
qed

lemma interrupt_step:
  assumes "phase (view s) = Accepting"
  shows "admitted (view (serve Interrupt s)) = admitted (view s) \<and>
    (phase (view (serve Interrupt s)) = MainReturned True \<and> (aborted (view (serve Interrupt s)) \<noteq> [] \<longrightarrow> limit = 0) \<or>
     phase (view (serve Interrupt s)) = Draining (clock_now (view s) + limit) \<and> clock_now (view (serve Interrupt s)) = clock_now (view s) \<and>
       0 < limit \<and> aborted (view (serve Interrupt s)) = aborted (view s) \<and> still_draining (view (serve Interrupt s)))"
proof -
  from serve_interrupt [OF assms] obtain b where
    "view (serve Interrupt s) = drain_poll ((view s)\<lparr>listening := b, phase := Draining (clock_now (view s) + limit)\<rparr>)" by blast
  with drain_poll_cases [of "(view s)\<lparr>listening := b, phase := Draining (clock_now (view s) + limit)\<rparr>" "clock_now (view s) + limit"]
  show ?thesis by auto
qed

lemma stopping_stays: "phase (view s) \<noteq> Accepting \<Longrightarrow> phase (view (fold serve evs s)) \<noteq> Accepting"
proof (induction evs arbitrary: s)
  case (Cons ev evs)
  have "phase (view (serve ev s)) \<noteq> Accepting"
  proof (cases "phase (view s)")
    case (Draining t)
    from drain_step [OF this, of ev] show ?thesis by auto
  qed (use Cons.prems serve_returned [of s _ ev] in auto)
  with Cons.IH show ?case by simp
qed simp

lemma accepting_keeps_tasks:
  "phase (view s) = Accepting \<Longrightarrow> phase (view (fold serve evs s)) = Accepting \<Longrightarrow>
     admitted (view s) = length (task_set (view s)) \<Longrightarrow> aborted (view s) = [] \<Longrightarrow>
     admitted (view (fold serve evs s)) = length (task_set (view (fold serve evs s))) \<and> aborted (view (fold serve evs s)) = [] \<and>
     admitted (view (fold serve evs s)) = admitted (view s) + count_list evs Incoming"
proof (induction evs arbitrary: s)
  case (Cons ev evs)
  have next_accepting: "phase (view (serve ev s)) = Accepting"
    using stopping_stays [of "serve ev s" evs] Cons.prems(2) by auto
  then have "ev \<noteq> AcceptError \<and> ev \<noteq> Interrupt"
    using serve_error [OF Cons.prems(1)] interrupt_step [OF Cons.prems(1)] by (auto simp: exit_process_def)
  then have "admitted (view (serve ev s)) = length (task_set (view (serve ev s))) \<and> aborted (view (serve ev s)) = [] \<and>
      admitted (view (serve ev s)) = admitted (view s) + (if ev = Incoming then 1 else 0)"
    using Cons.prems serve_incoming [OF Cons.prems(1)] serve_missed [OF Cons.prems(1)] serve_ends [OF Cons.prems(1)] serve_elapse [OF Cons.prems(1)]
    by (cases ev) auto
  with Cons.IH [OF next_accepting] Cons.prems(2) show ?case by auto
qed simp

lemma drain_ends:
  assumes "phase (view s) = Draining t" and "clock_now (view s) < t" and "aborted (view s) = []"
    and "still_draining (view s)"
  shows "admitted (view (fold serve evs s)) = admitted (view s) \<and>
    (case phase (view (fold serve evs s)) of
       Draining t' \<Rightarrow> t' = t \<and> clock_now (view s) + elapsed evs < t \<and> aborted (view (fold serve evs s)) = [] \<and>
         still_draining (view (fold serve evs s))
     | MainReturned ok \<Rightarrow> ok \<and> (aborted (view (fold serve evs s)) \<noteq> [] \<longrightarrow> t \<le> clock_now (view s) + elapsed evs)
     | Accepting \<Rightarrow> False)"
  using assms
proof (induction evs arbitrary: s)
  case (Cons ev evs)
  from drain_step [OF Cons.prems(1), of ev] consider
      (returned) "phase (view (serve ev s)) = MainReturned True" "admitted (view (serve ev s)) = admitted (view s)"
        "aborted (view (serve ev s)) \<noteq> [] \<longrightarrow> t \<le> clock_now (view s) + elapsed [ev]"
    | (draining) "phase (view (serve ev s)) = Draining t" "admitted (view (serve ev s)) = admitted (view s)"
        "clock_now (view (serve ev s)) = clock_now (view s) + elapsed [ev]" "clock_now (view (serve ev s)) < t"
        "aborted (view (serve ev s)) = []" "still_draining (view (serve ev s))"
    using Cons.prems(3) by auto
  then show ?case
  proof cases
    case returned
    with returned_stays [OF returned(1), of evs] elapsed_Cons [of ev evs] show ?thesis by auto
  next
    case draining
    from Cons.IH [OF draining(1,4,5,6)] draining(2,3) elapsed_Cons [of ev evs] show ?thesis
      by (simp add: add.assoc split: serve_phase.splits)
  qed
qed simp

text \<open>From the interrupt on.\<close>

lemma drains:
  assumes "phase (view s) = Accepting" and "aborted (view s) = []"
  shows "admitted (view (fold serve evs (serve Interrupt s))) = admitted (view s) \<and>
    (limit \<le> elapsed evs \<longrightarrow> phase (view (fold serve evs (serve Interrupt s))) = MainReturned True) \<and>
    (aborted (view (fold serve evs (serve Interrupt s))) \<noteq> [] \<longrightarrow> limit \<le> elapsed evs) \<and>
    (phase (view (fold serve evs (serve Interrupt s))) = MainReturned True \<or> still_draining (view (fold serve evs (serve Interrupt s))))"
  using interrupt_step [OF assms(1)]
proof (elim conjE disjE)
  assume "phase (view (serve Interrupt s)) = MainReturned True" "admitted (view (serve Interrupt s)) = admitted (view s)"
    "aborted (view (serve Interrupt s)) \<noteq> [] \<longrightarrow> limit = 0"
  with returned_stays [of "serve Interrupt s" True evs] show ?thesis by simp
next
  assume "phase (view (serve Interrupt s)) = Draining (clock_now (view s) + limit)" "clock_now (view (serve Interrupt s)) = clock_now (view s)"
    "0 < limit" "aborted (view (serve Interrupt s)) = aborted (view s)" "still_draining (view (serve Interrupt s))"
    "admitted (view (serve Interrupt s)) = admitted (view s)"
  with drain_ends [of "serve Interrupt s" "clock_now (view s) + limit" evs] assms(2) show ?thesis
    by (auto split: serve_phase.splits)
qed

end

subsection \<open>Both processes keep the contract\<close>

lemma process_split: "process.truncate p = q \<longleftrightarrow>
   phase p = phase q \<and> clock_now p = clock_now q \<and> listening p = listening q \<and> backlog p = backlog q \<and> task_set p = task_set q \<and>
   admitted p = admitted q \<and> aborted p = aborted q"
  by (cases q) (auto simp: process.defs)

lemma truncate_fields [simp]:
  "phase (process.truncate p) = phase p" "clock_now (process.truncate p) = clock_now p" "listening (process.truncate p) = listening p"
  "backlog (process.truncate p) = backlog p" "task_set (process.truncate p) = task_set p" "admitted (process.truncate p) = admitted p"
  "aborted (process.truncate p) = aborted p"
  by (simp_all add: process.defs)

lemma truncate_progress: "process.truncate (progress ev p) = progress ev (process.truncate p)"
  by (cases ev) (simp_all add: process_split)

lemma truncate_drain_poll: "process.truncate (drain_poll p) = drain_poll (process.truncate p)"
  by (cases "phase p") (simp_all add: process_split drain_poll_def exit_process_def Let_def)

lemma truncate_updates:
  "process.truncate (p\<lparr>backlog := n\<rparr>) = process.truncate p\<lparr>backlog := n\<rparr>"
  "process.truncate (p\<lparr>listening := b, phase := ph\<rparr>) = process.truncate p\<lparr>listening := b, phase := ph\<rparr>"
  "process.truncate (exit_process ok p) = exit_process ok (process.truncate p)"
  "process.truncate (spawn_task k p) = spawn_task k (process.truncate p)"
  by (simp_all add: process_split exit_process_def spawn_task_def)

lemma backlog_same: "backlog p = n \<Longrightarrow> p\<lparr>backlog := n\<rparr> = p"
  by (cases p) simp

lemma accept_stream_spawns: "\<exists>k. process.truncate (accept_stream p) = spawn_task k (process.truncate p)"
  by (cases "0 < permits p")
    (auto simp: accept_stream_def try_acquire_def release_permit_def spawn_task_def process_split intro!: exI)

interpretation agent_main: draining_process agent_serve "\<lambda>p. p" agent_drain_limit
proof unfold_locales
  fix s :: "unit process" and t ev
  assume "phase s = Draining t"
  then show "\<exists>n. agent_serve ev s = drain_poll ((progress ev s)\<lparr>backlog := n\<rparr>)"
    by (cases ev) (auto simp: agent_serve_def intro: exI [of _ "backlog s"])
next
  fix s :: "unit process"
  assume "phase s = Accepting"
  then show "\<exists>b. agent_serve Interrupt s = drain_poll (s\<lparr>listening := b, phase := Draining (clock_now s + agent_drain_limit)\<rparr>)"
    by (intro exI [of _ "listening s"]) (simp add: agent_serve_def)
qed (auto simp: agent_serve_def)

interpretation gateway_main: draining_process "gateway_serve cfg" process.truncate "from_secs (drain_timeout_secs cfg)" for cfg
proof unfold_locales
  fix s :: gateway_process and t ev
  assume "phase (process.truncate s) = Draining t"
  then show "\<exists>n. process.truncate (gateway_serve cfg ev s) = drain_poll ((progress ev (process.truncate s))\<lparr>backlog := n\<rparr>)"
    by (intro exI [of _ "backlog s"]) (simp add: gateway_serve_def truncate_drain_poll truncate_progress backlog_same)
qed (auto simp: gateway_serve_def truncate_drain_poll truncate_progress truncate_updates accept_stream_spawns)

lemma gateway_new_fields [simp]:
  "phase (gateway_process_new cfg) = Accepting" "aborted (gateway_process_new cfg) = []" "task_set (gateway_process_new cfg) = []"
  "admitted (gateway_process_new cfg) = 0"
  by (simp_all add: gateway_process_new_def process_new_def process.defs)

lemma agent_new_fields [simp]:
  "phase process_new = Accepting" "aborted process_new = []" "task_set process_new = []" "admitted process_new = 0"
  "listening process_new = True" "backlog process_new = 0"
  by (simp_all add: process_new_def)

lemma drain_poll_quiet:
  "\<not> listening p \<Longrightarrow> \<not> listening (drain_poll p)" "phase p \<noteq> Accepting \<Longrightarrow> phase (drain_poll p) \<noteq> Accepting"
  by (auto simp: drain_poll_def exit_process_def Let_def split: serve_phase.splits)

lemma agent_accepting_listens:
  "phase p = Accepting \<Longrightarrow> phase (fold agent_serve evs p) = Accepting \<Longrightarrow> listening p \<Longrightarrow>
     listening (fold agent_serve evs p) \<and> backlog (fold agent_serve evs p) = backlog p"
proof (induction evs arbitrary: p)
  case (Cons ev evs)
  have next_accepting: "phase (agent_serve ev p) = Accepting"
    using agent_main.stopping_stays [of "agent_serve ev p" evs] Cons.prems(2) by auto
  then have "listening (agent_serve ev p) \<and> backlog (agent_serve ev p) = backlog p"
    using Cons.prems(1,3) agent_main.interrupt_step [OF Cons.prems(1)]
    by (cases ev) (auto simp: agent_serve_def spawn_task_def exit_process_def)
  with Cons.IH [OF next_accepting] Cons.prems(2) show ?case by simp
qed simp

text \<open>The agent keeps its socket until it returns, and what arrives meanwhile waits for nobody.\<close>

lemma agent_listens_while_draining:
  "phase p = Draining t \<Longrightarrow> listening p \<Longrightarrow>
     phase (fold agent_serve evs p) = MainReturned True \<or>
     listening (fold agent_serve evs p) \<and> backlog (fold agent_serve evs p) = backlog p + count_list evs Incoming"
proof (induction evs arbitrary: p)
  case (Cons ev evs)
  define q where "q = (if ev = Incoming then p\<lparr>backlog := backlog p + 1\<rparr> else progress ev p)"
  have q: "phase q = Draining t" "listening q" "backlog q = backlog p + count_list [ev] Incoming"
    using Cons.prems by (simp_all add: q_def)
  have step: "agent_serve ev p = drain_poll q" using Cons.prems(1) by (simp add: agent_serve_def q_def)
  from drain_poll_cases [OF q(1)] show ?case
  proof (elim conjE disjE)
    assume "phase (drain_poll q) = MainReturned True"
    with agent_main.returned_stays [of "drain_poll q" True evs] show ?thesis by (simp add: step)
  next
    assume "phase (drain_poll q) = Draining t" "listening (drain_poll q) = listening q" "backlog (drain_poll q) = backlog q"
    with Cons.IH [of "drain_poll q"] q show ?thesis by (auto simp: step)
  qed
qed simp

subsection \<open>Properties\<close>

text \<open>C25. At an interrupt the gateway gives up its port and admits no connection any more; it waits for those it has, for
  no longer than the configured time: by then it has returned, before that it returns only when all its tasks ended
  and it aborts none.\<close>
theorem gateway_drains:
  fixes cfg :: gateway_config
  defines "limit \<equiv> from_secs (drain_timeout_secs cfg)"
  assumes "s = fold (gateway_serve cfg) before (gateway_process_new cfg)" and "phase s = Accepting"
    and "t = fold (gateway_serve cfg) after (gateway_serve cfg Interrupt s)"
  shows "\<not> listening t \<and> admitted t = count_list before Incoming \<and>
    (phase t = MainReturned True \<or> still_draining t) \<and>
    (limit \<le> elapsed after \<longrightarrow> phase t = MainReturned True) \<and> (aborted t \<noteq> [] \<longrightarrow> limit \<le> elapsed after)"
proof -
  have listening: "\<not> listening (fold (gateway_serve cfg) evs p)" if "\<not> listening p" "phase p \<noteq> Accepting" for evs p
    using that
  proof (induction evs arbitrary: p)
    case (Cons ev evs)
    have "\<not> listening (gateway_serve cfg ev p) \<and> phase (gateway_serve cfg ev p) \<noteq> Accepting"
      using Cons.prems by (cases "phase p") (simp_all add: gateway_serve_def drain_poll_quiet)
    with Cons.IH show ?case by simp
  qed simp
  have "\<not> listening (gateway_serve cfg Interrupt s) \<and> phase (gateway_serve cfg Interrupt s) \<noteq> Accepting"
    using assms(3) by (simp add: gateway_serve_def drain_poll_quiet)
  then have "\<not> listening t" using listening assms(4) by simp
  moreover have kept: "admitted s = count_list before Incoming \<and> aborted s = []"
    using gateway_main.accepting_keeps_tasks [of "gateway_process_new cfg" cfg before] assms(2,3) by simp
  ultimately show ?thesis
    using gateway_main.drains [of s cfg after] assms(3,4) unfolding limit_def by (simp add: still_draining_def)
qed

text \<open>C24. An agent that sees the interrupt judges no further task and returns within 60 seconds, which is less than the
  90 seconds \<open>destroy\<close> waits for it, and it aborts no task before these 60 seconds are over.  Until it returns it still completes connections,
  and answers none of them.\<close>
theorem agent_stops_within_wait:
  assumes "s = fold agent_serve before process_new" and "phase s = Accepting"
    and "t = fold agent_serve after (agent_serve Interrupt s)"
  shows "admitted t = count_list before Incoming \<and>
    (phase t = MainReturned True \<or> still_draining t \<and> listening t \<and> backlog t = count_list after Incoming) \<and>
    (from_secs 60 \<le> elapsed after \<longrightarrow> phase t = MainReturned True) \<and> from_secs 60 < destroy_wait \<and>
    (aborted t \<noteq> [] \<longrightarrow> from_secs 60 \<le> elapsed after)"
proof -
  have kept: "admitted s = count_list before Incoming \<and> aborted s = []"
    using agent_main.accepting_keeps_tasks [of process_new before] assms(1,2) by simp
  have "listening s \<and> backlog s = 0" using agent_accepting_listens [of process_new before] assms(1,2) by simp
  then have "phase (agent_serve Interrupt s) = MainReturned True \<or>
      (\<exists>d. phase (agent_serve Interrupt s) = Draining d) \<and> listening (agent_serve Interrupt s) \<and> backlog (agent_serve Interrupt s) = 0"
    using assms(2) drain_poll_cases [of "s\<lparr>phase := Draining (clock_now s + agent_drain_limit)\<rparr>"] by (auto simp: agent_serve_def)
  then have "phase t = MainReturned True \<or> listening t \<and> backlog t = count_list after Incoming"
    using agent_main.returned_stays [of "agent_serve Interrupt s" True after] agent_listens_while_draining [of "agent_serve Interrupt s" _ after]
      assms(3) by fastforce
  moreover have "from_secs 60 < destroy_wait" by (simp add: destroy_wait_def from_secs_def)
  ultimately show ?thesis
    using agent_main.drains [of s after] kept assms(2,3) by (auto simp: agent_drain_limit_def)
qed

text \<open>The connection limit is never enforced: the permit is given back before the connection is served, so
  with the positive limit of an accepted configuration every one of any number of simultaneous
  connections is served and none is answered with 503.\<close>
theorem connection_limit_never_reached:
  assumes "gateway_load (Inr cfg) = Inr cfg"
  shows "(accept_stream ^^ n) (gateway_process_new cfg) =
    (gateway_process_new cfg)\<lparr>task_set := replicate n (HandleConnection, TaskRunning), admitted := n\<rparr>"
proof -
  have pos: "0 < max_connections cfg"
    using assms by (auto simp: gateway_load_def gateway_validate_Inr split: sum.splits)
  show ?thesis
  proof (induction n)
    case 0
    then show ?case by (simp add: gateway_process_new_def process_new_def process.defs)
  next
    case (Suc n)
    with pos show ?case
      by (simp add: accept_stream_def try_acquire_def release_permit_def spawn_task_def replicate_append_same gateway_process_new_def
          process.defs)
  qed
qed

subsection \<open>Witnesses\<close>

definition demo_gateway_config :: gateway_config where
  "demo_gateway_config =
     \<lparr>routes = [], jwks_url = ''http://auth/jwks.json'', addr = ''localhost:9080'', upstream_timeout_secs = 30,
      max_connections = 2, drain_timeout_secs = 60\<rparr>"

theorem gateway_drains_witness:
  "let t = fold (gateway_serve demo_gateway_config) [Elapse (from_secs 60)] (gateway_serve demo_gateway_config Interrupt
       (fold (gateway_serve demo_gateway_config) [Incoming, Incoming, TaskEnds 0] (gateway_process_new demo_gateway_config)))
   in phase t = MainReturned True \<and> admitted t = 2 \<and> \<not> listening t"
proof -
  have "phase (fold (gateway_serve demo_gateway_config) [Incoming, Incoming, TaskEnds 0] (gateway_process_new demo_gateway_config)) = Accepting"
    by (simp add: gateway_serve_def accept_stream_def try_acquire_def release_permit_def demo_gateway_config_def)
  from gateway_drains [OF refl this refl, of "[Elapse (from_secs 60)]"] show ?thesis
    by (simp add: Let_def demo_gateway_config_def)
qed

theorem agent_stops_within_wait_witness:
  "let t = fold agent_serve [Incoming, Elapse (from_secs 60)] (agent_serve Interrupt (fold agent_serve [Incoming, MissedInterrupt] process_new))
   in phase t = MainReturned True \<and> admitted t = 1"
proof -
  have "phase (fold agent_serve [Incoming, MissedInterrupt] process_new) = Accepting" by (simp add: agent_serve_def)
  from agent_stops_within_wait [OF refl this refl, of "[Incoming, Elapse (from_secs 60)]"] show ?thesis
    by (simp add: Let_def)
qed

end
