(* ===== verification/Gateway_Layers.thy ===== *)
theory Gateway_Layers
  imports Serving
begin

text \<open>
  The gateway as it is put together: \<open>Layer::layer\<close>, \<open>poll_ready\<close> and \<open>forward!\<close> of \<open>gateway/src/layers/\<close>, the
  services of \<open>gateway/src/services/\<close>, \<open>main\<close>'s composition of them, and what \<open>main.rs\<close> does with a connection.
  Before a service is called it must be ready, and every layer asks the service it wraps, down to the HTTP client,
  whose readiness is a parameter: \<open>polls n\<close> is its answer to the \<open>n\<close>-th question about one request.
  \<open>Gateway_Pipeline\<close> is this stack with a client that is always ready.
\<close>

subsection \<open>Services and layers\<close>

record 'c service =
  svc_ready :: "nat \<Rightarrow> gateway_error + unit"
  svc_call :: 'c

text \<open>\<open>forward!\<close>: ask the inner service, then call it.  The rate limiter and what is around it have a state.\<close>

definition forward :: "nat \<Rightarrow> (http_request \<Rightarrow> 'uri answer) service \<Rightarrow> http_request \<Rightarrow> 'uri answer" where
  "forward n inner req = (case svc_ready inner n of Inl e \<Rightarrow> (Inl e, None) | Inr _ \<Rightarrow> svc_call inner req)"

definition forward_with ::
  "nat \<Rightarrow> (http_request \<Rightarrow> 's \<Rightarrow> 'uri answer option \<times> 's) service \<Rightarrow> http_request \<Rightarrow> 's \<Rightarrow> 'uri answer option \<times> 's" where
  "forward_with n inner req s =
     (case svc_ready inner n of Inl e \<Rightarrow> (Some (Inl e, None), s) | Inr _ \<Rightarrow> svc_call inner req s)"

text \<open>The proxy asks its client once more when the request is ready to be sent.\<close>

definition proxy_service ::
  "(nat \<Rightarrow> string + unit) \<Rightarrow> nat \<Rightarrow> 'uri uri_lib \<Rightarrow> ('uri sent_request \<Rightarrow> upstream_reply) \<Rightarrow> (http_request \<Rightarrow> 'uri answer) service" where
  "proxy_service polls n ul reply =
     \<lparr>svc_ready = (\<lambda>k. map_sum UpstreamError id (polls k)),
      svc_call = (\<lambda>req.
        case polls n of
          Inr _ \<Rightarrow> proxy_call ul reply req
        | Inl e \<Rightarrow> (case proxy_call ul reply req of (ans, None) \<Rightarrow> (ans, None) | (_, Some _) \<Rightarrow> (Inl (UpstreamError e), None)))\<rparr>"

definition auth_service ::
  "auth_lib \<Rightarrow> jwks_manager \<Rightarrow> u64 \<Rightarrow> nat \<Rightarrow> (http_request \<Rightarrow> 'uri answer) service \<Rightarrow> (http_request \<Rightarrow> 'uri answer) service" where
  "auth_service lib m now n inner = \<lparr>svc_ready = svc_ready inner, svc_call = auth_call lib m now (forward n inner)\<rparr>"

definition rate_limit_service ::
  "'l governor \<Rightarrow> clock \<Rightarrow> nat \<Rightarrow> (http_request \<Rightarrow> 'uri answer) service \<Rightarrow>
     (http_request \<Rightarrow> 'l limiter_state \<Rightarrow> 'uri answer option \<times> 'l limiter_state) service" where
  "rate_limit_service gov clock n inner = \<lparr>svc_ready = svc_ready inner, svc_call = rate_limit_call gov clock (forward n inner)\<rparr>"

definition route_service ::
  "route_config list \<Rightarrow> nat \<Rightarrow> (http_request \<Rightarrow> 's \<Rightarrow> 'uri answer option \<times> 's) service \<Rightarrow>
     (http_request \<Rightarrow> 's \<Rightarrow> 'uri answer option \<times> 's) service" where
  "route_service rs n inner = \<lparr>svc_ready = svc_ready inner, svc_call = route_call rs (forward_with n inner)\<rparr>"

definition health_service ::
  "(health \<Rightarrow> string) \<Rightarrow> jwks_manager \<Rightarrow> nat \<Rightarrow> (http_request \<Rightarrow> 's \<Rightarrow> 'uri answer option \<times> 's) service \<Rightarrow>
     (http_request \<Rightarrow> 's \<Rightarrow> 'uri answer option \<times> 's) service" where
  "health_service json m n inner = \<lparr>svc_ready = svc_ready inner, svc_call = health_call json m (forward_with n inner)\<rparr>"

text \<open>The stack of \<open>main\<close>; question 0 is the gateway service's own.\<close>

definition gateway_stack ::
  "('l, 'uri) gateway \<Rightarrow> clock \<Rightarrow> u64 \<Rightarrow> (nat \<Rightarrow> string + unit) \<Rightarrow>
     (http_request \<Rightarrow> 'l limiter_state \<Rightarrow> 'uri answer option \<times> 'l limiter_state) service" where
  "gateway_stack gw clock now polls =
     health_service (gw_json gw) (gw_jwks gw) 1
       (route_service (gw_routes gw) 2
         (rate_limit_service (gw_governor gw) clock 3
           (auth_service (gw_lib gw) (gw_jwks gw) now 4
             (proxy_service polls 5 (gw_uri gw) (gw_upstream gw)))))"

text \<open>\<open>GatewayService::call\<close>, a failure answered with its status and text.\<close>

definition gateway_service_call ::
  "('l, 'uri) gateway \<Rightarrow> clock \<Rightarrow> u64 \<Rightarrow> (nat \<Rightarrow> string + unit) \<Rightarrow> string \<Rightarrow> string option \<Rightarrow> http_request \<Rightarrow> 'l limiter_state \<Rightarrow>
     (http_response \<times> 'uri sent_request option) option \<times> 'l limiter_state" where
  "gateway_service_call gw clock now polls peer body req s =
     (case body of
        None \<Rightarrow> (Some (error_response_of 400 ''failed to read request body'', None), s)
      | Some bytes \<Rightarrow>
          (case svc_ready (gateway_stack gw clock now polls) 0 of
             Inl e \<Rightarrow> (Some (error_response_of (gateway_status e) (gateway_message e), None), s)
           | Inr _ \<Rightarrow>
               (case svc_call (gateway_stack gw clock now polls) (req\<lparr>peer_addr := Some peer, req_body := bytes, matched := None\<rparr>) s of
                  (None, s') \<Rightarrow> (None, s')
                | (Some (Inr resp, sent), s') \<Rightarrow> (Some (resp, sent), s')
                | (Some (Inl e, sent), s') \<Rightarrow> (Some (error_response_of (gateway_status e) (gateway_message e), sent), s'))))"

subsection \<open>Connections\<close>

text \<open>A request on a connection, by the task that serves it: \<open>send_503\<close> answers anything the same, \<open>handle_connection\<close>
  serves nothing if the address of the peer is not known (\<open>None\<close>: no answer).\<close>

definition unavailable_response :: http_response where
  "unavailable_response =
     \<lparr>resp_status = 503, resp_headers = [''content-type'' \<mapsto> [''text/plain''], ''connection'' \<mapsto> [''close'']],
      resp_body = ''503 Service Unavailable'' @ [CHR 0x0A]\<rparr>"

definition connection_call ::
  "connection_task \<Rightarrow> string option \<Rightarrow> ('l, 'uri) gateway \<Rightarrow> clock \<Rightarrow> u64 \<Rightarrow> (nat \<Rightarrow> string + unit) \<Rightarrow> string option \<Rightarrow> http_request \<Rightarrow>
     'l limiter_state \<Rightarrow> (http_response \<times> 'uri sent_request option) option \<times> 'l limiter_state" where
  "connection_call task peer gw clock now polls body req s =
     (case task of
        Send503 \<Rightarrow> (Some (unavailable_response, None), s)
      | HandleConnection \<Rightarrow>
          (case peer of
             None \<Rightarrow> (None, s)
           | Some address \<Rightarrow> gateway_service_call gw clock now polls address body req s))"

subsection \<open>Lemmas\<close>

lemma stack_ready: "svc_ready (gateway_stack gw clock now polls) n = map_sum UpstreamError id (polls n)"
  by (simp add: gateway_stack_def health_service_def route_service_def rate_limit_service_def auth_service_def proxy_service_def)

lemma forward_ready: "svc_ready inner n = Inr u \<Longrightarrow> forward n inner = svc_call inner"
  by (rule ext) (simp add: forward_def)

lemma forward_with_ready: "svc_ready inner n = Inr u \<Longrightarrow> forward_with n inner = svc_call inner"
  by (intro ext) (simp add: forward_with_def)

lemmas stack_defs = gateway_stack_def health_service_def route_service_def rate_limit_service_def auth_service_def proxy_service_def

lemma stack_is_pipeline:
  assumes "\<And>n. polls n = Inr ()"
  shows "svc_call (gateway_stack gw clock now polls) = pipeline gw clock now"
  using assms by (simp add: stack_defs pipeline_def forward_ready [of _ _ "()"] forward_with_ready [of _ _ "()"])

subsection \<open>Properties\<close>

text \<open>C27. The stack of layers that \<open>main\<close> builds is the pipeline the other properties of the gateway speak of: with a client
  that is always ready, a request on any connection the gateway accepts (however many, within an accepted
  configuration) is answered as \<open>gateway_call\<close> says.  With a client that is not, every request gets 502, the health
  check too.\<close>
theorem connections_served_by_pipeline:
  assumes "gateway_load (Inr cfg) = Inr cfg"
    and "(task, TaskRunning) \<in> set (task_set ((accept_stream ^^ n) (gateway_process_new cfg)))"
  shows "((\<forall>k. polls k = Inr ()) \<longrightarrow>
      connection_call task (Some peer) gw clock now polls body req ls = gateway_call gw clock now peer body req ls) \<and>
    (polls 0 = Inl e \<longrightarrow>
      connection_call task (Some peer) gw clock now polls (Some bytes) req ls =
        (Some (error_response_of 502 (''upstream error: '' @ e), None), ls))"
proof -
  have "task = HandleConnection"
    using assms(2) connection_limit_never_reached [OF assms(1), of n] by auto
  then show ?thesis
    by (auto simp: connection_call_def gateway_service_call_def gateway_call_def stack_ready stack_is_pipeline split: option.splits)
qed

theorem connections_served_by_pipeline_witness:
  "connection_call HandleConnection (Some ''10.0.0.1'') (demo_gateway Required) (\<lambda>_. False, 5) 60 (\<lambda>_. Inl ''busy'') (Some [])
     (demo_request Map.empty \<lparr>req_path := ''/healthz''\<rparr>) no_limiters = (Some (error_response_of 502 ''upstream error: busy'', None), no_limiters)"
proof -
  have valid: "gateway_load (Inr demo_gateway_config) = Inr demo_gateway_config"
    by (simp add: gateway_load_def gateway_validate_def config_errors_def field_check_def demo_gateway_config_def)
  have "(HandleConnection, TaskRunning) \<in> set (task_set ((accept_stream ^^ 2) (gateway_process_new demo_gateway_config)))"
    by (simp add: connection_limit_never_reached [OF valid])
  from connections_served_by_pipeline [OF valid this, where polls = "\<lambda>_. Inl ''busy''" and e = "''busy''" and bytes = "[]" and peer = "''10.0.0.1''"]
  show ?thesis by simp
qed

end
