(* ===== verification/Supervision.thy ===== *)
theory Supervision
  imports Cpp_Judge
begin

text \<open>
  How \<open>Cpp::verdict\<close> supervises the judged program (\<open>judge_core_agent/src/verdict/cpp.rs\<close>, lines 163 to 232): it writes
  the input, then starts a reader for each of the two outputs and waits for the exit, an output over the limit or
  the wall clock.  \<open>Cpp_Judge\<close> takes the outcome as given; here it is reached in steps, in any interleaving of the
  program, the judge, the readers and the clock.  The program is the sequence of what it does (nothing more after
  the last action: it runs for ever); \<open>cap\<close> is the capacity of the kernel's pipes, \<open>quota\<close> and \<open>wall\<close> the limits of the
  task.  The program is one process, and killing it succeeds.
\<close>

subsection \<open>States\<close>

datatype action = ReadIn | WriteOut char | WriteErr char | ExitWith exit_status

datatype reader = Reading string | ReadDone "string + string"

text \<open>An output of the program: what the pipe holds, what was ever written, and its reader.\<close>

record channel =
  in_pipe :: string
  wrote :: string
  reader :: reader

datatype supervision_stage = Feeding | Watching nat | Settled child_outcome

record supervision =
  sv_script :: "action list"
  sv_ended :: "exit_status option"
  sv_stage :: supervision_stage
  sv_unsent :: string
  sv_stdin :: string
  sv_out :: channel
  sv_err :: channel
  sv_notified :: bool
  sv_clock :: nat

definition channel_new :: channel where
  "channel_new = \<lparr>in_pipe = [], wrote = [], reader = Reading []\<rparr>"

definition supervision_new :: "action list \<Rightarrow> string \<Rightarrow> supervision" where
  "supervision_new script input =
     \<lparr>sv_script = script, sv_ended = None, sv_stage = Feeding, sv_unsent = input, sv_stdin = [], sv_out = channel_new,
      sv_err = channel_new, sv_notified = False, sv_clock = 0\<rparr>"

subsection \<open>Steps\<close>

definition SIGPIPE :: i32 where "SIGPIPE = 13"
definition SIGKILL :: i32 where "SIGKILL = 9"

definition child_ends :: "exit_status \<Rightarrow> supervision \<Rightarrow> supervision" where
  "child_ends st s = s\<lparr>sv_ended := (case sv_ended s of None \<Rightarrow> Some st | ended \<Rightarrow> ended)\<rparr>"

text \<open>A write fails when the reader is gone and waits when the pipe is full.\<close>

definition channel_write :: "nat \<Rightarrow> char \<Rightarrow> channel \<Rightarrow> (unit + channel) option" where
  "channel_write cap c ch =
     (case reader ch of
        ReadDone _ \<Rightarrow> Some (Inl ())
      | Reading _ \<Rightarrow>
          if length (in_pipe ch) < cap then Some (Inr (ch\<lparr>in_pipe := in_pipe ch @ [c], wrote := wrote ch @ [c]\<rparr>)) else None)"

fun child_act :: "nat \<Rightarrow> action \<Rightarrow> supervision \<Rightarrow> supervision option" where
  "child_act cap ReadIn s =
     (case sv_stdin s of
        c # rest \<Rightarrow> Some (s\<lparr>sv_stdin := rest\<rparr>)
      | [] \<Rightarrow> if sv_stage s = Feeding then None else Some s)"
| "child_act cap (WriteOut c) s =
     (case channel_write cap c (sv_out s) of
        None \<Rightarrow> None
      | Some (Inl _) \<Rightarrow> Some (child_ends (ExitSignal SIGPIPE) s)
      | Some (Inr ch) \<Rightarrow> Some (s\<lparr>sv_out := ch\<rparr>))"
| "child_act cap (WriteErr c) s =
     (case channel_write cap c (sv_err s) of
        None \<Rightarrow> None
      | Some (Inl _) \<Rightarrow> Some (child_ends (ExitSignal SIGPIPE) s)
      | Some (Inr ch) \<Rightarrow> Some (s\<lparr>sv_err := ch\<rparr>))"
| "child_act cap (ExitWith st) s = Some (child_ends st s)"

definition child_move :: "nat \<Rightarrow> supervision \<Rightarrow> supervision option" where
  "child_move cap s =
     (case (sv_ended s, sv_script s) of
        (None, a # rest) \<Rightarrow> child_act cap a (s\<lparr>sv_script := rest\<rparr>)
      | _ \<Rightarrow> None)"

text \<open>\<open>write_all\<close>; a program that has ended breaks the pipe, which is ignored.  The wall clock starts afterwards.\<close>

definition start_watching :: "nat \<Rightarrow> supervision \<Rightarrow> supervision" where
  "start_watching wall s = s\<lparr>sv_stage := Watching (sv_clock s + wall)\<rparr>"

definition feed_move :: "nat \<Rightarrow> nat \<Rightarrow> supervision \<Rightarrow> supervision option" where
  "feed_move wall cap s =
     (if sv_stage s \<noteq> Feeding then None
      else
        (case sv_unsent s of
           [] \<Rightarrow> Some (start_watching wall s)
         | c # rest \<Rightarrow>
             if sv_ended s \<noteq> None then Some (start_watching wall s)
             else if length (sv_stdin s) < cap then Some (s\<lparr>sv_unsent := rest, sv_stdin := sv_stdin s @ [c]\<rparr>)
             else None))"

text \<open>A reader: \<open>read_to_string\<close> on \<open>take(output_limit + 1)\<close>, up to the end of the output if that comes first.\<close>

definition reader_result :: "string \<Rightarrow> string + string" where
  "reader_result buf = (if utf8_ok buf then Inr buf else Inl UTF8_ERROR)"

definition read_move :: "u64 \<Rightarrow> bool \<Rightarrow> channel \<Rightarrow> channel option" where
  "read_move quota at_end ch =
     (case reader ch of
        ReadDone _ \<Rightarrow> None
      | Reading buf \<Rightarrow>
          if length buf = unat (quota + 1) then Some (ch\<lparr>reader := ReadDone (reader_result buf)\<rparr>)
          else
            (case in_pipe ch of
               c # rest \<Rightarrow> Some (ch\<lparr>in_pipe := rest, reader := Reading (buf @ [c])\<rparr>)
             | [] \<Rightarrow> if at_end then Some (ch\<lparr>reader := ReadDone (reader_result buf)\<rparr>) else None))"

text \<open>The reader notifies when its text is longer than the limit.\<close>

definition exceeds :: "u64 \<Rightarrow> channel \<Rightarrow> bool" where
  "exceeds quota ch = (case reader ch of ReadDone (Inr buf) \<Rightarrow> over_limit quota buf | _ \<Rightarrow> False)"

inductive supervise :: "u64 \<Rightarrow> nat \<Rightarrow> nat \<Rightarrow> supervision \<Rightarrow> supervision \<Rightarrow> bool" for quota wall cap where
  sv_child: "child_move cap s = Some t \<Longrightarrow> supervise quota wall cap s t"
| sv_feed: "feed_move wall cap s = Some t \<Longrightarrow> supervise quota wall cap s t"
| sv_read_out: "sv_stage s \<noteq> Feeding \<Longrightarrow> read_move quota (sv_ended s \<noteq> None) (sv_out s) = Some ch \<Longrightarrow>
    supervise quota wall cap s (s\<lparr>sv_out := ch, sv_notified := sv_notified s \<or> exceeds quota ch\<rparr>)"
| sv_read_err: "sv_stage s \<noteq> Feeding \<Longrightarrow> read_move quota (sv_ended s \<noteq> None) (sv_err s) = Some ch \<Longrightarrow>
    supervise quota wall cap s (s\<lparr>sv_err := ch, sv_notified := sv_notified s \<or> exceeds quota ch\<rparr>)"
| sv_exited: "sv_stage s = Watching deadline \<Longrightarrow> sv_ended s = Some st \<Longrightarrow>
    supervise quota wall cap s (s\<lparr>sv_stage := Settled (Exited st)\<rparr>)"
| sv_exceeded: "sv_stage s = Watching deadline \<Longrightarrow> sv_notified s \<Longrightarrow>
    supervise quota wall cap s (child_ends (ExitSignal SIGKILL) (s\<lparr>sv_stage := Settled OutputExceeded\<rparr>))"
| sv_timeout: "sv_stage s = Watching deadline \<Longrightarrow> deadline \<le> sv_clock s \<Longrightarrow>
    supervise quota wall cap s (child_ends (ExitSignal SIGKILL) (s\<lparr>sv_stage := Settled WallTimeout\<rparr>))"

text \<open>The same with the clock.\<close>

inductive supervise_timed :: "u64 \<Rightarrow> nat \<Rightarrow> nat \<Rightarrow> supervision \<Rightarrow> supervision \<Rightarrow> bool" for quota wall cap where
  sv_move: "supervise quota wall cap s t \<Longrightarrow> supervise_timed quota wall cap s t"
| sv_tick: "supervise_timed quota wall cap s (s\<lparr>sv_clock := sv_clock s + 1\<rparr>)"

definition supervised :: "supervision \<Rightarrow> bool" where
  "supervised s \<longleftrightarrow> (\<exists>outcome. sv_stage s = Settled outcome) \<and> (\<exists>o'. reader (sv_out s) = ReadDone o') \<and> (\<exists>e. reader (sv_err s) = ReadDone e)"

text \<open>What \<open>Cpp_Judge\<close> calls the run of the program.\<close>

definition observed :: "program_run \<Rightarrow> supervision \<Rightarrow> program_run" where
  "observed run s =
     run\<lparr>stdin_result := (if sv_unsent s = [] then StdinWritten else StdinBrokenPipe),
         child_outcome := (case sv_stage s of Settled outcome \<Rightarrow> outcome | _ \<Rightarrow> child_outcome run),
         stdout_bytes := wrote (sv_out s), stderr_bytes := wrote (sv_err s)\<rparr>"

subsection \<open>What the readers read\<close>

definition channel_ok :: "u64 \<Rightarrow> channel \<Rightarrow> bool" where
  "channel_ok quota ch \<longleftrightarrow>
     (case reader ch of
        Reading buf \<Rightarrow> wrote ch = buf @ in_pipe ch \<and> length buf \<le> unat (quota + 1)
      | ReadDone result \<Rightarrow> result = read_capped quota (wrote ch))"

lemma channel_ok_new: "channel_ok quota channel_new"
  by (simp add: channel_ok_def channel_new_def)

lemma channel_ok_write: "channel_ok quota ch \<Longrightarrow> channel_write cap c ch = Some (Inr ch') \<Longrightarrow> channel_ok quota ch'"
  by (auto simp: channel_ok_def channel_write_def split: reader.splits if_splits)

lemma channel_ok_read: "channel_ok quota ch \<Longrightarrow> read_move quota at_end ch = Some ch' \<Longrightarrow> channel_ok quota ch'"
  by (auto simp: channel_ok_def read_move_def reader_result_def read_capped_def Let_def split: reader.splits if_splits list.splits)

fun outcome_ok :: "child_outcome \<Rightarrow> exit_status option \<Rightarrow> bool \<Rightarrow> bool" where
  "outcome_ok (Exited st) ended told \<longleftrightarrow> ended = Some st"
| "outcome_ok OutputExceeded ended told \<longleftrightarrow> ended \<noteq> None \<and> told"
| "outcome_ok WallTimeout ended told \<longleftrightarrow> ended \<noteq> None"
| "outcome_ok (OutcomeFailed e) ended told \<longleftrightarrow> False"

lemma outcome_ok_ended [simp]: "\<not> outcome_ok outcome None told"
  by (cases outcome) simp_all

lemma outcome_ok_told: "outcome_ok outcome ended told \<Longrightarrow> outcome_ok outcome ended (told \<or> new)"
  by (cases outcome) simp_all

definition sv_inv :: "u64 \<Rightarrow> nat \<Rightarrow> supervision \<Rightarrow> bool" where
  "sv_inv quota fed s \<longleftrightarrow>
     channel_ok quota (sv_out s) \<and> channel_ok quota (sv_err s) \<and>
     (sv_notified s \<longrightarrow> exceeds quota (sv_out s) \<or> exceeds quota (sv_err s)) \<and>
     (sv_stage s = Feeding \<longrightarrow> length (sv_stdin s) + length (sv_unsent s) \<le> fed) \<and>
     (\<forall>outcome. sv_stage s = Settled outcome \<longrightarrow> outcome_ok outcome (sv_ended s) (sv_notified s))"

lemma exceeds_write: "exceeds quota ch \<Longrightarrow> channel_write cap c ch = Some (Inr ch') \<Longrightarrow> exceeds quota ch'"
  by (auto simp: exceeds_def channel_write_def split: reader.splits if_splits)

lemma exceeds_read: "exceeds quota ch \<Longrightarrow> read_move quota at_end ch = Some ch' \<Longrightarrow> False"
  by (auto simp: exceeds_def read_move_def split: reader.splits)

lemma child_act_frame:
  assumes "child_act cap a s = Some t"
  shows "sv_stage t = sv_stage s \<and> sv_notified t = sv_notified s \<and> sv_unsent t = sv_unsent s \<and> length (sv_stdin t) \<le> length (sv_stdin s) \<and>
    (sv_out t = sv_out s \<or> (\<exists>c. channel_write cap c (sv_out s) = Some (Inr (sv_out t)))) \<and>
    (sv_err t = sv_err s \<or> (\<exists>c. channel_write cap c (sv_err s) = Some (Inr (sv_err t))))"
  using assms by (cases a) (auto simp: child_ends_def split: option.splits list.splits sum.splits if_splits)

lemma child_move_inv:
  assumes "sv_inv quota fed s" and "child_move cap s = Some t"
  shows "sv_inv quota fed t"
proof -
  from assms(2) obtain a rest where a: "sv_ended s = None" "child_act cap a (s\<lparr>sv_script := rest\<rparr>) = Some t"
    by (auto simp: child_move_def split: option.splits list.splits)
  from assms(1) a(1) have "\<forall>outcome. sv_stage s \<noteq> Settled outcome"
    by (auto simp: sv_inv_def)
  note running = this and frame = child_act_frame [OF a(2), simplified]
  have "channel_ok quota (sv_out t)" "channel_ok quota (sv_err t)"
    using assms(1) frame by (auto simp: sv_inv_def dest: channel_ok_write)
  moreover have "sv_notified t \<longrightarrow> exceeds quota (sv_out t) \<or> exceeds quota (sv_err t)"
    using assms(1) frame by (auto simp: sv_inv_def dest: exceeds_write)
  moreover have "sv_stage t = Feeding \<longrightarrow> length (sv_stdin t) + length (sv_unsent t) \<le> fed"
    using assms(1) frame by (auto simp: sv_inv_def)
  ultimately show ?thesis using running frame by (simp add: sv_inv_def)
qed

lemma feed_move_inv: "sv_inv quota fed s \<Longrightarrow> feed_move wall cap s = Some t \<Longrightarrow> sv_inv quota fed t"
  by (auto simp: sv_inv_def feed_move_def start_watching_def split: list.splits if_splits)

lemma supervise_inv:
  assumes "supervise_timed quota wall cap s t" and "sv_inv quota fed s"
  shows "sv_inv quota fed t"
  using assms(1)
proof cases
  case sv_move
  then show ?thesis
  proof cases
    case sv_child
    then show ?thesis using assms(2) by (rule child_move_inv [rotated])
  next
    case sv_feed
    then show ?thesis using assms(2) by (rule feed_move_inv [rotated])
  next
    case (sv_read_out ch)
    with assms(2) show ?thesis
      by (auto simp: sv_inv_def dest: channel_ok_read exceeds_read outcome_ok_told)
  next
    case (sv_read_err ch)
    with assms(2) show ?thesis
      by (auto simp: sv_inv_def dest: channel_ok_read exceeds_read outcome_ok_told)
  qed (use assms(2) in \<open>auto simp: sv_inv_def child_ends_def split: option.splits\<close>)
next
  case sv_tick
  with assms(2) show ?thesis by (auto simp: sv_inv_def)
qed

interpretation supervision: inductive_invariant "supervision_new script input" "supervise_timed quota wall cap" "\<lambda>_. True"
    "sv_inv quota (length input)" for script input quota wall cap
proof unfold_locales
  show "sv_inv quota (length input) (supervision_new script input)"
    by (simp add: sv_inv_def supervision_new_def channel_ok_new)
qed (use supervise_inv in auto)

subsection \<open>Progress\<close>

text \<open>What is left to do, apart from waiting.\<close>

fun channel_work :: "channel \<Rightarrow> nat" where
  "channel_work ch = length (in_pipe ch) + (case reader ch of Reading _ \<Rightarrow> 1 | ReadDone _ \<Rightarrow> 0)"

fun stage_work :: "supervision_stage \<Rightarrow> nat" where
  "stage_work Feeding = 2"
| "stage_work (Watching _) = 1"
| "stage_work (Settled _) = 0"

definition work :: "supervision \<Rightarrow> nat" where
  "work s =
     2 * length (sv_script s) + (if sv_ended s = None then 1 else 0) + length (sv_unsent s) + stage_work (sv_stage s) +
     channel_work (sv_out s) + channel_work (sv_err s)"

lemma channel_write_work: "channel_write cap c ch = Some (Inr ch') \<Longrightarrow> channel_work ch' = channel_work ch + 1"
  by (auto simp: channel_write_def split: reader.splits if_splits)

lemma read_move_work: "read_move quota at_end ch = Some ch' \<Longrightarrow> channel_work ch' < channel_work ch"
  by (auto simp: read_move_def split: reader.splits if_splits list.splits)

lemma child_act_work: "child_act cap a s = Some t \<Longrightarrow> sv_ended s = None \<Longrightarrow> work t \<le> work s + 1"
  by (cases a)
    (auto simp: work_def child_ends_def simp del: channel_work.simps dest: channel_write_work split: option.splits list.splits sum.splits if_splits)

lemma supervise_work:
  assumes "supervise quota wall cap s t"
  shows "work t < work s"
  using assms
proof cases
  case sv_child
  then obtain a rest where "sv_ended s = None" "sv_script s = a # rest" "child_act cap a (s\<lparr>sv_script := rest\<rparr>) = Some t"
    by (auto simp: child_move_def split: option.splits list.splits)
  with child_act_work [of cap a "s\<lparr>sv_script := rest\<rparr>" t] show ?thesis by (simp add: work_def)
next
  case sv_feed
  then show ?thesis by (auto simp: work_def feed_move_def start_watching_def split: list.splits if_splits)
next
  case (sv_read_out ch)
  then show ?thesis using read_move_work by (fastforce simp: work_def simp del: channel_work.simps)
next
  case (sv_read_err ch)
  then show ?thesis using read_move_work by (fastforce simp: work_def simp del: channel_work.simps)
qed (auto simp: work_def child_ends_def split: option.splits)

lemma at_end_reader_moves: "read_move quota True ch = None \<Longrightarrow> \<exists>r. reader ch = ReadDone r"
  by (cases "reader ch") (auto simp: read_move_def split: if_splits list.splits)

text \<open>A judge that cannot move has finished, waits for the wall clock, or still writes the input into a full pipe.\<close>

lemma stuck_cases:
  assumes "sv_inv quota fed s" and "\<And>t. \<not> supervise quota wall cap s t"
  shows "supervised s \<or> (\<exists>deadline. sv_stage s = Watching deadline \<and> sv_clock s < deadline) \<or>
    sv_stage s = Feeding \<and> sv_unsent s \<noteq> [] \<and> cap \<le> length (sv_stdin s)"
proof (cases "sv_stage s")
  case Feeding
  have "feed_move wall cap s \<noteq> Some t" for t using assms(2) supervise.sv_feed by blast
  then have "feed_move wall cap s = None" by auto
  with Feeding show ?thesis by (auto simp: feed_move_def not_less split: list.splits if_splits)
next
  case (Watching deadline)
  then have "\<not> deadline \<le> sv_clock s" using assms(2) supervise.sv_timeout by blast
  with Watching show ?thesis by auto
next
  case (Settled outcome)
  then have ended: "sv_ended s \<noteq> None" and watched: "sv_stage s \<noteq> Feeding"
    using assms(1) by (cases "sv_ended s"; auto simp: sv_inv_def)+
  have "read_move quota True (sv_out s) \<noteq> Some ch" "read_move quota True (sv_err s) \<noteq> Some ch" for ch
    using assms(2) supervise.sv_read_out [OF watched, of quota ch wall cap] supervise.sv_read_err [OF watched, of quota ch wall cap] ended by auto
  then have "read_move quota True (sv_out s) = None" "read_move quota True (sv_err s) = None" by auto
  from this [THEN at_end_reader_moves] Settled show ?thesis by (simp add: supervised_def)
qed

text \<open>While the input fits into the pipe the judge never waits for the program to read it.\<close>

lemma fits_never_stuck:
  assumes "sv_inv quota (length input) s" and "length input \<le> cap" and "\<And>t. \<not> supervise quota wall cap s t"
  shows "supervised s \<or> (\<exists>deadline. sv_stage s = Watching deadline \<and> sv_clock s < deadline)"
  using stuck_cases [OF assms(1,3)] assms(1,2) by (cases "sv_unsent s") (auto simp: sv_inv_def)

lemma supervise_bounded: "(supervise quota wall cap ^^ n) s t \<Longrightarrow> n + work t \<le> work s"
proof (induction n arbitrary: t)
  case (Suc n)
  then obtain u where "(supervise quota wall cap ^^ n) s u" "supervise quota wall cap u t" by auto
  with Suc.IH [of u] supervise_work [of quota wall cap u t] show ?case by simp
qed simp

lemma supervise_reach: "reach init (supervise_timed quota wall cap) s \<Longrightarrow> (supervise quota wall cap)\<^sup>*\<^sup>* s t \<Longrightarrow>
    reach init (supervise_timed quota wall cap) t"
  by (rotate_tac, induction rule: rtranclp_induct) (auto intro: reach_step sv_move)

lemma reach_move: "reach init (supervise_timed quota wall cap) s \<Longrightarrow> supervise quota wall cap s t \<Longrightarrow> reach init (supervise_timed quota wall cap) t"
  by (rule reach_step) (auto intro: sv_move)

lemma reach_child: "reach init (supervise_timed quota wall cap) s \<Longrightarrow> child_move cap s = Some t \<Longrightarrow> reach init (supervise_timed quota wall cap) t"
  by (rule reach_move) (auto intro: sv_child)

lemma reach_feed: "reach init (supervise_timed quota wall cap) s \<Longrightarrow> feed_move wall cap s = Some t \<Longrightarrow> reach init (supervise_timed quota wall cap) t"
  by (rule reach_move) (auto intro: sv_feed)

subsection \<open>A program that prints before it reads\<close>

definition blocked :: "nat \<Rightarrow> supervision \<Rightarrow> bool" where
  "blocked cap s \<longleftrightarrow>
     sv_stage s = Feeding \<and> sv_ended s = None \<and> sv_unsent s \<noteq> [] \<and> cap \<le> length (sv_stdin s) \<and>
     (\<exists>c rest. sv_script s = WriteOut c # rest) \<and> (\<exists>buf. reader (sv_out s) = Reading buf) \<and> cap \<le> length (in_pipe (sv_out s))"

lemma blocked_stays:
  assumes "blocked cap s" and "supervise_timed quota wall cap s t"
  shows "blocked cap t"
  using assms(2)
proof cases
  case sv_move
  then show ?thesis
    by cases (use assms(1) in \<open>auto simp: blocked_def child_move_def channel_write_def feed_move_def split: list.splits\<close>)
qed (use assms(1) in \<open>auto simp: blocked_def\<close>)

lemma blocked_reach: "reach s (supervise_timed quota wall cap) t \<Longrightarrow> blocked cap s \<Longrightarrow> blocked cap t"
  by (induction rule: reach.induct) (auto intro: blocked_stays)

text \<open>The program fills its output pipe, then the judge the input pipe.\<close>

definition printing :: "action list \<Rightarrow> string \<Rightarrow> string \<Rightarrow> string \<Rightarrow> supervision" where
  "printing script printed sent unsent =
     (supervision_new script unsent)\<lparr>sv_stdin := sent, sv_out := \<lparr>in_pipe = printed, wrote = printed, reader = Reading []\<rparr>\<rparr>"

lemma printing_fills:
  "reach init (supervise_timed quota wall cap) (printing (replicate k (WriteOut c) @ script) printed sent unsent) \<Longrightarrow>
     length printed + k \<le> cap \<Longrightarrow> reach init (supervise_timed quota wall cap) (printing script (printed @ replicate k c) sent unsent)"
proof (induction k arbitrary: printed)
  case (Suc k)
  have "child_move cap (printing (replicate (Suc k) (WriteOut c) @ script) printed sent unsent) =
      Some (printing (replicate k (WriteOut c) @ script) (printed @ [c]) sent unsent)"
    using Suc.prems(2) by (simp add: child_move_def printing_def supervision_new_def channel_write_def)
  with Suc.prems(1) have "reach init (supervise_timed quota wall cap) (printing (replicate k (WriteOut c) @ script) (printed @ [c]) sent unsent)"
    by (rule reach_child)
  from Suc.IH [OF this] Suc.prems(2) show ?case by simp
qed simp

lemma feeding_fills:
  "reach init (supervise_timed quota wall cap) (printing script printed sent (extra @ unsent)) \<Longrightarrow> length sent + length extra \<le> cap \<Longrightarrow>
     reach init (supervise_timed quota wall cap) (printing script printed (sent @ extra) unsent)"
proof (induction extra arbitrary: sent)
  case (Cons c extra)
  have "feed_move wall cap (printing script printed sent ((c # extra) @ unsent)) = Some (printing script printed (sent @ [c]) (extra @ unsent))"
    using Cons.prems(2) by (simp add: feed_move_def printing_def supervision_new_def)
  with Cons.prems(1) have "reach init (supervise_timed quota wall cap) (printing script printed (sent @ [c]) (extra @ unsent))"
    by (rule reach_feed)
  from Cons.IH [OF this] Cons.prems(2) show ?case by simp
qed simp

subsection \<open>Properties\<close>

text \<open>C20. The supervision delivers what the judge's verdict is computed from: when it is over, each reader holds the
  program's output cut at the limit (or failed on it), in whatever pieces it was written and read; an outcome of
  an exit is the program's own, one of too much output is true of what it wrote, and no other error arises.  So a
  program whose case is accepted ended by itself with code 0 and wrote exactly the expected output (for any output
  limit but the largest \<open>u64\<close>).\<close>
theorem supervision_delivers:
  assumes "reach (supervision_new script input) (supervise_timed quota wall cap) s" and "supervised s"
  shows "reader (sv_out s) = ReadDone (read_capped quota (wrote (sv_out s))) \<and>
    reader (sv_err s) = ReadDone (read_capped quota (wrote (sv_err s))) \<and>
    (sv_stage s = Settled WallTimeout \<or>
     (\<exists>st. sv_stage s = Settled (Exited st) \<and> sv_ended s = Some st) \<or>
     sv_stage s = Settled OutputExceeded \<and> (over_limit quota (wrote (sv_out s)) \<or> over_limit quota (wrote (sv_err s)))) \<and>
    (quota \<noteq> - 1 \<longrightarrow> limit_output_bytes limit = quota \<longrightarrow> cpp_verdict (observed run s) c limit i = Finished (Inr (Accepted u)) \<longrightarrow>
       wrote (sv_out s) = case_output c \<and> sv_ended s = Some (ExitCode 0))"
proof -
  have inv: "sv_inv quota (length input) s" using supervision.inv_reach [OF assms(1)] .
  have over: "over_limit quota (wrote ch)" if "exceeds quota ch" "channel_ok quota ch" for ch
    using that by (auto simp: exceeds_def channel_ok_def read_capped_def over_limit_def Let_def split: reader.splits sum.splits if_splits)
  have read: "reader (sv_out s) = ReadDone (read_capped quota (wrote (sv_out s)))" "reader (sv_err s) = ReadDone (read_capped quota (wrote (sv_err s)))"
    using inv assms(2) by (auto simp: sv_inv_def supervised_def channel_ok_def)
  from assms(2) obtain outcome where settled: "sv_stage s = Settled outcome" by (auto simp: supervised_def)
  have told: "sv_notified s \<Longrightarrow> over_limit quota (wrote (sv_out s)) \<or> over_limit quota (wrote (sv_err s))"
    using inv over by (auto simp: sv_inv_def)
  have "outcome_ok outcome (sv_ended s) (sv_notified s)" using inv settled by (simp add: sv_inv_def)
  note end_ok = this
  have "wrote (sv_out s) = case_output c \<and> sv_ended s = Some (ExitCode 0)"
    if "quota \<noteq> - 1" "limit_output_bytes limit = quota" "cpp_verdict (observed run s) c limit i = Finished (Inr (Accepted u))"
    using cpp_verdict_accepted [of "\<lambda>_. observed run s" i c limit u] that end_ok settled by (simp add: cpp_passes_def observed_def)
  with read settled told end_ok show ?thesis by (cases outcome) auto
qed

text \<open>C21. The supervision ends: judge, readers and program can make only as many steps as there is work left, and when
  none of them can go on, all is over or the wall clock is still to come; it kills the program.  The input must fit
  into the pipe, see the next property.\<close>
theorem supervision_ends:
  assumes "reach (supervision_new script input) (supervise_timed quota wall cap) s" and "length input \<le> cap"
  shows "((supervise quota wall cap ^^ n) s t \<longrightarrow> n \<le> work s) \<and>
    ((supervise quota wall cap)\<^sup>*\<^sup>* s t \<longrightarrow> (\<forall>u. \<not> supervise quota wall cap t u) \<longrightarrow>
       supervised t \<or> (\<exists>deadline. sv_stage t = Watching deadline \<and> sv_clock t < deadline))"
proof (intro conjI impI)
  show "n \<le> work s" if "(supervise quota wall cap ^^ n) s t" using supervise_bounded [OF that] by simp
next
  assume "(supervise quota wall cap)\<^sup>*\<^sup>* s t" and stuck: "\<forall>u. \<not> supervise quota wall cap t u"
  from supervision.inv_reach [OF supervise_reach [OF assms(1) this(1)]] have "sv_inv quota (length input) t" .
  from fits_never_stuck [OF this assms(2)] stuck
  show "supervised t \<or> (\<exists>deadline. sv_stage t = Watching deadline \<and> sv_clock t < deadline)" by blast
qed

text \<open>C39. A program that prints more than a pipe holds before it reads, given an input larger than a pipe, blocks the
  judge for ever: the readers and the wall clock are only started after the whole input was written, so in the
  state reached nothing happens any more, however much time passes.\<close>
theorem early_output_blocks_judge:
  assumes "cap < length input"
  shows "\<exists>s. reach (supervision_new (replicate cap (WriteOut c) @ WriteOut c # script) input) (supervise_timed quota wall cap) s \<and>
    (\<forall>t. reach s (supervise_timed quota wall cap) t \<longrightarrow> sv_stage t = Feeding \<and> sv_ended t = None)"
proof -
  let ?R = "supervise_timed quota wall cap"
  define init where "init = supervision_new (replicate cap (WriteOut c) @ WriteOut c # script) input"
  have start: "init = printing (replicate cap (WriteOut c) @ WriteOut c # script) [] [] (take cap input @ drop cap input)"
    by (simp add: init_def printing_def supervision_new_def channel_new_def)
  have "reach init ?R (printing (replicate cap (WriteOut c) @ WriteOut c # script) [] [] (take cap input @ drop cap input))"
    unfolding start [symmetric] by (rule reach_init)
  from feeding_fills [OF printing_fills [OF this]] assms
  have "reach init ?R (printing (WriteOut c # script) (replicate cap c) (take cap input) (drop cap input))" by simp
  moreover have "blocked cap (printing (WriteOut c # script) (replicate cap c) (take cap input) (drop cap input))"
    using assms by (simp add: blocked_def printing_def supervision_new_def)
  ultimately show ?thesis using blocked_reach unfolding init_def by (meson blocked_def)
qed

subsection \<open>Witnesses\<close>

definition demo_supervision :: "action list \<Rightarrow> exit_status option \<Rightarrow> supervision_stage \<Rightarrow> channel \<Rightarrow> channel \<Rightarrow> supervision" where
  "demo_supervision script ended stage out err =
     \<lparr>sv_script = script, sv_ended = ended, sv_stage = stage, sv_unsent = [], sv_stdin = [], sv_out = out, sv_err = err,
      sv_notified = False, sv_clock = 0\<rparr>"

definition demo_channel :: "string \<Rightarrow> string \<Rightarrow> reader \<Rightarrow> channel" where
  "demo_channel held written r = \<lparr>in_pipe = held, wrote = written, reader = r\<rparr>"

lemmas demo_supervision_defs = demo_supervision_def demo_channel_def

lemma demo_supervision_run:
  "reach (supervision_new [WriteOut (CHR ''x''), ExitWith (ExitCode 0)] []) (supervise_timed 10 5 4)
     (demo_supervision [] (Some (ExitCode 0)) (Settled (Exited (ExitCode 0))) (demo_channel [] ''x'' (ReadDone (Inr ''x'')))
        (demo_channel [] [] (ReadDone (Inr []))))" (is "reach ?init ?R _")
proof -
  let ?st = "Some (ExitCode 0)"
  have "reach ?init ?R (demo_supervision [WriteOut (CHR ''x''), ExitWith (ExitCode 0)] None Feeding (demo_channel [] [] (Reading [])) (demo_channel [] [] (Reading [])))"
    by (simp add: demo_supervision_defs supervision_new_def channel_new_def reach_init)
  then have "reach ?init ?R (demo_supervision [ExitWith (ExitCode 0)] None Feeding (demo_channel ''x'' ''x'' (Reading [])) (demo_channel [] [] (Reading [])))"
    by (rule reach_child) (simp add: demo_supervision_defs child_move_def channel_write_def)
  then have "reach ?init ?R (demo_supervision [] ?st Feeding (demo_channel ''x'' ''x'' (Reading [])) (demo_channel [] [] (Reading [])))"
    by (rule reach_child) (simp add: demo_supervision_defs child_move_def child_ends_def)
  then have "reach ?init ?R (demo_supervision [] ?st (Watching 5) (demo_channel ''x'' ''x'' (Reading [])) (demo_channel [] [] (Reading [])))"
    by (rule reach_feed) (simp add: demo_supervision_defs feed_move_def start_watching_def)
  then have "reach ?init ?R (demo_supervision [] ?st (Settled (Exited (ExitCode 0))) (demo_channel ''x'' ''x'' (Reading [])) (demo_channel [] [] (Reading [])))"
    by (rule reach_move) (use sv_exited [of "demo_supervision [] ?st (Watching 5) (demo_channel ''x'' ''x'' (Reading [])) (demo_channel [] [] (Reading []))" 5
      "ExitCode 0"] in \<open>simp add: demo_supervision_defs\<close>)
  then have "reach ?init ?R (demo_supervision [] ?st (Settled (Exited (ExitCode 0))) (demo_channel [] ''x'' (Reading ''x'')) (demo_channel [] [] (Reading [])))"
    by (rule reach_move) (use sv_read_out [of "demo_supervision [] ?st (Settled (Exited (ExitCode 0))) (demo_channel ''x'' ''x'' (Reading []))
      (demo_channel [] [] (Reading []))" 10 "demo_channel [] ''x'' (Reading ''x'')"] in \<open>simp add: demo_supervision_defs read_move_def exceeds_def\<close>)
  then have "reach ?init ?R (demo_supervision [] ?st (Settled (Exited (ExitCode 0))) (demo_channel [] ''x'' (ReadDone (Inr ''x''))) (demo_channel [] [] (Reading [])))"
    by (rule reach_move) (use sv_read_out [of "demo_supervision [] ?st (Settled (Exited (ExitCode 0))) (demo_channel [] ''x'' (Reading ''x''))
      (demo_channel [] [] (Reading []))" 10 "demo_channel [] ''x'' (ReadDone (Inr ''x''))"] in
      \<open>simp add: demo_supervision_defs read_move_def exceeds_def reader_result_def utf8_ok_def over_limit_def\<close>)
  then show ?thesis
    by (rule reach_move) (use sv_read_err [of "demo_supervision [] ?st (Settled (Exited (ExitCode 0))) (demo_channel [] ''x'' (ReadDone (Inr ''x'')))
      (demo_channel [] [] (Reading []))" 10 "demo_channel [] [] (ReadDone (Inr []))"] in
      \<open>simp add: demo_supervision_defs read_move_def exceeds_def reader_result_def utf8_ok_def over_limit_def\<close>)
qed

theorem supervision_delivers_witness:
  "\<exists>s. reach (supervision_new [WriteOut (CHR ''x''), ExitWith (ExitCode 0)] []) (supervise_timed 10 5 4) s \<and> supervised s \<and>
     reader (sv_out s) = ReadDone (read_capped 10 ''x'')"
proof -
  have over: "supervised (demo_supervision [] (Some (ExitCode 0)) (Settled (Exited (ExitCode 0))) (demo_channel [] ''x'' (ReadDone (Inr ''x'')))
      (demo_channel [] [] (ReadDone (Inr []))))" by (simp add: demo_supervision_defs supervised_def)
  from supervision_delivers [OF demo_supervision_run this] demo_supervision_run over show ?thesis
    by (intro exI conjI) (assumption, assumption, simp add: demo_supervision_defs)
qed

theorem supervision_ends_witness:
  "\<forall>t. \<not> (supervise 10 5 4 ^^ 100) (supervision_new [ExitWith (ExitCode 0)] ''ab'') t"
proof
  fix t
  have "work (supervision_new [ExitWith (ExitCode 0)] ''ab'') < 100" by (simp add: work_def supervision_new_def channel_new_def)
  with supervision_ends [OF reach_init, where script = "[ExitWith (ExitCode 0)]" and input = "''ab''" and cap = 4 and quota = 10 and wall = 5
      and n = 100 and t = t]
  show "\<not> (supervise 10 5 4 ^^ 100) (supervision_new [ExitWith (ExitCode 0)] ''ab'') t" by auto
qed

theorem early_output_blocks_judge_witness:
  "\<exists>s. reach (supervision_new [WriteOut (CHR ''x''), WriteOut (CHR ''x'')] ''ab'') (supervise_timed 10 5 1) s \<and> sv_stage s = Feeding"
  using early_output_blocks_judge [of 1 "''ab''" "CHR ''x''" "[]" 10 5] by (auto intro: reach_init)

end
