(* ===== verification/Processor.thy ===== *)
theory Processor
  imports Submissions "HOL-Library.Sublist"
begin

text \<open>
  The loop of the processor's \<open>main\<close> (\<open>submission_processor/src/main.rs\<close>) over the deliveries it gets: a session from
  the first delivery to the closing of the connection, in terms of the queue and the turns of \<open>Submissions\<close>.
\<close>

subsection \<open>A session of the processor\<close>

text \<open>The loop of \<open>main\<close>, by what \<open>select!\<close> yields: a delivery (with the database, the judge and the fate of the
  acknowledgement at that time), an error of the consumer, the end of its stream, or the interrupt.  The interrupt is
  looked at between two messages only.  The second result says whether the loop was left.\<close>

datatype consumer_event =
    Delivered db_env "verdict_task \<Rightarrow> sdk_error + verdict_task_result" bool
  | ConsumerError
  | StreamEnded
  | CtrlC

fun consumer_loop :: "auth_lib \<Rightarrow> verdict_codec \<Rightarrow> consumer_event list \<Rightarrow> world \<Rightarrow> world \<times> bool" where
  "consumer_loop lib vc [] w = (w, False)"
| "consumer_loop lib vc (Delivered env judge ack_sent # evs) w =
     consumer_loop lib vc evs (consume lib env vc judge ack_sent w)"
| "consumer_loop lib vc (ConsumerError # evs) w = consumer_loop lib vc evs w"
| "consumer_loop lib vc (StreamEnded # evs) w = (w, True)"
| "consumer_loop lib vc (CtrlC # evs) w = (w, True)"

text \<open>After the loop the connection is closed.\<close>

definition processor_session :: "auth_lib \<Rightarrow> verdict_codec \<Rightarrow> consumer_event list \<Rightarrow> world \<Rightarrow> world" where
  "processor_session lib vc evs w = (case consumer_loop lib vc evs w of (t, left) \<Rightarrow> if left then reconnect t else t)"

text \<open>A message that may be acknowledged: it cannot be read, or the id in it is none, or its submission is completed.\<close>

definition settled :: "auth_lib \<Rightarrow> world \<Rightarrow> json_object \<Rightarrow> bool" where
  "settled lib w m \<longleftrightarrow>
     (case submit_message_of m of
        None \<Rightarrow> True
      | Some (sid, _) \<Rightarrow> (case uuid_parse lib sid of None \<Rightarrow> True | Some u \<Rightarrow> completed u (rows_of w)))"

lemma completed_consume: "completed u (rows_of w) \<Longrightarrow> completed u (rows_of (consume lib env vc judge ack_sent w))"
proof (cases "ready w")
  case (Cons m ms)
  obtain r acked d where p: "process_message lib env vc judge m (world_db w) = ((r, acked), d)" by (metis surj_pair)
  assume "completed u (rows_of w)"
  from process_message_rows [OF p this] show ?thesis using Cons p by (simp add: consume_def)
qed (simp add: consume_def)

lemma settled_consume: "settled lib w m \<Longrightarrow> settled lib (consume lib env vc judge ack_sent w) m"
  by (auto simp: settled_def completed_consume split: option.splits)

lemma process_message_settled:
  assumes "process_message lib env vc judge m (world_db w) = ((r, True), d)" and "world_db w' = d"
  shows "settled lib w' m"
  using assms
  by (auto simp: process_message_def settled_def Let_def split: option.splits sum.splits prod.splits dest: mark_completed_Inr)

lemma consume_queues:
  "\<exists>acked. mset (ready w) + mset (unacked w) =
      mset acked + mset (ready (consume lib env vc judge ack_sent w)) + mset (unacked (consume lib env vc judge ack_sent w)) \<and>
     (\<forall>m \<in> set acked. settled lib (consume lib env vc judge ack_sent w) m) \<and>
     suffix (ready (consume lib env vc judge ack_sent w)) (ready w) \<and> prefix (unacked w) (unacked (consume lib env vc judge ack_sent w))"
proof (cases "ready w")
  case Nil
  then show ?thesis by (auto simp: consume_def intro: exI [of _ "[]"])
next
  case (Cons m ms)
  obtain r acked d where p: "process_message lib env vc judge m (world_db w) = ((r, acked), d)" by (metis surj_pair)
  show ?thesis
  proof (cases "acked \<and> ack_sent")
    case True
    with p have "process_message lib env vc judge m (world_db w) = ((r, True), d)" by simp
    from process_message_settled [OF this] True Cons p show ?thesis
      by (intro exI [of _ "[m]"]) (simp add: consume_def suffix_ConsI)
  next
    case False
    with Cons p show ?thesis by (intro exI [of _ "[]"]) (auto simp: consume_def suffix_ConsI)
  qed
qed

lemma settled_loop: "settled lib w m \<Longrightarrow> settled lib (fst (consumer_loop lib vc evs w)) m"
  by (induction lib vc evs w rule: consumer_loop.induct) (simp_all add: settled_consume)

lemma consumer_loop_queues:
  "consumer_loop lib vc evs w = (t, left) \<Longrightarrow>
     \<exists>acked. mset (ready w) + mset (unacked w) = mset acked + mset (ready t) + mset (unacked t) \<and>
       (\<forall>m \<in> set acked. settled lib t m) \<and> suffix (ready t) (ready w) \<and> prefix (unacked w) (unacked t)"
proof (induction lib vc evs w rule: consumer_loop.induct)
  case (2 lib vc env judge ack_sent evs w)
  let ?c = "consume lib env vc judge ack_sent w"
  from consume_queues [of w lib env vc judge ack_sent] obtain acked where c: "mset (ready w) + mset (unacked w) =
      mset acked + mset (ready ?c) + mset (unacked ?c)" "\<forall>m \<in> set acked. settled lib ?c m"
    "suffix (ready ?c) (ready w)" "prefix (unacked w) (unacked ?c)" by blast
  from 2 obtain acked' where t: "mset (ready ?c) + mset (unacked ?c) = mset acked' + mset (ready t) + mset (unacked t)"
    "\<forall>m \<in> set acked'. settled lib t m" "suffix (ready t) (ready ?c)" "prefix (unacked ?c) (unacked t)" by auto
  have "settled lib t m" if "m \<in> set (acked @ acked')" for m
    using that c(2) t(2) settled_loop [of lib ?c m vc evs] 2(2) by auto
  moreover have "mset (ready w) + mset (unacked w) = mset (acked @ acked') + mset (ready t) + mset (unacked t)"
    using c(1) t(1) by (simp add: add.assoc)
  ultimately show ?case using c(3,4) t(3,4) by (meson suffix_order.trans prefix_order.trans)
qed (auto intro: exI [of _ "[]"])

definition judges_of :: "consumer_event \<Rightarrow> (verdict_task \<Rightarrow> sdk_error + verdict_task_result) set" where
  "judges_of ev = (case ev of Delivered _ judge _ \<Rightarrow> {judge} | _ \<Rightarrow> {})"

lemma consumer_loop_reach:
  "reach init (service_step lib vc judges payload cfg topo) w \<Longrightarrow>
     \<forall>ev \<in> set evs. \<forall>judge \<in> judges_of ev. \<forall>task. judges task (judge task) \<Longrightarrow>
     reach init (service_step lib vc judges payload cfg topo) (fst (consumer_loop lib vc evs w))"
  by (induction lib vc evs w rule: consumer_loop.induct) (auto simp: judges_of_def intro: reach_step step_consume)

subsection \<open>Properties\<close>

text \<open>C31. A session of the processor loses no message: after the session every message that was in the queue is there
  still, queued (or, while the consumer is still listening, waiting for its acknowledgement) in the old order, or it was acknowledged, and then it could not be read, or carried no valid id, or its submission is completed
  in the database.  The whole effect of a session is a run of the services, so the properties of those runs hold.  But
  within the session a message that could not be judged is never tried again, however many messages follow.\<close>
theorem session_keeps_messages:
  assumes "\<forall>ev \<in> set evs. \<forall>judge \<in> judges_of ev. \<forall>task. judges task (judge task)"
    and "consumer_loop lib vc evs w = (t, left)" and "s = processor_session lib vc evs w"
  shows "reach w (service_step lib vc judges payload cfg topo) s \<and>
    (\<exists>acked. mset (ready w) + mset (unacked w) = mset acked + mset (ready s) + mset (unacked s) \<and>
       (\<forall>m \<in> set acked. \<forall>sid task. submit_message_of m = Some (sid, task) \<longrightarrow>
          (\<forall>u. uuid_parse lib sid = Some u \<longrightarrow> (\<exists>r \<in> set (rows_of s). submission_id r = u \<and> submission_status r = Completed)))) \<and>
    suffix (ready t) (ready w) \<and> prefix (unacked w) (unacked t) \<and>
    (left \<longrightarrow> unacked s = [] \<and> ready s = unacked t @ ready t)"
proof -
  have "reach w (service_step lib vc judges payload cfg topo) (fst (consumer_loop lib vc evs w))"
    by (rule consumer_loop_reach [OF reach_init assms(1)])
  then have "reach w (service_step lib vc judges payload cfg topo) t" by (simp add: assms(2))
  then have run: "reach w (service_step lib vc judges payload cfg topo) s"
    by (auto simp: assms(2,3) processor_session_def intro: reach_step step_reconnect)
  have s: "rows_of s = rows_of t" "mset (ready s) + mset (unacked s) = mset (ready t) + mset (unacked t)"
    "left \<longrightarrow> unacked s = [] \<and> ready s = unacked t @ ready t"
    by (auto simp: assms(2,3) processor_session_def reconnect_def)
  from consumer_loop_queues [OF assms(2)] obtain acked where acked: "\<forall>m \<in> set acked. settled lib t m"
    "mset (ready w) + mset (unacked w) = mset acked + mset (ready t) + mset (unacked t)"
    and order: "suffix (ready t) (ready w)" "prefix (unacked w) (unacked t)" by blast
  have "mset (ready w) + mset (unacked w) = mset acked + mset (ready s) + mset (unacked s)"
    using acked(2) s(2) by (simp add: add.assoc)
  moreover have "\<forall>m \<in> set acked. \<forall>sid task. submit_message_of m = Some (sid, task) \<longrightarrow>
      (\<forall>u. uuid_parse lib sid = Some u \<longrightarrow> (\<exists>r \<in> set (rows_of s). submission_id r = u \<and> submission_status r = Completed))"
    using acked(1) by (auto simp: settled_def completed_def s(1))
  ultimately show ?thesis using run order s(3) by blast
qed

definition demo_message :: json_object where
  "demo_message = message_with ''submission_id'' ''task'' ''7'' (task_for (demo_problem 1 8 10) [] ''int main() {}'' AcceptableCpp)"

theorem session_keeps_messages_witness:
  "ready (processor_session demo_lib demo_verdicts [Delivered demo_env (\<lambda>_. Inl SdkRequest) True, CtrlC]
     (demo_world\<lparr>ready := [demo_message]\<rparr>)) = [demo_message]"
proof -
  have "consumer_loop demo_lib demo_verdicts [Delivered demo_env (\<lambda>_. Inl SdkRequest) True, CtrlC] (demo_world\<lparr>ready := [demo_message]\<rparr>) =
      (demo_world\<lparr>ready := [], unacked := [demo_message]\<rparr>, True)"
    by (simp add: consume_def process_message_def demo_message_def submit_message_of_with demo_world_def empty_world_def)
  from session_keeps_messages [OF _ this refl, of "\<lambda>_ _. True"] show ?thesis by simp
qed

end
