(* ===== verification/Spec2Isabelle.thy ===== *)
theory Spec2Isabelle
  imports Ranking Provisioner Scaler Pool_Liveness Judging Gateway_Pipeline Submission_Verdicts Gateway_Layers Supervision Processor
begin

text \<open>
  Verification library of the Rust services of an online judge (\<open>services/crates\<close>).  File names below are
  relative to that directory.

  \<^bold>\<open>The program.\<close>  Users send programs for problems; agents in containers compile and run them on test cases.
  The gateway (\<open>gateway\<close>) authenticates requests with the keys of the authorization server (\<open>auth\<close>) and
  forwards them to the problem API (\<open>api_server\<close>) and the submission server (\<open>api_server_submission\<close>), which
  share a database (\<open>api_server_db\<close>).  A submission is stored as pending and sent through a message broker to
  the processor (\<open>submission_processor\<close>), which asks the manager (\<open>judge_core_manager\<close>, through the client
  \<open>judge_core_sdk\<close>) for a verdict and stores it.  The manager keeps a pool of agents (\<open>judge_core_agent\<close>) that it
  creates in containerd and scales with the load, and speaks a framed protocol with them
  (\<open>judge_core_shared\<close>).  The scoreboard (\<open>algorithm\<close>) ranks the results of a contest.

  \<^bold>\<open>Theories and what they model.\<close>
  \<^item> \<open>OJ_Prelude\<close>: machine integers, lists, maps, counting, \<open>reach\<close> and the locales \<open>inductive_invariant\<close>
    and \<open>simulation\<close>.
  \<^item> \<open>Ranking\<close>: \<open>algorithm/src/ranking.rs\<close>; the \<open>linorder\<close> of scores, the sort and the rank loop.
  \<^item> \<open>Judge_Models\<close>, \<open>Protocol\<close>: \<open>judge_core_shared/src\<close>; tasks, verdicts, the HTTP forms, framing.
  \<^item> \<open>Pool\<close>: \<open>judge_core_manager/src/pool.rs\<close> as a step relation: one step per stretch of code between two
    points where another task of the runtime may run, so every interleaving is a run.  \<open>Pool_Invariants\<close>
    proves one invariant per concern, each an interpretation of \<open>inductive_invariant\<close>; \<open>Pool_Properties\<close> draws the
    guarantees and builds the runs in which the pool does less than it should; \<open>Pool_Service\<close> states the pool's
    contract as an abstract judging service and shows, by interpreting \<open>simulation\<close>, that the pool refines it;
    \<open>Pool_Liveness\<close> gives the pool's own steps a potential, so that their runs end, with everybody answered.
  \<^item> \<open>Provisioner\<close>: \<open>provisioner.rs\<close>; \<open>create\<close> and \<open>destroy\<close> with the effects they have on containerd in order.
  \<^item> \<open>Scaler\<close>: \<open>scaler.rs\<close> and the settings of \<open>config.rs\<close>.  \<open>Manager_Http\<close>: \<open>router.rs\<close> and \<open>judge_core_sdk\<close>.
  \<^item> \<open>Verdict\<close>: \<open>judge_core_agent/src/verdict/mod.rs\<close>, the driver over any judge; the locale \<open>sound_judge\<close> is the contract
    of a judge and \<open>Cpp_Judge\<close> (\<open>verdict/cpp.rs\<close>) interprets it.  \<open>Supervision\<close> is what \<open>cpp.rs\<close> does while a program
    runs: judge, readers, program and clock as a step relation.  \<open>Agent_Limits\<close>: \<open>limit/\<close>.  \<open>Agent\<close>: \<open>main.rs\<close>
    and \<open>judge_core_standalone\<close>.
  \<^item> \<open>Judging\<close>: the client's call through the manager's HTTP interface, the pool, the wire and the agent down to the
    runs of the judged program, composed of the theories above.
  \<^item> \<open>Auth_Token\<close>, \<open>Auth_Router\<close>, \<open>Auth_Extractor\<close>: \<open>auth/src\<close>; tokens, the handlers as transitions of the two
    tables, and the extractors the services use, over \<open>Http_Headers\<close>.
  \<^item> \<open>Gateway_Route\<close> (\<open>config.rs\<close>, \<open>router.rs\<close>), \<open>Gateway_Jwks\<close> (\<open>jwks.rs\<close>), \<open>Gateway_Limiter\<close> (\<open>rate_limiter/\<close>; the
    trait is the locale \<open>rate_limiter\<close>, the in-memory limiter its interpretation) and \<open>Gateway_Pipeline\<close>
    (\<open>layers/\<close>, \<open>services/\<close>, \<open>main.rs\<close>): the layers are functions of the service they wrap, composed as in \<open>main\<close>.
    \<open>Gateway_Limiter\<close> has a check as a function and, for checks that overlap, as three steps that interleave.
    \<open>Gateway_Layers\<close> builds the same stack of services that must be ready before they are called, and shows that the
    pipeline is that stack for a client that is ready.
  \<^item> \<open>Problems_Db\<close>, \<open>Problems_Api\<close>: \<open>api_server_db/src\<close> and \<open>api_server/src/routers/problems.rs\<close>; repository operations in a
    state-and-failure monad over tables, transactions with rollback.  A page of the listing is ordered by time of creation; the
    order of rows with equal times may differ from query to query.
  \<^item> \<open>Submissions\<close>: the submission repository, server and processor with the broker between them as a step
    relation, in which the broker may lose what it was handed (\<open>broker_loses\<close>: it is not sent persistent messages); the form of the
    message is a parameter \<open>payload\<close>, of which \<open>submit_payload\<close> is what the Rust server writes; \<open>Submission_Verdicts\<close> follows one submission through every run of them, and \<open>Processor\<close> the queue through
    a session of the processor.
  \<^item> \<open>Endpoints\<close>: the routers of the services (\<open>auth/src/router.rs\<close>, \<open>api_server/src/routers/problems.rs\<close>,
    \<open>api_server_submission/src/router.rs\<close>), from a request as it comes over the network to the handlers above.
  \<^item> \<open>Settings\<close> (every \<open>config.rs\<close>, by sections: each must read as a struct with its fields) and \<open>Startup\<close> (every \<open>main.rs\<close>, \<open>rabbitmq.rs\<close>, \<open>utilities.rs\<close>): how a process comes to
    its settings and which calls to the host it makes before it serves, with the errors they end in.  \<open>Broker\<close> follows
    the calls of the processor into the broker.  \<open>Serving\<close>: the accept loops of the gateway and the agent with their
    task sets and the drain at shutdown, driven by events; an interrupt that comes
    while the loop does not listen for it is \<open>MissedInterrupt\<close>; the locale \<open>draining_process\<close> is their common contract.
  \<^item> This theory composes them end to end: from the login to the service behind the gateway, and from the
    submission to the program's run.

  \<^bold>\<open>What is shown.\<close>  The properties are numbered in the order of their weight (C1, C2, ...).
  \<^item> End to end: a submission that is reported as passed was solved, on every test case of its problem
    (\<open>passed_submission_solved\<close>); a token of a login carries the identity of the user who logged in, and of
    nobody else, to the services (\<open>login_identity_reaches_service\<close>).
  \<^item> Pool: it refines a service that answers each caller at most once, about the caller's own task; each
    submission is in exactly one place and answered exactly once, whatever the interleaving; load counters
    are exact and bounded; executions are bounded by the retry limit; no wake-up of the dispatcher is lost, and
    as long as an agent is available everybody is answered; the least loaded agent is chosen.
  \<^item> Agents: results in the order of the cases whatever the order of completion; a task passes exactly when
    every case was accepted, and then the program's output was right on each of them (through
    \<open>sound_judge\<close>); clean-up after every task; task and reply survive the wire.
  \<^item> Judging: the supervision of a program ends and delivers exactly what the verdict is computed from, whatever the
    order of events, as long as the input fits into a pipe; otherwise a program can block the judge for ever.
  \<^item> Identity: refreshing and revoking work on what a login issued; the tables of the authorization server stay
    well-formed; behind a route that requires a user, changes of problems and submissions are that user's own.
  \<^item> Gateway: the route chosen is the best match; a client is limited by buckets of its own key, one at a time if no
    two checks overlap;
    the layers answer in order, and every accepted connection is served by them.
  \<^item> Processes: settings load exactly if every section and every value given fits its field; what is published is routed to the
    processor; a manager that fails to start leaves its agents alone; gateway and agent stop in time and abort
    nothing before.
  \<^item> Database and submissions: a request of the problem API that fails leaves the tables as they were; only
    the author changes a problem; pages partition a listing; an accepted submission stays in the table, and until it is completed its message is
    with the broker unless the broker lost it or the processor cannot read it; the verdict reaches the submitter if the message can be read.
  \<^item> Where the code does not do what it means to, the theorem states what it does (for example
    \<open>submissions_never_judged\<close>, \<open>dispatcher_sleeps_with_room\<close>, \<open>user_id_spoofed\<close>, \<open>early_output_blocks_judge\<close>).

  \<^bold>\<open>Conventions and bounds.\<close>  \<open>u8\<close>, \<open>u32\<close>, \<open>u64\<close> and \<open>i32\<close> are words; \<open>usize\<close> counters of things in memory are naturals;
  additions of the scaler that can exceed 64 bits wrap.  \<open>f64\<close> is read as a real number, without rounding and infinities; its
  cast to \<open>usize\<close> saturates.  Strings are lists of characters.  A panic is
  the value \<open>None\<close> where a caller can observe it.  A handler that panics is the
  status 0 (no response).  The time (to the nanosecond where the database keeps it), the identifiers drawn and the failures of the
  database, the network and the containers are arguments, so that a theorem holds for all of them.  Loops end by
  recursion on what they consume; the loop of \<open>wait_for_socket\<close> has fuel 301, one more than the rounds that fit
  its deadline, and \<open>wait_for_socket_ends\<close> shows that it is enough.

  \<^bold>\<open>Parameters\<close> (code not in the repository): postcard, JSON, JWT, Argon2, base64, PEM and SHA-256, the URI parser,
  the token bucket of governor, the eviction of the limiter's cache, containerd and the OCI image format, the
  kernel's cgroups, pipes and seccomp, SQL text matching and the order of rows that a
  query leaves open, the configuration library, the message broker and what it loses, the matching of
  paths by the web framework, the readiness of the HTTP client.  The laws that theorems need of them are stated as
  hypotheses (\<open>jwt_law\<close>, \<open>argon_law\<close>, \<open>uuid_law\<close>, \<open>codec_ok\<close>, \<open>faithful_payload\<close>, \<open>broker_law\<close>, \<open>matcher_law\<close> and the like), and the
  witnesses instantiate them.

  \<^bold>\<open>Not modelled.\<close>  Logging; HTTP framing and the unlimited graceful shutdown of the web framework
  (\<open>service_utils\<close> is a call of it); what the compiler does, of which only the observed run is an input; programs that
  leave processes behind; concurrent
  execution of two database operations (each runs on its own, a failed commit leaves the tables as before);
  cancellation of a submitter that no longer waits; an execution of the pool that dies of a panic (\<open>send\<close> of a
  frame over 4 GiB, whose panic is modelled); the tables
  of tags and users behind the problem database (a reference to a missing row is a query that fails); the loops of the manager
  while its server starts (they are tasks of their own, in \<open>Pool\<close> and \<open>Scaler\<close>); the TypeScript services, which implement the same API a second time.
\<close>

section \<open>From the login to the service behind the gateway\<close>

text \<open>C8. Identity end to end: a gateway that has fetched the keys the authorization server publishes passes a
  request with the access token of a login on to a service that requires a user as the user who logged in,
  whatever \<open>x-user-id\<close> the client put in; a request with the refresh token of the login is not passed on.\<close>
theorem login_identity_reaches_service:
  assumes "jwks_handler (codec jl) app = Inr keys" and "extract_ed25519_public_key (codec jl) (public_key_pem app) = Some raw"
    and "b64_decode (codec jl) (b64_encode (codec jl) raw) = Some raw" and "jwks_json jl key_body = Some keys" and "url_parses jl url"
    and "der_of_raw lib raw = Some der" and "jwt_law lib (private_key_pem app) (DerKey der)" and "uuid_law lib"
    and "\<forall>c tk. jwt_encode lib c (private_key_pem app) = Some tk \<longrightarrow> jwt_kid lib tk = Some None"
    and "\<And>uid. list_all visible (uuid_show lib uid)"
    and "password_grant lib app now name pwd s = (Inr (PasswordTokens access ttl refresh), t)"
    and "jwks_new jl url (Body key_body) = Inr m" and "gw_jwks gw = m" and "gw_lib gw = lib"
    and "unat later \<le> unat (saturating_add now (access_token_ttl_secs app))"
    and "match_route (gw_routes gw) (req_path req) = Some r" and "route_auth r = Required"
    and "header_get (req_headers req) ''authorization'' = Some (''Bearer '' @ access)"
    and "gateway_call gw clock later peer body req ls = (Some (resp, Some sent), ls')"
    and "match_route (gw_routes gw) (req_path req') = Some r'" and "route_auth r' = Required"
    and "header_get (req_headers req') ''authorization'' = Some (''Bearer '' @ refresh)"
  shows "(\<exists>user. user \<in> set (users s) \<and> username user = name \<and> hash_matches lib pwd (password_hash user) \<and>
      user_id_required lib (sent_headers sent) = Inr (user_id user)) \<and>
    gateway_call gw clock' later' peer' body' req' ls'' \<noteq> (Some (resp', Some sent'), ls''')"
proof
  from gateway_accepts_server_tokens [OF assms(1-7,9,11)] assms(12,15) obtain user where
    user: "user \<in> set (users s)" "username user = name" "hash_matches lib pwd (password_hash user)"
    and access: "map_sum id claim_sub (jwks_verify lib m later access) = Inr (uuid_show lib (user_id user))"
    and refresh: "jwks_verify lib m later' refresh = Inl TokenVerificationFailed" by auto
  have verified: "gateway_verify_token lib m later (Some (''Bearer '' @ access)) = Some u \<Longrightarrow> u = uuid_show lib (user_id user)" for u
    using access assms(8) by (auto simp: gateway_verify_token_Some uuid_law_def)
  from gateway_call_sent [OF assms(19)] assms(13,14,16) obtain bytes ans where
    "auth_call lib m later (proxy_call (gw_uri gw) (gw_upstream gw)) (req\<lparr>peer_addr := Some peer, req_body := bytes, matched := Some r\<rparr>) =
       (ans, Some sent)" by auto
  from auth_call_sent [OF this] assms(17,18) verified obtain host where
    "sent_headers sent = header_insert (header_insert (req_headers req) ''x-user-id'' (uuid_show lib (user_id user))) ''host'' host" by auto
  then have "user_id_required lib (sent_headers sent) = Inr (user_id user)"
    by (intro user_id_of_inserted [OF assms(8,10)]) simp
  with user show "\<exists>user. user \<in> set (users s) \<and> username user = name \<and> hash_matches lib pwd (password_hash user) \<and>
      user_id_required lib (sent_headers sent) = Inr (user_id user)" by blast
  have "gateway_verify_token lib m later' (Some (''Bearer '' @ refresh)) = None"
    using refresh strip_prefix_append [of "''Bearer ''" refresh] by (simp add: gateway_verify_token_def to_str_def)
  then have no: "auth_call lib m later' (proxy_call (gw_uri gw) (gw_upstream gw)) req'' = (Inl AuthFailed, None)"
    if "matched req'' = Some r'" and "req_headers req'' = req_headers req'" for req''
    using assms(21,22) that by (simp add: auth_call_def)
  show "gateway_call gw clock' later' peer' body' req' ls'' \<noteq> (Some (resp', Some sent'), ls''')"
  proof
    assume "gateway_call gw clock' later' peer' body' req' ls'' = (Some (resp', Some sent'), ls''')"
    from gateway_call_sent [OF this] assms(13,14,20) no show False by auto
  qed
qed

theorem login_identity_reaches_service_witness:
  "\<exists>resp sent s'. gateway_call (demo_gateway Required) (\<lambda>_. False, 5) 60 ''10.0.0.1'' (Some [])
     (demo_request [''authorization'' \<mapsto> [''Bearer A''], ''x-user-id'' \<mapsto> [''1'']]) no_limiters = (Some (resp, Some sent), s') \<and>
   user_id_required demo_lib (sent_headers sent) = Inr 7"
proof -
  obtain resp sent s' where call: "gateway_call (demo_gateway Required) (\<lambda>_. False, 5) 60 ''10.0.0.1'' (Some [])
     (demo_request [''authorization'' \<mapsto> [''Bearer A''], ''x-user-id'' \<mapsto> [''1'']]) no_limiters = (Some (resp, Some sent), s')"
    using demo_required_call by blast
  have gw: "gw_jwks (demo_gateway Required) = demo_manager" "gw_lib (demo_gateway Required) = demo_lib"
    by (simp_all add: demo_gateway_def)
  have "user_id_required demo_lib (sent_headers sent) = Inr 7"
    using login_identity_reaches_service [OF demo_publishes demo_lib_laws(1) demo_lib_laws(3) _ demo_uuid_visible demo_login_pair
        demo_manager_new gw _ demo_match _ _ call demo_match _,
        of "[''authorization'' \<mapsto> [''Bearer R'']]"] demo_kid
    by (auto simp: demo_route_def demo_request_def header_get_def demo_users_def demo_app_def demo_lib_run saturating_add_def)
  with call show ?thesis by blast
qed

section \<open>From the submission to the program's run\<close>

text \<open>C1. Accepted means solved: when a user's query says that a submission passed, then one of the attempts that agents made at
  the task of this submission solved it: the submitted source compiled in it and, for every test case the problem had when the
  submission was accepted, visible or hidden, the run of that attempt for the case ended with code 0 and wrote exactly the
  expected output.  \<open>made\<close> is the record of the attempts made; the verdicts the client gets are answers of a pool whose agents
  make these attempts.  This holds whatever happened in between: other submissions, changes of the problem, failures of the
  database, lost and redelivered messages, lost answers, retries, timeouts and health checks of the pool, in any
  interleaving, for every form of the message that the processor reads correctly or not at all.  With the form the Rust server
  writes it never says so, since nothing is judged (C11); with that of \<open>packages/models/src/message.ts\<close> it does.  (The largest
  \<open>u64\<close> as output limit is excluded.)\<close>
theorem passed_submission_solved:
  fixes codec :: verdict_codec
  assumes "uuid_law lib" and "\<And>v json. to_value codec v = Some json \<Longrightarrow> from_value codec json = Some v"
    and "wire_law wire" and "json_law js" and "faithful_payload payload"
    and "reach (empty_world d) (service_step lib codec (client_judges wire cfg made js client) payload pub topo) w"
    and "post_handler lib env payload pub topo sent h req w = (Inr sid, w1)"
    and "reach w1 (service_step lib codec (client_judges wire cfg made js client) payload pub topo) w2"
    and "fst (get_handler lib env' codec h' sid w2) = Inr (SubmissionCompleted (RAllPassed m))"
    and "\<forall>p \<in> set (problems (tables_of (world_db w))). problem_output_bytes p \<noteq> - 1"
  shows "\<exists>p \<in> set (problems (tables_of (world_db w))). problem_id p = post_problem_id req \<and>
    (let cases = filter (\<lambda>c. case_problem c = post_problem_id req) (test_cases (tables_of (world_db w)))
     in \<exists>i a. (i, task_for p cases (post_source_code req) (post_language req), a) \<in> made \<and>
          cpp_compile (compiles a (post_source_code req)) = Inr CompileSuccess \<and>
          (\<forall>n < length cases. child_outcome (runs a (run_ids a n)) = Exited (ExitCode 0) \<and>
             stdout_bytes (runs a (run_ids a n)) = row_output (cases ! n)))"
proof -
  let ?cases = "filter (\<lambda>c. case_problem c = post_problem_id req) (test_cases (tables_of (world_db w)))"
  from submission_verdict [OF assms(1,2,5-9)] obtain p result where
    p: "p \<in> set (problems (tables_of (world_db w)))" "problem_id p = post_problem_id req" and v: "RAllPassed m = result_into_response result"
    and judged: "client_judges wire cfg made js client (task_for p ?cases (post_source_code req) (post_language req)) (Inr result)" .
  let ?task = "task_for p ?cases (post_source_code req) (post_language req)"
  from v have "result = AllPassed m" by (cases result) simp_all
  moreover have "stop_on_first_error ?task" "limit_output_bytes (task_limits ?task) \<noteq> - 1"
    using p assms(10) by (simp_all add: task_for_def)
  ultimately obtain i a where solved: "(i, ?task, a) \<in> made" "solved a ?task"
    using client_passed_solved [OF _ assms(3,4)] judged by blast
  from solved(2) have "cpp_compile (compiles a (post_source_code req)) = Inr CompileSuccess \<and>
      (\<forall>n < length ?cases. child_outcome (runs a (run_ids a n)) = Exited (ExitCode 0) \<and> stdout_bytes (runs a (run_ids a n)) = row_output (?cases ! n))"
    by (simp add: solved_def task_for_def)
  with p solved(1) show ?thesis unfolding Let_def by blast
qed

definition demo_passed_codec :: verdict_codec where
  "demo_passed_codec =
     \<lparr>to_value = \<lambda>v. if v = result_into_response demo_passed then Some ''passed'' else None,
      from_value = \<lambda>j. if j = ''passed'' then Some (result_into_response demo_passed) else None\<rparr>"

definition demo_env_up :: db_env where
  "demo_env_up = demo_env\<lparr>up := \<lambda>_. True\<rparr>"

definition demo_judge :: "verdict_task \<Rightarrow> sdk_error + verdict_task_result" where
  "demo_judge task = (if task = demo_judged_task then Inr demo_passed else Inl SdkRequest)"

definition demo_accepted :: world where
  "demo_accepted = snd (post_handler demo_lib demo_env_up (message_with ''submission_id'' ''task'') publish_config_default topology_default
     True demo_headers demo_post demo_world)"

definition demo_judged :: world where
  "demo_judged = consume demo_lib demo_env_up demo_passed_codec demo_judge True demo_accepted"

lemmas demo_submission_run =
  demo_accepted_def demo_judged_def demo_env_up_def demo_judge_def Let_def post_handler_def create_pending_def and_then_def find_problem_def
  query_def ret_def draw_id_def insert_submission_def execute_def demo_env_def demo_world_def empty_world_def demo_db_def
  demo_tables_def demo_problem_def demo_post_def problem_ids_def publish_def publish_config_default_def topology_default_def consume_def
  process_message_def submit_message_of_with task_for_def mark_completed_def save_submission_def demo_passed_codec_def
  demo_judged_task_def get_handler_def submission_get_def demo_passed_def

lemma demo_accepted_post:
  "post_handler demo_lib demo_env_up (message_with ''submission_id'' ''task'') publish_config_default topology_default True demo_headers
     demo_post demo_world = (Inr 100, demo_accepted)"
  using demo_user by (simp add: demo_submission_run)

lemma demo_judged_get:
  "fst (get_handler demo_lib demo_env_up demo_passed_codec demo_headers 100 demo_judged) =
     Inr (SubmissionCompleted (RAllPassed \<lparr>used_cpu_time_ms = 2, used_wall_time_ms = 7, used_memory_bytes = 100\<rparr>))"
proof -
  have "uuid_parse demo_lib (uuid_show demo_lib 100) = Some 100"
    using demo_lib_laws(3) by (simp add: uuid_law_def)
  then show ?thesis using demo_user by (simp add: demo_submission_run)
qed

theorem passed_submission_solved_witness:
  "stdout_bytes (runs demo_attempt (run_ids demo_attempt 0)) = ''3'' \<and> stdout_bytes (runs demo_attempt (run_ids demo_attempt 1)) = ''42''"
proof -
  let ?step = "service_step demo_lib demo_passed_codec (client_judges demo_wire demo_cfg demo_log demo_json demo_client)
     (message_with ''submission_id'' ''task'') publish_config_default topology_default"
  let ?cases = "filter (\<lambda>c. case_problem c = 1) (test_cases demo_tables)"
  have run: "reach demo_accepted ?step demo_judged"
    unfolding demo_judged_def by (intro service_reach_intros reach_init) (simp add: demo_judge_def demo_client_judges)
  have start: "reach demo_world ?step demo_world" by (rule reach_init)
  have "to_value demo_passed_codec v = Some json \<Longrightarrow> from_value demo_passed_codec json = Some v" for v json
    by (simp add: demo_passed_codec_def split: if_splits)
  from passed_submission_solved [OF demo_lib_laws(3) this demo_laws payloads_faithful(2) start [unfolded demo_world_def]
      demo_accepted_post [unfolded demo_world_def] run demo_judged_get]
  have "\<exists>i a. (i, a) \<in> {(i, a). \<exists>t. (i, t, a) \<in> demo_log} \<and> (\<forall>n < length ?cases. stdout_bytes (runs a (run_ids a n)) = row_output (?cases ! n))"
    by (auto simp: empty_world_def demo_db_def demo_tables_def demo_problem_def demo_post_def Let_def)
  then have "\<forall>n < length ?cases. stdout_bytes (runs demo_attempt (run_ids demo_attempt n)) = row_output (?cases ! n)"
    by (auto simp: demo_log_def)
  then show ?thesis by (auto simp: demo_tables_def less_Suc_eq)
qed

end
